(* ===== verification/Ego_Prelude.thy ===== *)
theory Ego_Prelude
  imports Main "HOL-Library.Word" "HOL-Library.AList"
begin

section \<open>Shared library of the development\<close>

text \<open>
  What every component theory uses: the Rust integer types as machine words with the
  saturating and checked operations of the standard library, the result type, association
  lists for \<open>HashMap\<close> and sorted association lists for \<open>BTreeMap\<close>, the little-endian byte
  encodings, and cardinality facts on quorums.
\<close>

named_theorems rust_arith \<open>facts that move the Rust integer operations to natural numbers\<close>
named_theorems map_laws \<open>lookup after update, for the map representations\<close>

subsection \<open>Integer types\<close>

type_synonym u8 = "8 word"
type_synonym u16 = "16 word"
type_synonym u32 = "32 word"
type_synonym u64 = "64 word"
type_synonym u128 = "128 word"
type_synonym usize = nat
type_synonym i64 = int
type_synonym bytes = "u8 list"

text \<open>\<open>saturating_add\<close>, \<open>saturating_sub\<close>, \<open>saturating_mul\<close>: the result sticks at the bound.\<close>

definition sat_add :: "'a::len word \<Rightarrow> 'a word \<Rightarrow> 'a word" where
  "sat_add a b = (if unat a + unat b < 2 ^ LENGTH('a) then a + b else - 1)"

definition sat_sub :: "'a::len word \<Rightarrow> 'a word \<Rightarrow> 'a word" where
  "sat_sub a b = (if b \<le> a then a - b else 0)"

definition sat_mul :: "'a::len word \<Rightarrow> 'a word \<Rightarrow> 'a word" where
  "sat_mul a b = (if unat a * unat b < 2 ^ LENGTH('a) then a * b else - 1)"

text \<open>\<open>checked_add\<close> and \<open>checked_sub\<close>: \<open>None\<close> on overflow.\<close>

definition checked_add :: "'a::len word \<Rightarrow> 'a word \<Rightarrow> 'a word option" where
  "checked_add a b = (if unat a + unat b < 2 ^ LENGTH('a) then Some (a + b) else None)"

definition checked_sub :: "'a::len word \<Rightarrow> 'a word \<Rightarrow> 'a word option" where
  "checked_sub a b = (if b \<le> a then Some (a - b) else None)"

lemma unat_sat_add [rust_arith]:
  fixes a b :: "'a::len word"
  shows "unat (sat_add a b) = min (unat a + unat b) (2 ^ LENGTH('a) - 1)"
  by (auto simp: sat_add_def unat_word_ariths unsigned_minus_1_eq_mask mask_eq_exp_minus_1)

lemma unat_sat_sub [rust_arith]: "unat (sat_sub a b) = unat a - unat b"
  by (auto simp: sat_sub_def unat_sub word_le_nat_alt)

lemma unat_sat_mul [rust_arith]:
  fixes a b :: "'a::len word"
  shows "unat (sat_mul a b) = min (unat a * unat b) (2 ^ LENGTH('a) - 1)"
  by (auto simp: sat_mul_def unat_word_ariths unsigned_minus_1_eq_mask mask_eq_exp_minus_1)

lemma le_sat_add [simp, intro]:
  fixes a b :: "'a::len word"
  shows "a \<le> sat_add a b"
proof -
  have "unat a < 2 ^ LENGTH('a)" by (rule unsigned_less)
  then have "unat a \<le> 2 ^ LENGTH('a) - Suc 0" by linarith
  then show ?thesis by (simp add: word_le_nat_alt unat_sat_add)
qed

lemma checked_add_SomeD [dest]:
  "checked_add a b = Some c \<Longrightarrow> unat c = unat a + unat b"
  by (auto simp: checked_add_def unat_word_ariths split: if_splits)

lemma checked_sub_SomeD [dest]:
  "checked_sub a b = Some c \<Longrightarrow> b \<le> a \<and> unat c = unat a - unat b"
  by (auto simp: checked_sub_def unat_sub split: if_splits)

text \<open>\<open>i64\<close> is \<open>int\<close> with its bounds written out.\<close>

definition i64_min :: int where "i64_min = - (2 ^ 63)"
definition i64_max :: int where "i64_max = 2 ^ 63 - 1"

definition i64_checked_add :: "i64 \<Rightarrow> i64 \<Rightarrow> i64 option" where
  "i64_checked_add a b = (if i64_min \<le> a + b \<and> a + b \<le> i64_max then Some (a + b) else None)"

definition i64_sat_add :: "i64 \<Rightarrow> i64 \<Rightarrow> i64" where
  "i64_sat_add a b = max i64_min (min i64_max (a + b))"

subsection \<open>Results\<close>

text \<open>\<open>Result<T, E>\<close> is \<open>'e + 'a\<close>; \<open>rbind\<close> is the \<open>?\<close> operator.\<close>

fun rbind :: "'e + 'a \<Rightarrow> ('a \<Rightarrow> 'e + 'b) \<Rightarrow> 'e + 'b" where
  "rbind (Inl e) f = Inl e"
| "rbind (Inr a) f = f a"

lemma rbind_Inr_iff [simp]: "rbind r f = Inr b \<longleftrightarrow> (\<exists>a. r = Inr a \<and> f a = Inr b)"
  by (cases r) auto

lemma rbind_Inl_iff: "rbind r f = Inl e \<longleftrightarrow> r = Inl e \<or> (\<exists>a. r = Inr a \<and> f a = Inl e)"
  by (cases r) auto

subsection \<open>Sorted association lists: BTreeMap\<close>

text \<open>
  A \<open>BTreeMap\<close> is an association list kept in the order of its keys, which is the order
  \<open>keys()\<close> and \<open>iter()\<close> use. A \<open>HashMap\<close> that the code iterates is an association list too,
  updated with the library's \<open>AList.update\<close>.
\<close>

fun bt_insert :: "'k::linorder \<Rightarrow> 'v \<Rightarrow> ('k \<times> 'v) list \<Rightarrow> ('k \<times> 'v) list" where
  "bt_insert k v [] = [(k, v)]"
| "bt_insert k v ((k', v') # m) =
     (if k = k' then (k, v) # m
      else if k < k' then (k, v) # (k', v') # m
      else (k', v') # bt_insert k v m)"

lemma map_of_bt_insert [simp, map_laws]: "map_of (bt_insert k v m) = (map_of m)(k \<mapsto> v)"
  by (induction k v m rule: bt_insert.induct) (auto simp: fun_eq_iff)

lemma keys_bt_insert: "fst ` set (bt_insert k v m) = insert k (fst ` set m)"
  by (induction k v m rule: bt_insert.induct) auto

definition bt_sorted :: "('k::linorder \<times> 'v) list \<Rightarrow> bool" where
  "bt_sorted m \<longleftrightarrow> sorted (map fst m) \<and> distinct (map fst m)"

lemma bt_sorted_Nil [simp]: "bt_sorted []"
  by (simp add: bt_sorted_def)

lemma bt_sorted_Cons: "bt_sorted ((k, v) # m) \<longleftrightarrow> bt_sorted m \<and> (\<forall>k' \<in> fst ` set m. k < k')"
  by (auto simp: bt_sorted_def less_le)

lemma bt_sorted_insert: "bt_sorted m \<Longrightarrow> bt_sorted (bt_insert k v m)"
  by (induction k v m rule: bt_insert.induct) (auto simp: bt_sorted_Cons keys_bt_insert)

lemma map_of_update [simp, map_laws]: "map_of (AList.update k v m) = (map_of m)(k \<mapsto> v)"
  by (rule ext) (simp add: AList.update_conv')

lemma distinct_keys_update: "distinct (map fst m) \<Longrightarrow> distinct (map fst (AList.update k v m))"
  by (rule AList.distinct_update)

lemma keys_update: "fst ` set (AList.update k v m) = insert k (fst ` set m)"
  by (simp add: dom_map_of_conv_image_fst [symmetric])

text \<open>\<open>entry(k).or_insert(v)\<close> on a map the code only looks up: the first value stays.\<close>

definition or_insert :: "('k \<rightharpoonup> 'v) \<Rightarrow> 'k \<Rightarrow> 'v \<Rightarrow> ('k \<rightharpoonup> 'v)" where
  "or_insert m k v = (case m k of None \<Rightarrow> m(k \<mapsto> v) | Some _ \<Rightarrow> m)"

lemma or_insert_kept: "m k' = Some v' \<Longrightarrow> or_insert m k v k' = Some v'"
  by (auto simp: or_insert_def split: option.splits)

lemma or_insert_cases:
  "or_insert m k v k' = Some v' \<Longrightarrow> m k' = Some v' \<or> (k' = k \<and> v' = v)"
  by (auto simp: or_insert_def split: option.splits if_splits)

subsection \<open>Little-endian bytes\<close>

text \<open>\<open>to_le_bytes\<close> of a \<open>w\<close>-byte integer and \<open>from_le_bytes\<close>.\<close>

fun le_bytes :: "nat \<Rightarrow> nat \<Rightarrow> bytes" where
  "le_bytes 0 x = []"
| "le_bytes (Suc w) x = of_nat (x mod 256) # le_bytes w (x div 256)"

fun le_nat :: "bytes \<Rightarrow> nat" where
  "le_nat [] = 0"
| "le_nat (b # bs) = unat b + 256 * le_nat bs"

lemma length_le_bytes [simp]: "length (le_bytes w x) = w"
  by (induction w arbitrary: x) auto

lemma le_bytes_numeral: "le_bytes (numeral k) x = of_nat (x mod 256) # le_bytes (pred_numeral k) (x div 256)"
  by (simp only: numeral_eq_Suc [of k] le_bytes.simps)

lemma unat_byte_less: "unat (b :: u8) < 256"
  using unsigned_less [of b] by simp

lemma unat_byte_of_nat: "unat (of_nat (x mod 256) :: u8) = x mod 256"
  by (simp add: unat_of_nat)

lemma le_nat_bytes: "le_nat (le_bytes w x) = x mod 256 ^ w"
proof (induction w arbitrary: x)
  case 0
  then show ?case by simp
next
  case (Suc w)
  then show ?case by (simp add: unat_byte_of_nat mod_mult2_eq)
qed

lemma le_nat_bytes_small [simp]: "x < 256 ^ w \<Longrightarrow> le_nat (le_bytes w x) = x"
  by (simp add: le_nat_bytes)

lemma le_bytes_inj: "le_bytes w x = le_bytes w y \<Longrightarrow> x mod 256 ^ w = y mod 256 ^ w"
  by (metis le_nat_bytes)

lemma le_nat_less: "le_nat bs < 256 ^ length bs"
proof (induction bs)
  case Nil
  then show ?case by simp
next
  case (Cons b bs)
  have "unat b < 256" by (rule unat_byte_less)
  with Cons show ?case by simp
qed

lemma le_bytes_nat: "le_bytes (length bs) (le_nat bs) = bs"
proof (induction bs)
  case Nil
  then show ?case by simp
next
  case (Cons b bs)
  have "unat b < 256" by (rule unat_byte_less)
  with Cons show ?case by simp
qed

subsection \<open>Quorums\<close>

text \<open>
  Two sets of validators whose sizes add up to more than the committee and the faulty ones
  together share a correct validator.
\<close>

lemma quorums_meet:
  fixes n :: nat
  assumes "A \<subseteq> {..<n}" "C \<subseteq> {..<n}" "n + card B < card A + card C" "finite B"
  shows "\<exists>p \<in> A \<inter> C. p \<notin> B"
proof -
  have fin: "finite A" "finite C"
    using assms finite_subset by blast+
  have "card (A \<union> C) \<le> n"
    using card_mono [of "{..<n}" "A \<union> C"] assms by simp
  with card_Un_Int [OF fin] assms have "card B < card (A \<inter> C)" by linarith
  then have "\<not> A \<inter> C \<subseteq> B"
    using card_mono [OF \<open>finite B\<close>, of "A \<inter> C"] by (meson leD)
  then show ?thesis by blast
qed

subsection \<open>Turns taken modulo a total\<close>

lemma mod_add_inj:
  fixes h k n k' :: nat
  assumes "(h + k) mod n = (h + k') mod n" "k < n" "k' < n"
  shows "k = k'"
proof -
  have eq: "a = b" if "(h + a) mod n = (h + b) mod n" "a \<le> b" "b < n" for a b
  proof -
    have "n dvd (h + b) - (h + a)" using that mod_eq_dvd_iff_nat [of "h + a" "h + b" n] by simp
    then show ?thesis using that by (simp add: nat_dvd_not_less) (metis nat_dvd_not_less diff_less_mono2 le_neq_implies_less less_imp_diff_less zero_less_diff)
  qed
  show ?thesis using eq [of k k'] eq [of k' k] assms by (cases "k \<le> k'") simp_all
qed

lemma bij_turns:
  fixes h n :: nat
  assumes "0 < n"
  shows "bij_betw (\<lambda>k. (h + k) mod n) {..<n} {..<n}"
proof -
  have inj: "inj_on (\<lambda>k. (h + k) mod n) {..<n}"
    by (intro inj_onI, rule mod_add_inj [of h _ n]) simp_all
  have "(\<lambda>k. (h + k) mod n) ` {..<n} = {..<n}"
    using assms by (intro card_subset_eq) (auto simp: card_image [OF inj])
  with inj show ?thesis by (simp add: bij_betw_def)
qed

lemma card_turns:
  fixes h n :: nat
  assumes "0 < n"
  shows "card {k. k < n \<and> P ((h + k) mod n)} = card {p. p < n \<and> P p}"
proof -
  let ?f = "\<lambda>k. (h + k) mod n" and ?A = "{k. k < n \<and> P ((h + k) mod n)}"
  have b: "inj_on ?f {..<n}" "?f ` {..<n} = {..<n}" using bij_turns [OF assms, of h] by (simp_all add: bij_betw_def)
  have "?f ` ?A = {p. p < n \<and> P p}"
  proof
    show "?f ` ?A \<subseteq> {p. p < n \<and> P p}" using assms by auto
    show "{p. p < n \<and> P p} \<subseteq> ?f ` ?A"
    proof
      fix p assume p: "p \<in> {p. p < n \<and> P p}"
      then have "p \<in> ?f ` {..<n}" unfolding b(2) by simp
      then obtain k where "k < n" "p = ?f k" by auto
      with p show "p \<in> ?f ` ?A" by auto
    qed
  qed
  moreover have "inj_on ?f ?A" by (rule inj_on_subset [OF b(1)]) auto
  ultimately show ?thesis using card_image [of ?f ?A] by simp
qed

end
