(* ===== verification/Tendermint.thy ===== *)
theory Tendermint
  imports Ego_Prelude
begin

section \<open>The Tendermint state machine\<close>

text \<open>
  The deterministic consensus state machine of
  \<^verbatim>\<open>crates/ego-consensus-core/src/tendermint.rs\<close>: one instance decides one height. It
  holds the votes of the committee in two books, casts at most one prevote and one precommit
  per round, locks on the value it precommits and decides a value once a quorum of precommits
  for it is in the book. Every entry point runs \<open>progress\<close>, the loop that fires the rules of
  the protocol until none applies.

  This theory holds the model, the quorum arithmetic and the facts about single operations;
  \<^verbatim>\<open>Tendermint_Node\<close> proves the invariants of one node and \<^verbatim>\<open>Tendermint_Network\<close>
  the agreement of a committee with faulty members.
\<close>

subsection \<open>Data\<close>

text \<open>A \<open>ValueId\<close> is 32 bytes, only ever compared: a 256-bit word.\<close>

type_synonym value_id = "256 word"

datatype step = Step_Propose | Step_Prevote | Step_Precommit

datatype vote_kind = Kind_Prevote | Kind_Precommit

datatype timer = Timer_Propose | Timer_Prevote | Timer_Precommit

datatype action =
    Act_Propose u32 "u32 option" "value_id option"
  | Act_Vote vote_kind u32 "value_id option"
  | Act_Decide u32 value_id

definition ROUND_WINDOW :: u32 where "ROUND_WINDOW = 64"

definition VALUES_PER_VOTER :: nat where "VALUES_PER_VOTER = 4"

record timeouts =
  first_propose_ms :: u64
  propose_ms :: u64
  prevote_ms :: u64
  precommit_ms :: u64
  per_round_ms :: u64
  cap_ms :: u64

definition default_timeouts :: timeouts where
  "default_timeouts = \<lparr>first_propose_ms = 15000, propose_ms = 6000, prevote_ms = 3000,
     precommit_ms = 3000, per_round_ms = 1000, cap_ms = 60000\<rparr>"

definition timeout_base :: "timeouts \<Rightarrow> timer \<Rightarrow> u32 \<Rightarrow> u64" where
  "timeout_base t tm r =
     (case tm of
        Timer_Propose \<Rightarrow> if r = 0 then first_propose_ms t else propose_ms t
      | Timer_Prevote \<Rightarrow> prevote_ms t
      | Timer_Precommit \<Rightarrow> precommit_ms t)"

definition timeout_of :: "timeouts \<Rightarrow> timer \<Rightarrow> u32 \<Rightarrow> u64" where
  "timeout_of t tm r =
     (let base = timeout_base t tm r in
      min (sat_add base (sat_mul (per_round_ms t) (ucast r))) (max (cap_ms t) base))"

record saved_state =
  sv_height :: u64
  sv_round :: u32
  sv_step :: step
  sv_locked :: "(u32 \<times> value_id) option"
  sv_valid :: "(u32 \<times> value_id) option"
  sv_sent :: "(u32 \<times> vote_kind \<times> value_id option) list"

definition quorum :: "nat \<Rightarrow> nat" where
  "quorum n = 2 * n div 3 + 1"

definition skip_threshold :: "nat \<Rightarrow> nat" where
  "skip_threshold n = (n - quorum n) + 1"

text \<open>
  \<open>Book\<close>: round, then voter, then the values that voter signed in the round, at most
  \<open>VALUES_PER_VOTER\<close> of them, each once.
\<close>

type_synonym ballots = "(nat \<times> value_id option list) list"
type_synonym book = "(u32 \<times> ballots) list"

definition ballots_at :: "book \<Rightarrow> u32 \<Rightarrow> ballots" where
  "ballots_at b r = (case map_of b r of None \<Rightarrow> [] | Some m \<Rightarrow> m)"

definition record_vote :: "book \<Rightarrow> u32 \<Rightarrow> nat \<Rightarrow> value_id option \<Rightarrow> book" where
  "record_vote b r from v =
     (let m = ballots_at b r;
          l = (case map_of m from of None \<Rightarrow> [] | Some l \<Rightarrow> l);
          l' = (if v \<notin> set l \<and> length l < VALUES_PER_VOTER then l @ [v] else l)
      in bt_insert r (AList.update from l' m) b)"

record tendermint =
  tm_height :: u64
  tm_n :: nat
  tm_me :: "nat option"
  tm_timeouts :: timeouts
  tm_round :: u32
  tm_step :: step
  tm_locked :: "(u32 \<times> value_id) option"
  tm_valid :: "(u32 \<times> value_id) option"
  tm_proposals :: "u32 \<rightharpoonup> (value_id \<times> u32 option)"
  tm_validity :: "value_id \<rightharpoonup> bool"
  tm_prevotes :: book
  tm_precommits :: book
  tm_highest :: "(nat \<times> u32) list"
  tm_sent :: "((u32 \<times> vote_kind) \<times> value_id option) list"
  tm_timers :: "(timer \<times> u32 \<times> u64) list"
  tm_armed :: "(timer \<times> u32) set"
  tm_polka_done :: "u32 set"
  tm_decision :: "(u32 \<times> value_id) option"
  tm_started :: bool
  tm_resumed :: bool
  tm_carried :: "value_id option"

definition tm_new :: "u64 \<Rightarrow> nat \<Rightarrow> nat option \<Rightarrow> timeouts \<Rightarrow> tendermint" where
  "tm_new height n me to = \<lparr>
     tm_height = height, tm_n = n,
     tm_me = (case me of None \<Rightarrow> None | Some i \<Rightarrow> if i < n then Some i else None),
     tm_timeouts = to, tm_round = 0, tm_step = Step_Propose, tm_locked = None, tm_valid = None,
     tm_proposals = Map.empty, tm_validity = Map.empty, tm_prevotes = [], tm_precommits = [],
     tm_highest = [], tm_sent = [], tm_timers = [], tm_armed = {}, tm_polka_done = {},
     tm_decision = None, tm_started = False, tm_resumed = False, tm_carried = None\<rparr>"

subsection \<open>Books and counts\<close>

definition tm_book :: "tendermint \<Rightarrow> vote_kind \<Rightarrow> book" where
  "tm_book s k = (case k of Kind_Prevote \<Rightarrow> tm_prevotes s | Kind_Precommit \<Rightarrow> tm_precommits s)"

text \<open>\<open>record(self.book_mut(kind), ...)\<close>.\<close>

definition record_in :: "tendermint \<Rightarrow> vote_kind \<Rightarrow> u32 \<Rightarrow> nat \<Rightarrow> value_id option \<Rightarrow> tendermint" where
  "record_in s k r from v =
     (case k of
        Kind_Prevote \<Rightarrow> s\<lparr>tm_prevotes := record_vote (tm_prevotes s) r from v\<rparr>
      | Kind_Precommit \<Rightarrow> s\<lparr>tm_precommits := record_vote (tm_precommits s) r from v\<rparr>)"

definition tm_quorum :: "tendermint \<Rightarrow> nat" where
  "tm_quorum s = quorum (tm_n s)"

definition tm_proposer :: "tendermint \<Rightarrow> u32 \<Rightarrow> nat" where
  "tm_proposer s r =
     (if tm_n s = 0 then 0
      else unat ((tm_height s + ucast r) mod (of_nat (tm_n s) :: u64)))"

definition tm_count :: "tendermint \<Rightarrow> vote_kind \<Rightarrow> u32 \<Rightarrow> value_id option \<Rightarrow> nat" where
  "tm_count s k r v = length (filter (\<lambda>(_, l). v \<in> set l) (ballots_at (tm_book s k) r))"

definition tm_count_any :: "tendermint \<Rightarrow> vote_kind \<Rightarrow> u32 \<Rightarrow> nat" where
  "tm_count_any s k r = length (ballots_at (tm_book s k) r)"

definition voters_for :: "tendermint \<Rightarrow> vote_kind \<Rightarrow> u32 \<Rightarrow> value_id option \<Rightarrow> nat list" where
  "voters_for s k r v = sort (map fst (filter (\<lambda>(_, l). v \<in> set l) (ballots_at (tm_book s k) r)))"

text \<open>
  The tally of \<open>value_with_quorum\<close> is a fresh \<open>HashMap\<close>, and its \<open>find\<close> takes the first entry
  in the map's iteration order, which Rust leaves unspecified and seeds afresh for each map.
  The order is a parameter: it may depend on the state, the kind and the round, which are
  never the same twice within one call of \<open>progress\<close>. All that is known of it is that it
  lists the entries of the map.
\<close>

type_synonym tally = "(value_id \<times> nat) list"
type_synonym hash_order = "tendermint \<Rightarrow> vote_kind \<Rightarrow> u32 \<Rightarrow> tally \<Rightarrow> tally"

definition lists_entries :: "hash_order \<Rightarrow> bool" where
  "lists_entries ho \<longleftrightarrow> (\<forall>s k r t. set (ho s k r t) = set t)"

definition tally_add :: "value_id \<Rightarrow> tally \<Rightarrow> tally" where
  "tally_add v t = AList.update v (case map_of t v of None \<Rightarrow> 1 | Some c \<Rightarrow> Suc c) t"

fun tally_list :: "value_id option list \<Rightarrow> tally \<Rightarrow> tally" where
  "tally_list [] t = t"
| "tally_list (None # l) t = tally_list l t"
| "tally_list (Some v # l) t = tally_list l (tally_add v t)"

fun tally_ballots :: "ballots \<Rightarrow> tally \<Rightarrow> tally" where
  "tally_ballots [] t = t"
| "tally_ballots ((_, l) # m) t = tally_ballots m (tally_list l t)"

definition value_with_quorum :: "hash_order \<Rightarrow> tendermint \<Rightarrow> vote_kind \<Rightarrow> u32 \<Rightarrow> value_id option" where
  "value_with_quorum ho s k r =
     (case map_of (tm_book s k) r of
        None \<Rightarrow> None
      | Some m \<Rightarrow>
          map_option fst (find (\<lambda>(_, c). tm_quorum s \<le> c) (ho s k r (tally_ballots m []))))"

text \<open>\<open>self.validity.get(&v) == Some(&true) && self.carried.map_or(true, |c| c == v)\<close>.\<close>

definition acceptable :: "tendermint \<Rightarrow> value_id \<Rightarrow> bool" where
  "acceptable s v \<longleftrightarrow> tm_validity s v = Some True \<and>
     (case tm_carried s of None \<Rightarrow> True | Some c \<Rightarrow> c = v)"

fun find_decision_in :: "hash_order \<Rightarrow> tendermint \<Rightarrow> u32 list \<Rightarrow> (u32 \<times> value_id) option" where
  "find_decision_in ho s [] = None"
| "find_decision_in ho s (r # rs) =
     (case value_with_quorum ho s Kind_Precommit r of
        None \<Rightarrow> find_decision_in ho s rs
      | Some v \<Rightarrow> if acceptable s v then Some (r, v) else find_decision_in ho s rs)"

definition find_decision :: "hash_order \<Rightarrow> tendermint \<Rightarrow> (u32 \<times> value_id) option" where
  "find_decision ho s = find_decision_in ho s (map fst (tm_precommits s))"

definition skip_target :: "tendermint \<Rightarrow> u32 option" where
  "skip_target s =
     (let rounds = rev (sort (map snd (filter (\<lambda>(who, _). Some who \<noteq> tm_me s) (tm_highest s))));
          i = skip_threshold (tm_n s) - 1
      in if i < length rounds
         then (if tm_round s < rounds ! i then Some (rounds ! i) else None)
         else None)"

definition note_round :: "tendermint \<Rightarrow> nat \<Rightarrow> u32 \<Rightarrow> tendermint" where
  "note_round s from r =
     (case map_of (tm_highest s) from of
        None \<Rightarrow> s\<lparr>tm_highest := AList.update from r (tm_highest s)\<rparr>
      | Some e \<Rightarrow> if e < r then s\<lparr>tm_highest := AList.update from r (tm_highest s)\<rparr> else s)"

subsection \<open>Timers, votes and rounds\<close>

definition arm :: "tendermint \<Rightarrow> timer \<Rightarrow> u32 \<Rightarrow> u64 \<Rightarrow> tendermint" where
  "arm s tm r now =
     (if (tm, r) \<in> tm_armed s then s
      else s\<lparr>tm_armed := insert (tm, r) (tm_armed s),
             tm_timers := tm_timers s @ [(tm, r, sat_add now (timeout_of (tm_timeouts s) tm r))]\<rparr>)"

definition has_sent :: "tendermint \<Rightarrow> u32 \<Rightarrow> vote_kind \<Rightarrow> bool" where
  "has_sent s r k \<longleftrightarrow> map_of (tm_sent s) (r, k) \<noteq> None"

text \<open>The functions with an \<open>out\<close> argument return the state and the extended \<open>out\<close>.\<close>

definition start_round :: "u64 \<Rightarrow> u32 \<Rightarrow> tendermint \<Rightarrow> action list \<Rightarrow> tendermint \<times> action list" where
  "start_round now r s out =
     (let s1 = s\<lparr>tm_round := r, tm_step := Step_Propose\<rparr>;
          out1 = (if Some (tm_proposer s1 r) = tm_me s1 \<and> \<not> has_sent s1 r Kind_Prevote
                  then out @ [Act_Propose r (map_option fst (tm_valid s1))
                         (case tm_valid s1 of Some (_, v) \<Rightarrow> Some v | None \<Rightarrow> tm_carried s1)]
                  else out)
      in (arm s1 Timer_Propose r now, out1))"

definition cast :: "vote_kind \<Rightarrow> value_id option \<Rightarrow> tendermint \<Rightarrow> action list \<Rightarrow> tendermint \<times> action list" where
  "cast k v s out =
     (case tm_me s of
        None \<Rightarrow> (s, out)
      | Some me \<Rightarrow>
          if has_sent s (tm_round s) k then (s, out)
          else (record_in (s\<lparr>tm_sent := AList.update (tm_round s, k) v (tm_sent s)\<rparr>)
                   k (tm_round s) me v,
                out @ [Act_Vote k (tm_round s) v]))"

subsection \<open>The progress loop\<close>

text \<open>One pass through the body of the loop ends in \<open>return\<close> or in \<open>continue\<close>.\<close>

datatype 'a flow = Return 'a | Continue 'a

definition settle :: "hash_order \<Rightarrow> tendermint \<Rightarrow> action list \<Rightarrow> tendermint \<times> action list" where
  "settle ho s out =
     (if tm_decision s = None then
        (case find_decision ho s of
           None \<Rightarrow> (s, out)
         | Some d \<Rightarrow> (s\<lparr>tm_decision := Some d, tm_timers := []\<rparr>, out @ [Act_Decide (fst d) (snd d)]))
      else (s, out))"

text \<open>
  The verdict on the proposal of the round: \<open>None\<close> while the value or the proof of lock it
  refers to is not there yet, otherwise the value and whether it may be prevoted.
\<close>

definition verdict :: "tendermint \<Rightarrow> (value_id \<times> bool) option" where
  "verdict s =
     (case tm_proposals s (tm_round s) of
        None \<Rightarrow> None
      | Some (v, pol) \<Rightarrow>
          (case tm_validity s v of
             None \<Rightarrow> None
           | Some ok0 \<Rightarrow>
               (let ok = (ok0 \<and> (case tm_carried s of None \<Rightarrow> True | Some c \<Rightarrow> c = v)) in
                case pol of
                  None \<Rightarrow> Some (v, ok \<and> (case tm_locked s of None \<Rightarrow> True | Some (_, lv) \<Rightarrow> lv = v))
                | Some vr \<Rightarrow>
                    if tm_quorum s \<le> tm_count s Kind_Prevote vr (Some v)
                    then Some (v, ok \<and> (case tm_locked s of None \<Rightarrow> True
                                          | Some (lr, lv) \<Rightarrow> lr \<le> vr \<or> lv = v))
                    else None)))"

text \<open>The polka rule: a quorum of prevotes for an acceptable value of the current round.\<close>

definition polka :: "hash_order \<Rightarrow> tendermint \<Rightarrow> value_id option" where
  "polka ho s =
     (if tm_step s \<noteq> Step_Propose \<and> tm_round s \<notin> tm_polka_done s then
        (case value_with_quorum ho s Kind_Prevote (tm_round s) of
           None \<Rightarrow> None
         | Some v \<Rightarrow> if acceptable s v then Some v else None)
      else None)"

definition on_polka :: "value_id \<Rightarrow> tendermint \<Rightarrow> action list \<Rightarrow> tendermint \<times> action list" where
  "on_polka v s out =
     (let r = tm_round s;
          s1 = s\<lparr>tm_polka_done := insert r (tm_polka_done s)\<rparr>;
          (s2, out2) = (if tm_step s1 = Step_Prevote
                        then (let (s', out') = cast Kind_Precommit (Some v) (s1\<lparr>tm_locked := Some (r, v)\<rparr>) out
                              in (s'\<lparr>tm_step := Step_Precommit\<rparr>, out'))
                        else (s1, out))
      in (s2\<lparr>tm_valid := Some (r, v)\<rparr>, out2))"

definition progress_rest :: "hash_order \<Rightarrow> u64 \<Rightarrow> tendermint \<Rightarrow> action list \<Rightarrow> (tendermint \<times> action list) flow" where
  "progress_rest ho now s0 out =
     (let q = tm_quorum s0; r = tm_round s0;
          s = (if tm_step s0 = Step_Prevote \<and> q \<le> tm_count_any s0 Kind_Prevote r
               then arm s0 Timer_Prevote r now else s0)
      in case polka ho s of
           Some v \<Rightarrow> Continue (on_polka v s out)
         | None \<Rightarrow>
             if tm_step s = Step_Prevote \<and> q \<le> tm_count s Kind_Prevote r None
             then (let (s', out') = cast Kind_Precommit None s out
                   in Continue (s'\<lparr>tm_step := Step_Precommit\<rparr>, out'))
             else Return (if q \<le> tm_count_any s Kind_Precommit r
                          then arm s Timer_Precommit r now else s, out))"

text \<open>\<open>self.decision.is_some() || self.me.is_none() || !self.started || self.n == 0\<close>.\<close>

definition at_rest :: "tendermint \<Rightarrow> bool" where
  "at_rest s \<longleftrightarrow> tm_decision s \<noteq> None \<or> tm_me s = None \<or> \<not> tm_started s \<or> tm_n s = 0"

definition progress_body :: "hash_order \<Rightarrow> u64 \<Rightarrow> tendermint \<Rightarrow> action list \<Rightarrow> (tendermint \<times> action list) flow" where
  "progress_body ho now s0 out0 =
     (let (s, out) = settle ho s0 out0 in
      if at_rest s then Return (s, out)
      else case skip_target s of
        Some r \<Rightarrow> Continue (start_round now r s out)
      | None \<Rightarrow>
          (case (if tm_step s = Step_Propose then verdict s else None) of
             Some (v, accept) \<Rightarrow>
               (let (s', out') = cast Kind_Prevote (if accept then Some v else None) s out
                in Continue (s'\<lparr>tm_step := Step_Prevote\<rparr>, out'))
           | None \<Rightarrow> progress_rest ho now s out))"


subsection \<open>Frame facts\<close>

text \<open>Which fields each helper leaves alone.\<close>

lemma record_in_frame [simp]:
  "tm_height (record_in s k r f v) = tm_height s"
  "tm_n (record_in s k r f v) = tm_n s"
  "tm_me (record_in s k r f v) = tm_me s"
  "tm_timeouts (record_in s k r f v) = tm_timeouts s"
  "tm_round (record_in s k r f v) = tm_round s"
  "tm_step (record_in s k r f v) = tm_step s"
  "tm_locked (record_in s k r f v) = tm_locked s"
  "tm_valid (record_in s k r f v) = tm_valid s"
  "tm_proposals (record_in s k r f v) = tm_proposals s"
  "tm_validity (record_in s k r f v) = tm_validity s"
  "tm_highest (record_in s k r f v) = tm_highest s"
  "tm_sent (record_in s k r f v) = tm_sent s"
  "tm_timers (record_in s k r f v) = tm_timers s"
  "tm_armed (record_in s k r f v) = tm_armed s"
  "tm_polka_done (record_in s k r f v) = tm_polka_done s"
  "tm_decision (record_in s k r f v) = tm_decision s"
  "tm_started (record_in s k r f v) = tm_started s"
  "tm_resumed (record_in s k r f v) = tm_resumed s"
  "tm_carried (record_in s k r f v) = tm_carried s"
  by (simp_all add: record_in_def split: vote_kind.splits)

lemma tm_book_record_in [simp]:
  "tm_book (record_in s k r f v) k' =
     (if k' = k then record_vote (tm_book s k) r f v else tm_book s k')"
  by (cases k; cases k') (simp_all add: record_in_def tm_book_def)

lemma arm_frame [simp]:
  "tm_height (arm s t r now) = tm_height s"
  "tm_n (arm s t r now) = tm_n s"
  "tm_me (arm s t r now) = tm_me s"
  "tm_timeouts (arm s t r now) = tm_timeouts s"
  "tm_round (arm s t r now) = tm_round s"
  "tm_step (arm s t r now) = tm_step s"
  "tm_locked (arm s t r now) = tm_locked s"
  "tm_valid (arm s t r now) = tm_valid s"
  "tm_proposals (arm s t r now) = tm_proposals s"
  "tm_validity (arm s t r now) = tm_validity s"
  "tm_prevotes (arm s t r now) = tm_prevotes s"
  "tm_precommits (arm s t r now) = tm_precommits s"
  "tm_highest (arm s t r now) = tm_highest s"
  "tm_sent (arm s t r now) = tm_sent s"
  "tm_polka_done (arm s t r now) = tm_polka_done s"
  "tm_decision (arm s t r now) = tm_decision s"
  "tm_started (arm s t r now) = tm_started s"
  "tm_resumed (arm s t r now) = tm_resumed s"
  "tm_carried (arm s t r now) = tm_carried s"
  by (simp_all add: arm_def)

lemma arm_reads [simp]:
  "tm_book (arm s t r now) k = tm_book s k"
  "tm_quorum (arm s t r now) = tm_quorum s"
  "tm_count (arm s t r now) k r' v = tm_count s k r' v"
  "tm_count_any (arm s t r now) k r' = tm_count_any s k r'"
  "has_sent (arm s t r now) r' k = has_sent s r' k"
  "acceptable (arm s t r now) w = acceptable s w"
  by (simp_all add: tm_book_def tm_quorum_def tm_count_def tm_count_any_def has_sent_def
      acceptable_def split: vote_kind.splits)

lemma cast_frame [simp]:
  "tm_height (fst (cast k v s out)) = tm_height s"
  "tm_n (fst (cast k v s out)) = tm_n s"
  "tm_me (fst (cast k v s out)) = tm_me s"
  "tm_round (fst (cast k v s out)) = tm_round s"
  "tm_step (fst (cast k v s out)) = tm_step s"
  "tm_locked (fst (cast k v s out)) = tm_locked s"
  "tm_valid (fst (cast k v s out)) = tm_valid s"
  "tm_proposals (fst (cast k v s out)) = tm_proposals s"
  "tm_validity (fst (cast k v s out)) = tm_validity s"
  "tm_highest (fst (cast k v s out)) = tm_highest s"
  "tm_timers (fst (cast k v s out)) = tm_timers s"
  "tm_armed (fst (cast k v s out)) = tm_armed s"
  "tm_polka_done (fst (cast k v s out)) = tm_polka_done s"
  "tm_decision (fst (cast k v s out)) = tm_decision s"
  "tm_started (fst (cast k v s out)) = tm_started s"
  "tm_carried (fst (cast k v s out)) = tm_carried s"
  by (simp_all add: cast_def split: option.splits)

lemma settle_frame [simp]:
  "tm_height (fst (settle ho s out)) = tm_height s"
  "tm_n (fst (settle ho s out)) = tm_n s"
  "tm_me (fst (settle ho s out)) = tm_me s"
  "tm_round (fst (settle ho s out)) = tm_round s"
  "tm_step (fst (settle ho s out)) = tm_step s"
  "tm_locked (fst (settle ho s out)) = tm_locked s"
  "tm_valid (fst (settle ho s out)) = tm_valid s"
  "tm_proposals (fst (settle ho s out)) = tm_proposals s"
  "tm_validity (fst (settle ho s out)) = tm_validity s"
  "tm_prevotes (fst (settle ho s out)) = tm_prevotes s"
  "tm_precommits (fst (settle ho s out)) = tm_precommits s"
  "tm_highest (fst (settle ho s out)) = tm_highest s"
  "tm_sent (fst (settle ho s out)) = tm_sent s"
  "tm_armed (fst (settle ho s out)) = tm_armed s"
  "tm_polka_done (fst (settle ho s out)) = tm_polka_done s"
  "tm_started (fst (settle ho s out)) = tm_started s"
  "tm_carried (fst (settle ho s out)) = tm_carried s"
  by (simp_all add: settle_def split: option.splits)

lemma skip_target_above: "skip_target s = Some r \<Longrightarrow> tm_round s < r"
  by (auto simp: skip_target_def Let_def split: if_splits)

subsection \<open>The loop ends\<close>

text \<open>
  Every \<open>continue\<close> raises the round, or keeps it and moves the step forward, or keeps both
  and marks the round's polka as seen. Rounds are 32-bit, so the loop ends.
\<close>

fun steps_left :: "step \<Rightarrow> nat" where
  "steps_left Step_Propose = 2"
| "steps_left Step_Prevote = 1"
| "steps_left Step_Precommit = 0"

definition polka_left :: "tendermint \<Rightarrow> nat" where
  "polka_left s = (if tm_round s \<in> tm_polka_done s then 0 else 1)"

definition rounds_left :: "tendermint \<Rightarrow> nat" where
  "rounds_left s = 2 ^ 32 - unat (tm_round s)"

definition closer :: "tendermint \<Rightarrow> tendermint \<Rightarrow> bool" where
  "closer s' s \<longleftrightarrow>
     rounds_left s' < rounds_left s \<or>
     (rounds_left s' = rounds_left s \<and>
       (steps_left (tm_step s') < steps_left (tm_step s) \<or>
        (tm_step s' = tm_step s \<and> polka_left s' < polka_left s)))"

lemma start_round_closer:
  assumes "tm_round s < r"
  shows "closer (fst (start_round now r s out)) s"
proof -
  have "unat (tm_round s) < unat r" "unat r < 2 ^ 32"
    using assms unsigned_less [of r] by (simp_all add: word_less_nat_alt)
  then have "2 ^ 32 - unat r < 2 ^ 32 - unat (tm_round s)"
    by (intro diff_less_mono2) simp_all
  then show ?thesis
    by (simp add: closer_def rounds_left_def start_round_def Let_def)
qed

lemma on_polka_closer:
  assumes "polka ho s = Some v"
  shows "closer (fst (on_polka v s out)) s"
  using assms
  by (cases "tm_step s")
    (auto simp: closer_def rounds_left_def polka_left_def on_polka_def polka_def Let_def
      case_prod_beta split: if_splits)

lemma closer_arm [simp]: "closer t (arm s a b c) = closer t s"
  by (simp add: closer_def rounds_left_def polka_left_def)

lemma progress_rest_closer:
  assumes cont: "progress_rest ho now s out = Continue (s', out')"
  shows "closer s' s"
proof -
  define t where "t = (if tm_step s = Step_Prevote \<and> tm_quorum s \<le> tm_count_any s Kind_Prevote (tm_round s)
    then arm s Timer_Prevote (tm_round s) now else s)"
  have same: "closer u t = closer u s" for u
    by (simp add: t_def)
  show ?thesis
  proof (cases "polka ho t")
    case None
    with cont have "tm_step t = Step_Prevote" "s' = (fst (cast Kind_Precommit None t out))\<lparr>tm_step := Step_Precommit\<rparr>"
      by (auto simp: progress_rest_def Let_def t_def [symmetric] case_prod_beta split: if_splits)
    then have "closer s' t" by (simp add: closer_def rounds_left_def)
    then show ?thesis by (simp add: same)
  next
    case (Some v)
    with cont have "on_polka v t out = (s', out')"
      by (simp add: progress_rest_def Let_def t_def [symmetric])
    with on_polka_closer [OF Some, of out] show ?thesis by (simp add: same)
  qed
qed

lemma progress_body_closer:
  assumes cont: "progress_body ho now s out = Continue (s', out')"
  shows "closer s' s"
proof -
  define t where "t = fst (settle ho s out)"
  define o1 where "o1 = snd (settle ho s out)"
  have st: "settle ho s out = (t, o1)" by (simp add: t_def o1_def)
  have same: "closer u t = closer u s" for u
    by (simp add: t_def closer_def rounds_left_def polka_left_def)
  have go: "\<not> at_rest t"
    using cont by (auto simp: progress_body_def st)
  show ?thesis
  proof (cases "skip_target t")
    case (Some r)
    with cont go have "start_round now r t o1 = (s', out')"
      by (simp add: progress_body_def st)
    with start_round_closer [OF skip_target_above [OF Some], of now o1] show ?thesis by (simp add: same)
  next
    case None
    note skip = this
    show ?thesis
    proof (cases "if tm_step t = Step_Propose then verdict t else None")
      case None
      with cont go skip have "progress_rest ho now t o1 = Continue (s', out')"
        by (simp add: progress_body_def st)
      from progress_rest_closer [OF this] show ?thesis by (simp add: same)
    next
      case (Some va)
      with cont go skip have "tm_step t = Step_Propose" "tm_step s' = Step_Prevote" "tm_round s' = tm_round t"
        by (auto simp: progress_body_def st case_prod_beta Let_def split: if_splits)
      then have "closer s' t" by (simp add: closer_def rounds_left_def)
      then show ?thesis by (simp add: same)
    qed
  qed
qed

function progress :: "hash_order \<Rightarrow> u64 \<Rightarrow> tendermint \<Rightarrow> action list \<Rightarrow> tendermint \<times> action list" where
  "progress ho now s out =
     (case progress_body ho now s out of
        Return res \<Rightarrow> res
      | Continue (s', out') \<Rightarrow> progress ho now s' out')"
  by pat_completeness auto
termination
proof (relation "measures [\<lambda>(_, _, s, _). rounds_left s, \<lambda>(_, _, s, _). steps_left (tm_step s),
    \<lambda>(_, _, s, _). polka_left s]")
  fix ho now s out x2 s' out'
  assume "progress_body ho now s out = Continue x2" "(s', out') = x2"
  then have "closer s' s" using progress_body_closer by metis
  then show "((ho, now, s', out'), (ho, now, s, out)) \<in>
      measures [\<lambda>(_, _, s, _). rounds_left s, \<lambda>(_, _, s, _). steps_left (tm_step s),
        \<lambda>(_, _, s, _). polka_left s]"
    by (auto simp: closer_def)
qed simp

declare progress.simps [simp del]

subsection \<open>Entry points\<close>

definition carry :: "value_id \<Rightarrow> tendermint \<Rightarrow> tendermint" where
  "carry v s = (if \<not> tm_started s then s\<lparr>tm_carried := Some v\<rparr> else s)"

fun restore_sent :: "(u32 \<times> vote_kind \<times> value_id option) list \<Rightarrow> tendermint \<Rightarrow> tendermint" where
  "restore_sent [] s = s"
| "restore_sent ((r, k, v) # l) s =
     (let s1 = s\<lparr>tm_sent := AList.update (r, k) v (tm_sent s)\<rparr>
      in restore_sent l (case tm_me s of None \<Rightarrow> s1 | Some me \<Rightarrow> record_in s1 k r me v))"

definition restore :: "saved_state \<Rightarrow> tendermint \<Rightarrow> tendermint" where
  "restore sv s =
     (if sv_height sv \<noteq> tm_height s \<or> tm_started s then s
      else (restore_sent (sv_sent sv)
              (s\<lparr>tm_round := sv_round sv, tm_step := sv_step sv, tm_locked := sv_locked sv,
                 tm_valid := sv_valid sv\<rparr>))\<lparr>tm_resumed := True\<rparr>)"

text \<open>\<open>VoteKind\<close> derives \<open>Ord\<close> in declaration order.\<close>

definition kind_rank :: "vote_kind \<Rightarrow> nat" where
  "kind_rank k = (case k of Kind_Prevote \<Rightarrow> 0 | Kind_Precommit \<Rightarrow> 1)"

definition sent_key :: "u32 \<times> vote_kind \<times> value_id option \<Rightarrow> nat" where
  "sent_key e = (case e of (r, k, _) \<Rightarrow> 2 * unat r + kind_rank k)"

definition saved :: "tendermint \<Rightarrow> saved_state" where
  "saved s = \<lparr>sv_height = tm_height s, sv_round = tm_round s, sv_step = tm_step s,
     sv_locked = tm_locked s, sv_valid = tm_valid s,
     sv_sent = sort_key sent_key (map (\<lambda>((r, k), v). (r, k, v)) (tm_sent s))\<rparr>"

definition next_deadline :: "tendermint \<Rightarrow> u64 option" where
  "next_deadline s = (case map (\<lambda>(_, _, t). t) (tm_timers s) of
     [] \<Rightarrow> None | t # ts \<Rightarrow> Some (foldl min t ts))"

definition start :: "hash_order \<Rightarrow> u64 \<Rightarrow> tendermint \<Rightarrow> tendermint \<times> action list" where
  "start ho now s =
     (if tm_started s then (s, [])
      else let s1 = s\<lparr>tm_started := True\<rparr>;
               (s2, out) =
                 (if tm_me s1 \<noteq> None \<and> 0 < tm_n s1 then
                    (if \<not> tm_resumed s1 \<or> tm_step s1 = Step_Propose
                     then start_round now (tm_round s1) s1 []
                     else if tm_step s1 = Step_Prevote
                     then (arm s1 Timer_Prevote (tm_round s1) now, [])
                     else (arm s1 Timer_Precommit (tm_round s1) now, []))
                  else (s1, []))
           in progress ho now s2 out)"

definition note_proposal :: "u32 \<Rightarrow> nat \<Rightarrow> value_id \<Rightarrow> u32 option \<Rightarrow> bool \<Rightarrow> tendermint \<Rightarrow> tendermint" where
  "note_proposal r from v pol ok s =
     (if from < tm_n s \<and> from = tm_proposer s r
         \<and> (case pol of None \<Rightarrow> True | Some p \<Rightarrow> p < r)
         \<and> r \<le> sat_add (tm_round s) ROUND_WINDOW
      then note_round (s\<lparr>tm_proposals := or_insert (tm_proposals s) r (v, pol),
                         tm_validity := or_insert (tm_validity s) v ok\<rparr>) from r
      else s)"

definition on_proposal :: "hash_order \<Rightarrow> u64 \<Rightarrow> u32 \<Rightarrow> nat \<Rightarrow> value_id \<Rightarrow> u32 option \<Rightarrow> bool \<Rightarrow>
    tendermint \<Rightarrow> tendermint \<times> action list" where
  "on_proposal ho now r from v pol ok s = progress ho now (note_proposal r from v pol ok s) []"

definition on_value :: "hash_order \<Rightarrow> u64 \<Rightarrow> value_id \<Rightarrow> bool \<Rightarrow> tendermint \<Rightarrow> tendermint \<times> action list" where
  "on_value ho now v ok s = progress ho now (s\<lparr>tm_validity := or_insert (tm_validity s) v ok\<rparr>) []"

definition note_vote :: "vote_kind \<Rightarrow> u32 \<Rightarrow> nat \<Rightarrow> value_id option \<Rightarrow> tendermint \<Rightarrow> tendermint" where
  "note_vote k r from v s =
     (if from < tm_n s \<and> Some from \<noteq> tm_me s
      then (let s1 = note_round s from r
            in if r \<le> sat_add (tm_round s1) ROUND_WINDOW then record_in s1 k r from v else s1)
      else s)"

definition on_vote :: "hash_order \<Rightarrow> u64 \<Rightarrow> vote_kind \<Rightarrow> u32 \<Rightarrow> nat \<Rightarrow> value_id option \<Rightarrow>
    tendermint \<Rightarrow> tendermint \<times> action list" where
  "on_vote ho now k r from v s = progress ho now (note_vote k r from v s) []"

definition fire :: "u64 \<Rightarrow> timer \<Rightarrow> u32 \<Rightarrow> tendermint \<Rightarrow> action list \<Rightarrow> tendermint \<times> action list" where
  "fire now t r s out =
     (case t of
        Timer_Propose \<Rightarrow>
          if tm_round s = r \<and> tm_step s = Step_Propose
          then (let (s', out') = cast Kind_Prevote None s out in (s'\<lparr>tm_step := Step_Prevote\<rparr>, out'))
          else (s, out)
      | Timer_Prevote \<Rightarrow>
          if tm_round s = r \<and> tm_step s = Step_Prevote
          then (let (s', out') = cast Kind_Precommit None s out in (s'\<lparr>tm_step := Step_Precommit\<rparr>, out'))
          else (s, out)
      | Timer_Precommit \<Rightarrow>
          if tm_round s = r then start_round now (sat_add r 1) s out else (s, out))"

fun fire_due :: "hash_order \<Rightarrow> u64 \<Rightarrow> (timer \<times> u32 \<times> u64) list \<Rightarrow> tendermint \<Rightarrow> action list \<Rightarrow>
    tendermint \<times> action list" where
  "fire_due ho now [] s out = (s, out)"
| "fire_due ho now ((t, r, _) # due) s out =
     (if tm_decision s \<noteq> None then (s, out)
      else let (s1, out1) = fire now t r s out; (s2, out2) = progress ho now s1 out1
           in fire_due ho now due s2 out2)"

text \<open>\<open>due.sort_by_key(|t| (t.2, t.1))\<close>, a stable sort on deadline and then round.\<close>

definition due_key :: "timer \<times> u32 \<times> u64 \<Rightarrow> nat" where
  "due_key e = (case e of (_, r, at) \<Rightarrow> unat at * 2 ^ 32 + unat r)"

definition tick :: "hash_order \<Rightarrow> u64 \<Rightarrow> tendermint \<Rightarrow> tendermint \<times> action list" where
  "tick ho now s =
     (let due = sort_key due_key (filter (\<lambda>(_, _, at). at \<le> now) (tm_timers s));
          s1 = s\<lparr>tm_timers := filter (\<lambda>(_, _, at). \<not> at \<le> now) (tm_timers s)\<rparr>;
          (s2, out) = fire_due ho now due s1 []
      in progress ho now s2 out)"

end
