(* ===== verification/Tendermint_Node.thy ===== *)
theory Tendermint_Node
  imports Tendermint
begin

section \<open>Invariants of one Tendermint node\<close>

text \<open>
  The loop and the handlers of \<^verbatim>\<open>tendermint.rs\<close> are broken down into micro steps, one
  per rule of the protocol. The invariants of a node are proved for each micro step once and
  hold for every handler: the books are well formed and only grow, a vote once cast is never
  changed, and the locking discipline, relative to a predicate \<open>pk\<close> that says which values
  had a quorum of prevotes (a polka) in which round.
\<close>

subsection \<open>Books\<close>

definition vote_in :: "book \<Rightarrow> u32 \<Rightarrow> nat \<Rightarrow> value_id option \<Rightarrow> bool" where
  "vote_in b r f v \<longleftrightarrow> (\<exists>l. map_of (ballots_at b r) f = Some l \<and> v \<in> set l)"

definition ballots_ok :: "ballots \<Rightarrow> bool" where
  "ballots_ok m \<longleftrightarrow> distinct (map fst m) \<and>
     (\<forall>(f, l) \<in> set m. distinct l \<and> length l \<le> VALUES_PER_VOTER)"

definition book_ok :: "book \<Rightarrow> bool" where
  "book_ok b \<longleftrightarrow> bt_sorted b \<and> (\<forall>r. ballots_ok (ballots_at b r))"

lemma book_ok_Nil [simp]: "book_ok []"
  by (simp add: book_ok_def ballots_at_def ballots_ok_def)

lemma ballots_ok_update:
  assumes "ballots_ok m" "distinct l" "length l \<le> VALUES_PER_VOTER"
  shows "ballots_ok (AList.update f l m)"
proof -
  have d: "distinct (map fst m)" using assms by (simp add: ballots_ok_def)
  have d': "distinct (map fst (AList.update f l m))" by (rule distinct_keys_update [OF d])
  have "distinct l' \<and> length l' \<le> VALUES_PER_VOTER" if "(g, l') \<in> set (AList.update f l m)" for g l'
  proof -
    from that have "map_of (AList.update f l m) g = Some l'" by (rule map_of_is_SomeI [OF d'])
    then show ?thesis
      using assms by (auto simp: ballots_ok_def split: if_splits dest!: map_of_SomeD)
  qed
  with d' show ?thesis by (auto simp: ballots_ok_def)
qed

lemma ballots_at_record:
  "ballots_at (record_vote b r f v) r' =
     (if r' = r then AList.update f
        (let l = (case map_of (ballots_at b r) f of None \<Rightarrow> [] | Some l \<Rightarrow> l)
         in if v \<notin> set l \<and> length l < VALUES_PER_VOTER then l @ [v] else l) (ballots_at b r)
      else ballots_at b r')"
  by (simp add: record_vote_def ballots_at_def Let_def)

lemma book_ok_record:
  assumes "book_ok b"
  shows "book_ok (record_vote b r f v)"
proof -
  define l where "l = (case map_of (ballots_at b r) f of None \<Rightarrow> [] | Some l \<Rightarrow> l)"
  have "distinct l \<and> length l \<le> VALUES_PER_VOTER"
    using assms by (auto simp: l_def book_ok_def ballots_ok_def VALUES_PER_VOTER_def
        split: option.splits dest!: map_of_SomeD)
  then have "ballots_ok (ballots_at (record_vote b r f v) r')" for r'
    using assms by (auto simp: ballots_at_record Let_def l_def [symmetric] book_ok_def
        intro!: ballots_ok_update)
  then show ?thesis
    using assms by (auto simp: book_ok_def record_vote_def Let_def intro: bt_sorted_insert)
qed

lemma vote_in_record_mono: "vote_in b r f v \<Longrightarrow> vote_in (record_vote b r' f' v') r f v"
  by (auto simp: vote_in_def ballots_at_record Let_def split: option.splits)

lemma vote_in_recordD:
  "vote_in (record_vote b r f v) r' f' v' \<Longrightarrow> vote_in b r' f' v' \<or> (r' = r \<and> f' = f \<and> v' = v)"
  by (auto simp: vote_in_def ballots_at_record Let_def split: option.splits if_splits)

lemma count_voters:
  assumes "book_ok (tm_book s k)"
  shows "tm_count s k r v = card {f. vote_in (tm_book s k) r f v}"
proof -
  let ?m = "ballots_at (tm_book s k) r"
  let ?sel = "filter (\<lambda>(_, l). v \<in> set l) ?m"
  have d: "distinct (map fst ?m)"
    using assms by (simp add: book_ok_def ballots_ok_def)
  then have "distinct (map fst ?sel)" by (simp add: distinct_map_filter)
  then have "tm_count s k r v = card (set (map fst ?sel))"
    by (metis distinct_card length_map tm_count_def)
  also have "set (map fst ?sel) = {f. vote_in (tm_book s k) r f v}"
    using d by (auto simp: vote_in_def image_iff)
  finally show ?thesis .
qed

lemma finite_voters [simp]: "finite {f. vote_in b r f v}"
proof -
  have "{f. vote_in b r f v} \<subseteq> fst ` set (ballots_at b r)"
    by (auto simp: vote_in_def image_iff dest!: map_of_SomeD) force
  then show ?thesis by (rule finite_subset) simp
qed

subsection \<open>The tally\<close>

lemma tally_list_lookup:
  "distinct l \<Longrightarrow> map_of (tally_list l t) v =
     (if Some v \<in> set l then Some (case map_of t v of None \<Rightarrow> 1 | Some c \<Rightarrow> Suc c) else map_of t v)"
  by (induction l t rule: tally_list.induct) (auto simp: tally_add_def split: option.splits)

lemma tally_ballots_lookup:
  assumes "\<forall>(f, l) \<in> set m. distinct l"
  shows "map_of (tally_ballots m t) v =
    (let c = length (filter (\<lambda>(_, l). Some v \<in> set l) m)
     in if c = 0 then map_of t v else Some (c + (case map_of t v of None \<Rightarrow> 0 | Some d \<Rightarrow> d)))"
  using assms
  by (induction m t rule: tally_ballots.induct)
    (auto simp: tally_list_lookup Let_def split: option.splits)

lemma distinct_tally_list: "distinct (map fst t) \<Longrightarrow> distinct (map fst (tally_list l t))"
  by (induction l t rule: tally_list.induct) (auto simp: tally_add_def AList.distinct_update)

lemma distinct_tally_ballots: "distinct (map fst t) \<Longrightarrow> distinct (map fst (tally_ballots m t))"
  by (induction m t rule: tally_ballots.induct) (auto simp: distinct_tally_list)

text \<open>A value that \<open>value_with_quorum\<close> returns has a quorum of votes in the book.\<close>

lemma value_with_quorum_count:
  assumes "lists_entries ho" "book_ok (tm_book s k)" "value_with_quorum ho s k r = Some v"
  shows "tm_quorum s \<le> tm_count s k r (Some v)"
proof -
  from assms(3) obtain m c where m: "map_of (tm_book s k) r = Some m"
    and f: "find (\<lambda>(_, c). tm_quorum s \<le> c) (ho s k r (tally_ballots m [])) = Some (v, c)"
    by (auto simp: value_with_quorum_def split: option.splits)
  have m': "ballots_at (tm_book s k) r = m" using m by (simp add: ballots_at_def)
  from f have "(v, c) \<in> set (tally_ballots m [])" and q: "tm_quorum s \<le> c"
    using assms(1) by (auto simp: find_Some_iff lists_entries_def) (metis nth_mem)
  then have "map_of (tally_ballots m []) v = Some c"
    by (simp add: distinct_tally_ballots)
  moreover have "\<forall>(f, l) \<in> set m. distinct l"
    using assms(2) m' by (auto simp: book_ok_def ballots_ok_def)
  ultimately have "c = length (filter (\<lambda>(_, l). Some v \<in> set l) m)"
    by (auto simp: tally_ballots_lookup Let_def split: if_splits)
  with q show ?thesis by (simp add: tm_count_def m')
qed

text \<open>Conversely a quorum is found, whichever order the map is iterated in.\<close>

lemma value_with_quorum_found:
  assumes "lists_entries ho" "book_ok (tm_book s k)" "tm_quorum s \<le> tm_count s k r (Some v)"
  shows "value_with_quorum ho s k r \<noteq> None"
proof -
  have "0 < tm_quorum s" by (simp add: tm_quorum_def quorum_def)
  with assms(3) have pos: "0 < tm_count s k r (Some v)" by linarith
  then obtain m where m: "map_of (tm_book s k) r = Some m"
    by (auto simp: tm_count_def ballots_at_def split: option.splits)
  have m': "ballots_at (tm_book s k) r = m" using m by (simp add: ballots_at_def)
  have "\<forall>(f, l) \<in> set m. distinct l"
    using assms(2) m' by (auto simp: book_ok_def ballots_ok_def)
  then have "map_of (tally_ballots m []) v = Some (tm_count s k r (Some v))"
    using pos by (simp add: tally_ballots_lookup tm_count_def m' Let_def)
  then have "(v, tm_count s k r (Some v)) \<in> set (ho s k r (tally_ballots m []))"
    using assms(1) by (auto simp: lists_entries_def dest: map_of_SomeD)
  with assms(3) have "find (\<lambda>(_, c). tm_quorum s \<le> c) (ho s k r (tally_ballots m [])) \<noteq> None"
    by (metis (mono_tags, lifting) case_prod_conv find_None_iff)
  with m show ?thesis by (auto simp: value_with_quorum_def)
qed


subsection \<open>Micro steps\<close>

text \<open>
  \<open>micro s acts t\<close>: the node moves from \<open>s\<close> to \<open>t\<close> and emits \<open>acts\<close>. One rule per thing the
  code does to the state while it processes an event; \<open>micros\<close> is a sequence of them.
\<close>

inductive micro :: "tendermint \<Rightarrow> action list \<Rightarrow> tendermint \<Rightarrow> bool" where
  decide: "tm_decision s = None \<Longrightarrow> lists_entries ho \<Longrightarrow> find_decision ho s = Some (r, v) \<Longrightarrow>
     micro s [Act_Decide r v] (s\<lparr>tm_decision := Some (r, v), tm_timers := []\<rparr>)"
| set_timer: "micro s [] (arm s tm r now)"
| drop_timers: "micro s [] (s\<lparr>tm_timers := ts\<rparr>)"
| enter: "tm_round s \<le> r \<Longrightarrow>
     micro s (snd (start_round now r s [])) (fst (start_round now r s []))"
| prevote: "tm_step s = Step_Propose \<Longrightarrow> tm_decision s = None \<Longrightarrow>
     x = None \<or> (\<exists>v. x = Some v \<and> verdict s = Some (v, True)) \<Longrightarrow>
     micro s (snd (cast Kind_Prevote x s [])) ((fst (cast Kind_Prevote x s []))\<lparr>tm_step := Step_Prevote\<rparr>)"
| precommit_nil: "tm_step s = Step_Prevote \<Longrightarrow> tm_decision s = None \<Longrightarrow>
     micro s (snd (cast Kind_Precommit None s []))
       ((fst (cast Kind_Precommit None s []))\<lparr>tm_step := Step_Precommit\<rparr>)"
| see_polka: "lists_entries ho \<Longrightarrow> polka ho s = Some v \<Longrightarrow> tm_me s \<noteq> None \<Longrightarrow> tm_decision s = None \<Longrightarrow>
     micro s (snd (on_polka v s [])) (fst (on_polka v s []))"

inductive micros :: "tendermint \<Rightarrow> action list \<Rightarrow> tendermint \<Rightarrow> bool" where
  stop: "micros s [] s"
| more: "micros s a t \<Longrightarrow> micro t b u \<Longrightarrow> micros s (a @ b) u"

lemma micro_micros: "micro s a t \<Longrightarrow> micros s a t"
  using micros.more [OF micros.stop, of s a t] by simp

lemma micros_trans: "micros t b u \<Longrightarrow> micros s a t \<Longrightarrow> micros s (a @ b) u"
proof (induction rule: micros.induct)
  case (stop t)
  then show ?case by simp
next
  case (more t b u c w)
  then show ?case by (metis append.assoc micros.more)
qed

text \<open>The helpers that take \<open>out\<close> extend it.\<close>

lemma cast_out: "cast k v s out = (fst (cast k v s []), out @ snd (cast k v s []))"
  by (simp add: cast_def split: option.splits)

lemma start_round_out:
  "start_round now r s out = (fst (start_round now r s []), out @ snd (start_round now r s []))"
  by (simp add: start_round_def Let_def)

lemma on_polka_out: "on_polka v s out = (fst (on_polka v s []), out @ snd (on_polka v s []))"
proof (cases "tm_step s = Step_Prevote")
  case True
  then show ?thesis
    using cast_out [of Kind_Precommit "Some v"
        "s\<lparr>tm_polka_done := insert (tm_round s) (tm_polka_done s), tm_locked := Some (tm_round s, v)\<rparr>" out]
    by (simp add: on_polka_def Let_def case_prod_beta)
qed (simp add: on_polka_def Let_def)

definition ends_in :: "tendermint \<Rightarrow> action list \<Rightarrow> tendermint \<times> action list \<Rightarrow> bool" where
  "ends_in s out res \<longleftrightarrow> (\<exists>acts. micros s acts (fst res) \<and> snd res = out @ acts)"

lemma ends_in_refl: "ends_in s out (s, out)"
  by (auto simp: ends_in_def intro: micros.stop)

lemma ends_in_trans: "ends_in s out (t, out1) \<Longrightarrow> ends_in t out1 res \<Longrightarrow> ends_in s out res"
  unfolding ends_in_def by (fastforce intro: micros_trans)

lemma ends_in_micro: "micro s acts t \<Longrightarrow> ends_in s out (t, out @ acts)"
  by (auto simp: ends_in_def intro: micro_micros)

lemma settle_ends:
  assumes "lists_entries ho"
  shows "ends_in s out (settle ho s out)"
proof (cases "tm_decision s = None \<and> find_decision ho s \<noteq> None")
  case True
  then obtain r v where d: "tm_decision s = None" "find_decision ho s = Some (r, v)" by auto
  from ends_in_micro [OF micro.decide [OF d(1) assms d(2)], of out] d show ?thesis
    by (simp add: settle_def)
next
  case False
  then have "settle ho s out = (s, out)" by (auto simp: settle_def split: option.splits)
  then show ?thesis by (simp add: ends_in_refl)
qed

fun flow_res :: "'a flow \<Rightarrow> 'a" where
  "flow_res (Return x) = x"
| "flow_res (Continue x) = x"

lemma progress_rest_ends:
  assumes "lists_entries ho" "tm_me s \<noteq> None" "tm_decision s = None"
  shows "ends_in s out (flow_res (progress_rest ho now s out))"
proof -
  define t where "t = (if tm_step s = Step_Prevote \<and> tm_quorum s \<le> tm_count_any s Kind_Prevote (tm_round s)
    then arm s Timer_Prevote (tm_round s) now else s)"
  have st: "ends_in s out (t, out)"
    using ends_in_micro [OF micro.set_timer, of s out] by (simp add: t_def ends_in_refl)
  have t: "tm_me t \<noteq> None" "tm_decision t = None" using assms by (simp_all add: t_def)
  have "ends_in t out (flow_res (progress_rest ho now s out))"
  proof (cases "polka ho t")
    case (Some v)
    from ends_in_micro [OF micro.see_polka [OF assms(1) Some t]] Some show ?thesis
      by (simp add: progress_rest_def Let_def t_def [symmetric] on_polka_out [of v t out])
  next
    case None
    show ?thesis
    proof (cases "tm_step t = Step_Prevote \<and> tm_quorum s \<le> tm_count t Kind_Prevote (tm_round s) None")
      case True
      from ends_in_micro [OF micro.precommit_nil] True None t show ?thesis
        by (simp add: progress_rest_def Let_def t_def [symmetric] cast_out [of _ _ t out])
    next
      case False
      with None show ?thesis
        using ends_in_micro [OF micro.set_timer, of t out]
        by (auto simp: progress_rest_def Let_def t_def [symmetric] ends_in_refl)
    qed
  qed
  with st show ?thesis by (rule ends_in_trans)
qed

lemma progress_body_ends:
  assumes ho: "lists_entries ho"
  shows "ends_in s out (flow_res (progress_body ho now s out))"
proof -
  define t where "t = fst (settle ho s out)"
  define o1 where "o1 = snd (settle ho s out)"
  have st: "settle ho s out = (t, o1)" by (simp add: t_def o1_def)
  have "ends_in t o1 (flow_res (progress_body ho now s out))"
  proof (cases "at_rest t")
    case True
    then show ?thesis by (simp add: progress_body_def st ends_in_refl)
  next
    case go: False
    then have t: "tm_me t \<noteq> None" "tm_decision t = None"
      by (cases "tm_decision t"; auto simp: at_rest_def)+
    show ?thesis
    proof (cases "skip_target t")
      case (Some r)
      then have "tm_round t \<le> r" by (simp add: skip_target_above order.strict_implies_order)
      from ends_in_micro [OF micro.enter [OF this], of o1 now] Some go show ?thesis
        by (simp add: progress_body_def st start_round_out [of now r t o1])
    next
      case skip: None
      show ?thesis
      proof (cases "if tm_step t = Step_Propose then verdict t else None")
        case None
        then have "progress_body ho now s out = progress_rest ho now t o1"
          using skip go by (simp add: progress_body_def st)
        with progress_rest_ends [OF ho t] show ?thesis by simp
      next
        case (Some va)
        then obtain v a where va: "tm_step t = Step_Propose" "verdict t = Some (v, a)"
          by (cases va) (auto split: if_splits)
        then have "(if a then Some v else None) = None \<or>
            (\<exists>w. (if a then Some v else None) = Some w \<and> verdict t = Some (w, True))" by auto
        from ends_in_micro [OF micro.prevote [OF va(1) t(2) this], of o1] va skip go show ?thesis
          by (cases a) (simp_all add: progress_body_def st case_prod_beta cast_out [of _ _ t o1])
      qed
    qed
  qed
  with settle_ends [OF ho, of s out] st show ?thesis by (metis ends_in_trans)
qed

lemma progress_ends: "lists_entries ho \<Longrightarrow> ends_in s out (progress ho now s out)"
proof (induction ho now s out rule: progress.induct)
  case (1 ho now s out)
  note body = progress_body_ends [OF "1.prems", of s out now]
  show ?case
  proof (cases "progress_body ho now s out")
    case (Return x1)
    with body show ?thesis by (simp add: progress.simps [of ho now s out])
  next
    case (Continue x2)
    obtain t out1 where x2: "x2 = (t, out1)" by fastforce
    from "1.IH" [OF Continue] x2 "1.prems" have "ends_in t out1 (progress ho now t out1)" by simp
    with body Continue x2 show ?thesis
      by (simp add: progress.simps [of ho now s out]) (metis ends_in_trans)
  qed
qed


subsection \<open>The handlers as micro steps\<close>

lemma fire_ends:
  assumes "tm_decision s = None"
  shows "ends_in s out (fire now t r s out)"
proof (cases t)
  case Timer_Propose
  show ?thesis
    using ends_in_micro [OF micro.prevote [OF _ assms, of None], of out] Timer_Propose
    by (auto simp: fire_def ends_in_refl cast_out [of _ _ s out])
next
  case Timer_Prevote
  show ?thesis
    using ends_in_micro [OF micro.precommit_nil [OF _ assms], of out] Timer_Prevote
    by (auto simp: fire_def ends_in_refl cast_out [of _ _ s out])
next
  case Timer_Precommit
  have "r \<le> sat_add r 1" by simp
  then show ?thesis
    using ends_in_micro [OF micro.enter, of s "sat_add r 1" out now] Timer_Precommit
    by (auto simp: fire_def ends_in_refl start_round_out [of now _ s out])
qed

lemma fire_due_ends: "lists_entries ho \<Longrightarrow> ends_in s out (fire_due ho now due s out)"
proof (induction ho now due s out rule: fire_due.induct)
  case (1 ho now s out)
  then show ?case by (simp add: ends_in_refl)
next
  case (2 ho now t r at due s out)
  show ?case
  proof (cases "tm_decision s = None")
    case True
    obtain s1 out1 where f: "fire now t r s out = (s1, out1)" by fastforce
    obtain s2 out2 where p: "progress ho now s1 out1 = (s2, out2)" by fastforce
    from "2.IH" [OF _ f [symmetric] _ p [symmetric]] "2.prems" True
    have "ends_in s2 out2 (fire_due ho now due s2 out2)" by simp
    with fire_ends [OF True, of out now t r] progress_ends [OF "2.prems", of s1 out1 now] True f p
    show ?thesis by simp (metis ends_in_trans)
  qed (simp add: ends_in_refl)
qed

lemma tick_ends:
  assumes "lists_entries ho"
  shows "ends_in s [] (tick ho now s)"
proof -
  define ts where "ts = filter (\<lambda>(_, _, at). \<not> at \<le> now) (tm_timers s)"
  define due where "due = sort_key due_key (filter (\<lambda>(_, _, at). at \<le> now) (tm_timers s))"
  define mid where "mid = fire_due ho now due (s\<lparr>tm_timers := ts\<rparr>) []"
  have "ends_in s [] (s\<lparr>tm_timers := ts\<rparr>, [])"
    using ends_in_micro [OF micro.drop_timers, of s "[]" ts] by simp
  moreover have "ends_in (s\<lparr>tm_timers := ts\<rparr>) [] (fst mid, snd mid)"
    using fire_due_ends [OF assms] by (simp add: mid_def)
  moreover have "ends_in (fst mid) (snd mid) (tick ho now s)"
    using progress_ends [OF assms, of "fst mid" "snd mid" now]
    by (simp add: tick_def Let_def case_prod_beta mid_def due_def ts_def)
  ultimately show ?thesis by (blast intro: ends_in_trans)
qed

lemma start_ends:
  assumes "lists_entries ho"
  shows "(start ho now s = (s, [])) \<or> ends_in (s\<lparr>tm_started := True\<rparr>) [] (start ho now s)"
proof (cases "tm_started s")
  case False
  let ?s1 = "s\<lparr>tm_started := True\<rparr>"
  define mid where "mid = (if tm_me ?s1 \<noteq> None \<and> 0 < tm_n ?s1 then
      (if \<not> tm_resumed ?s1 \<or> tm_step ?s1 = Step_Propose then start_round now (tm_round ?s1) ?s1 []
       else if tm_step ?s1 = Step_Prevote then (arm ?s1 Timer_Prevote (tm_round ?s1) now, [])
       else (arm ?s1 Timer_Precommit (tm_round ?s1) now, []))
     else (?s1, []))"
  have "ends_in ?s1 [] (fst mid, snd mid)"
    using ends_in_micro [OF micro.set_timer, of ?s1 "[]"]
      ends_in_micro [OF micro.enter, of ?s1 "tm_round ?s1" "[]" now]
    by (auto simp: mid_def ends_in_refl)
  moreover have "ends_in (fst mid) (snd mid) (start ho now s)"
    using False progress_ends [OF assms, of "fst mid" "snd mid" now]
    by (simp add: start_def Let_def case_prod_beta mid_def)
  ultimately show ?thesis by (blast intro: ends_in_trans)
qed (simp add: start_def)

subsection \<open>Votes are cast once and stay\<close>

lemma has_sent_iff: "has_sent s r k \<longleftrightarrow> (\<exists>x. map_of (tm_sent s) (r, k) = Some x)"
  by (auto simp: has_sent_def)

lemma cast_idle: "tm_me s = None \<or> has_sent s (tm_round s) k \<Longrightarrow> cast k v s out = (s, out)"
  by (auto simp: cast_def split: option.splits)

lemma cast_casts:
  assumes "tm_me s = Some me" "\<not> has_sent s (tm_round s) k"
  shows "map_of (tm_sent (fst (cast k v s out))) = (map_of (tm_sent s))((tm_round s, k) \<mapsto> v)"
    and "tm_book (fst (cast k v s out)) k' =
      (if k' = k then record_vote (tm_book s k) (tm_round s) me v else tm_book s k')"
    and "snd (cast k v s out) = out @ [Act_Vote k (tm_round s) v]"
proof -
  have book: "tm_book (s\<lparr>tm_sent := x\<rparr>) k'' = tm_book s k''" for x k''
    by (simp add: tm_book_def split: vote_kind.splits)
  show "map_of (tm_sent (fst (cast k v s out))) = (map_of (tm_sent s))((tm_round s, k) \<mapsto> v)"
    "tm_book (fst (cast k v s out)) k' =
      (if k' = k then record_vote (tm_book s k) (tm_round s) me v else tm_book s k')"
    "snd (cast k v s out) = out @ [Act_Vote k (tm_round s) v]"
    using assms by (simp_all add: cast_def book)
qed

text \<open>What a step does to the votes: nothing, or this node casts one new vote in its round.\<close>

definition same_votes :: "tendermint \<Rightarrow> action list \<Rightarrow> tendermint \<Rightarrow> bool" where
  "same_votes s acts t \<longleftrightarrow> tm_sent t = tm_sent s \<and> (\<forall>k. tm_book t k = tm_book s k) \<and>
     (\<forall>k r x. Act_Vote k r x \<notin> set acts)"

definition new_vote :: "tendermint \<Rightarrow> action list \<Rightarrow> tendermint \<Rightarrow> vote_kind \<Rightarrow> value_id option \<Rightarrow> bool" where
  "new_vote s acts t k x \<longleftrightarrow> (\<exists>me. tm_me s = Some me \<and> \<not> has_sent s (tm_round s) k \<and>
     map_of (tm_sent t) = (map_of (tm_sent s))((tm_round s, k) \<mapsto> x) \<and>
     (\<forall>k'. tm_book t k' = (if k' = k then record_vote (tm_book s k) (tm_round s) me x else tm_book s k')) \<and>
     acts = [Act_Vote k (tm_round s) x])"

lemma cast_votes:
  assumes "t = (fst (cast k x s []))\<lparr>tm_step := st\<rparr>"
  shows "same_votes s (snd (cast k x s [])) t \<or> new_vote s (snd (cast k x s [])) t k x"
proof (cases "tm_me s = None \<or> has_sent s (tm_round s) k")
  case True
  then show ?thesis
    using assms by (simp add: cast_idle same_votes_def tm_book_def split: vote_kind.splits)
next
  case False
  then obtain me where me: "tm_me s = Some me" "\<not> has_sent s (tm_round s) k" by auto
  have "tm_book t k' = tm_book (fst (cast k x s [])) k'" for k'
    using assms by (simp add: tm_book_def split: vote_kind.splits)
  with cast_casts [OF me, of x "[]"] me assms show ?thesis by (simp add: new_vote_def)
qed

lemma same_votesI:
  assumes "tm_sent t = tm_sent s" "tm_prevotes t = tm_prevotes s" "tm_precommits t = tm_precommits s"
    "\<forall>k r x. Act_Vote k r x \<notin> set acts"
  shows "same_votes s acts t"
  using assms by (auto simp: same_votes_def tm_book_def split: vote_kind.splits)

lemma on_polka_votes:
  "same_votes s (snd (on_polka v s [])) (fst (on_polka v s [])) \<or>
   new_vote s (snd (on_polka v s [])) (fst (on_polka v s [])) Kind_Precommit (Some v)"
proof (cases "tm_step s = Step_Prevote")
  case True
  define u where "u = s\<lparr>tm_polka_done := insert (tm_round s) (tm_polka_done s),
    tm_locked := Some (tm_round s, v)\<rparr>"
  have on: "on_polka v s [] = ((fst (cast Kind_Precommit (Some v) u []))\<lparr>tm_step := Step_Precommit,
      tm_valid := Some (tm_round s, v)\<rparr>, snd (cast Kind_Precommit (Some v) u []))"
    using True by (simp add: on_polka_def Let_def case_prod_beta u_def)
  have same: "tm_me u = tm_me s" "tm_sent u = tm_sent s" "tm_round u = tm_round s"
    "tm_book u k = tm_book s k" "has_sent u r k = has_sent s r k" for k r
    by (simp_all add: u_def tm_book_def has_sent_def split: vote_kind.splits)
  have upd: "tm_sent (w\<lparr>tm_valid := a\<rparr>) = tm_sent w" "tm_book (w\<lparr>tm_valid := a\<rparr>) k = tm_book w k" for w a k
    by (simp_all add: tm_book_def split: vote_kind.splits)
  from cast_votes [OF refl, of u Kind_Precommit "Some v" Step_Precommit] on show ?thesis
    by (simp add: same_votes_def new_vote_def same upd split del: if_split cong: if_cong)
next
  case False
  then show ?thesis by (auto simp: on_polka_def Let_def intro!: same_votesI)
qed

lemma micro_votes: "micro s acts t \<Longrightarrow> same_votes s acts t \<or> (\<exists>k x. new_vote s acts t k x)"
proof (induction rule: micro.induct)
  case (prevote s x)
  show ?case using cast_votes [OF refl] by blast
next
  case (precommit_nil s)
  show ?case using cast_votes [OF refl] by blast
next
  case (see_polka ho s v)
  show ?case using on_polka_votes by blast
qed (auto simp: start_round_def Let_def intro!: same_votesI)


lemma micro_frame: "micro s acts t \<Longrightarrow> tm_n t = tm_n s \<and> tm_me t = tm_me s \<and>
    tm_height t = tm_height s \<and> tm_round s \<le> tm_round t \<and> tm_proposals t = tm_proposals s"
  by (induction rule: micro.induct)
    (simp_all add: start_round_def Let_def on_polka_def case_prod_beta)

lemma micros_frame: "micros s acts t \<Longrightarrow> tm_n t = tm_n s \<and> tm_me t = tm_me s \<and>
    tm_height t = tm_height s \<and> tm_round s \<le> tm_round t"
proof (induction rule: micros.induct)
  case (more s a t b u)
  with micro_frame [OF more.hyps(2)] show ?case by simp (meson order.trans)
qed simp

definition books_ok :: "tendermint \<Rightarrow> bool" where
  "books_ok s \<longleftrightarrow> (\<forall>k. book_ok (tm_book s k))"

lemma micro_books_ok: "micro s acts t \<Longrightarrow> books_ok s \<Longrightarrow> books_ok t"
  using micro_votes [of s acts t]
  by (auto simp: books_ok_def same_votes_def new_vote_def book_ok_record)

lemma micro_sent_mono:
  "micro s acts t \<Longrightarrow> map_of (tm_sent s) e = Some x \<Longrightarrow> map_of (tm_sent t) e = Some x"
  using micro_votes [of s acts t]
  by (auto simp: same_votes_def new_vote_def has_sent_def)

lemma micro_sent_emits:
  "micro s acts t \<Longrightarrow> Act_Vote k r x \<in> set acts \<longleftrightarrow>
     map_of (tm_sent s) (r, k) = None \<and> map_of (tm_sent t) (r, k) = Some x"
  using micro_votes [of s acts t]
  by (auto simp: same_votes_def new_vote_def has_sent_def split: if_splits)

lemma micro_vote_mono:
  "micro s acts t \<Longrightarrow> vote_in (tm_book s k) r f x \<Longrightarrow> vote_in (tm_book t k) r f x"
  using micro_votes [of s acts t]
  by (auto simp: same_votes_def new_vote_def vote_in_record_mono)

lemma micro_vote_own:
  assumes "micro s acts t" "vote_in (tm_book t k) r f x"
  shows "vote_in (tm_book s k) r f x \<or> (tm_me s = Some f \<and> map_of (tm_sent t) (r, k) = Some x)"
  using micro_votes [OF assms(1)]
proof
  assume "same_votes s acts t"
  with assms(2) show ?thesis by (simp add: same_votes_def)
next
  assume "\<exists>k x. new_vote s acts t k x"
  then obtain k0 x0 me where me: "tm_me s = Some me"
    and sent: "map_of (tm_sent t) = (map_of (tm_sent s))((tm_round s, k0) \<mapsto> x0)"
    and book: "tm_book t k = (if k = k0 then record_vote (tm_book s k0) (tm_round s) me x0 else tm_book s k)"
    by (auto simp: new_vote_def)
  show ?thesis
  proof (cases "k = k0")
    case True
    with assms(2) book have "vote_in (record_vote (tm_book s k) (tm_round s) me x0) r f x" by simp
    with True me sent show ?thesis by (auto dest!: vote_in_recordD)
  next
    case False
    with assms(2) book show ?thesis by simp
  qed
qed

definition sent_distinct :: "tendermint \<Rightarrow> bool" where
  "sent_distinct s \<longleftrightarrow> distinct (map fst (tm_sent s))"

lemma cast_sent_distinct: "sent_distinct s \<Longrightarrow> sent_distinct (fst (cast k v s out))"
  by (auto simp: cast_def sent_distinct_def distinct_keys_update split: option.splits)

lemma micro_sent_distinct: "micro s acts t \<Longrightarrow> sent_distinct s \<Longrightarrow> sent_distinct t"
proof (induction rule: micro.induct)
  case (see_polka ho s v)
  then have "sent_distinct (s\<lparr>tm_polka_done := a, tm_locked := b\<rparr>)" for a b
    by (simp add: sent_distinct_def)
  from cast_sent_distinct [OF this] see_polka.prems show ?case
    by (simp add: on_polka_def Let_def case_prod_beta sent_distinct_def)
qed (use cast_sent_distinct in \<open>auto simp: sent_distinct_def start_round_def Let_def\<close>)

lemma micros_sent_distinct: "micros s acts t \<Longrightarrow> sent_distinct s \<Longrightarrow> sent_distinct t"
  by (induction rule: micros.induct) (auto intro: micro_sent_distinct)

lemma micros_books_ok: "micros s acts t \<Longrightarrow> books_ok s \<Longrightarrow> books_ok t"
  by (induction rule: micros.induct) (auto intro: micro_books_ok)

lemma micros_sent_mono:
  "micros s acts t \<Longrightarrow> map_of (tm_sent s) e = Some x \<Longrightarrow> map_of (tm_sent t) e = Some x"
  by (induction rule: micros.induct) (auto intro: micro_sent_mono)

lemma micros_vote_mono:
  "micros s acts t \<Longrightarrow> vote_in (tm_book s k) r f x \<Longrightarrow> vote_in (tm_book t k) r f x"
  by (induction rule: micros.induct) (auto intro: micro_vote_mono)

lemma micros_vote_own:
  "micros s acts t \<Longrightarrow> vote_in (tm_book t k) r f x \<Longrightarrow>
     vote_in (tm_book s k) r f x \<or> (tm_me s = Some f \<and> map_of (tm_sent t) (r, k) = Some x)"
proof (induction rule: micros.induct)
  case (more s a t b u)
  then show ?case
    using micro_vote_own [of t b u k r f x] micro_sent_mono [of t b u "(r, k)" x]
      micros_frame [of s a t] by auto
qed simp

text \<open>
  A \<open>Vote\<close> action is emitted exactly when the vote enters \<open>sent\<close>, and never for a round and
  kind that already has one.
\<close>

lemma micros_sent_emits:
  "micros s acts t \<Longrightarrow> Act_Vote k r x \<in> set acts \<longleftrightarrow>
     map_of (tm_sent s) (r, k) = None \<and> map_of (tm_sent t) (r, k) = Some x"
proof (induction rule: micros.induct)
  case (more s a t b u)
  show ?case
  proof (cases "map_of (tm_sent t) (r, k)")
    case None
    then have "map_of (tm_sent s) (r, k) = None"
      using micros_sent_mono [OF more.hyps(1), of "(r, k)"]
      by (cases "map_of (tm_sent s) (r, k)") auto
    with None more.IH micro_sent_emits [OF more.hyps(2), of k r x] show ?thesis by auto
  next
    case (Some y)
    with more.IH micro_sent_emits [OF more.hyps(2), of k r x] micro_sent_mono [OF more.hyps(2) Some]
    show ?thesis by auto
  qed
qed auto

subsection \<open>The locking discipline\<close>

text \<open>
  \<open>pk r v\<close> stands for "a quorum of validators prevoted \<open>v\<close> in round \<open>r\<close>", as far as anyone can
  tell. The node's own prevote book is evidence for it.
\<close>

type_synonym polka_pred = "u32 \<Rightarrow> value_id \<Rightarrow> bool"

definition polkas_known :: "polka_pred \<Rightarrow> tendermint \<Rightarrow> bool" where
  "polkas_known pk s \<longleftrightarrow> (\<forall>r v. tm_quorum s \<le> tm_count s Kind_Prevote r (Some v) \<longrightarrow> pk r v)"

text \<open>
  A prevote for \<open>v'\<close> in round \<open>r'\<close> by a node that had precommitted in an earlier round \<open>r\<close> is
  justified by the lock of that moment: a polka in some round \<open>lr\<close> from \<open>r\<close> on, for the value
  prevoted or followed by a polka for it.
\<close>

definition justified :: "polka_pred \<Rightarrow> u32 \<Rightarrow> u32 \<Rightarrow> value_id \<Rightarrow> bool" where
  "justified pk r r' v' \<longleftrightarrow> (\<exists>lr lv. r \<le> lr \<and> lr < r' \<and> pk lr lv \<and>
     (lv = v' \<or> (\<exists>vr. lr \<le> vr \<and> vr < r' \<and> pk vr v')))"

definition lock_ok :: "polka_pred \<Rightarrow> tendermint \<Rightarrow> bool" where
  "lock_ok pk s \<longleftrightarrow> (\<forall>lr lv. tm_locked s = Some (lr, lv) \<longrightarrow>
     lr \<le> tm_round s \<and> pk lr lv \<and> has_sent s lr Kind_Prevote)"

definition sent_ok :: "tendermint \<Rightarrow> bool" where
  "sent_ok s \<longleftrightarrow> (\<forall>r k x. map_of (tm_sent s) (r, k) = Some x \<longrightarrow> r \<le> tm_round s) \<and>
     (tm_step s \<noteq> Step_Propose \<longrightarrow> tm_me s \<noteq> None \<longrightarrow> has_sent s (tm_round s) Kind_Prevote)"

definition precommit_ok :: "polka_pred \<Rightarrow> tendermint \<Rightarrow> bool" where
  "precommit_ok pk s \<longleftrightarrow> (\<forall>r v. map_of (tm_sent s) (r, Kind_Precommit) = Some (Some v) \<longrightarrow>
     pk r v \<and> (\<exists>lr lv. tm_locked s = Some (lr, lv) \<and> r \<le> lr))"

definition prevote_ok :: "polka_pred \<Rightarrow> tendermint \<Rightarrow> bool" where
  "prevote_ok pk s \<longleftrightarrow> (\<forall>r v r' v'.
     map_of (tm_sent s) (r, Kind_Precommit) = Some (Some v) \<longrightarrow>
     map_of (tm_sent s) (r', Kind_Prevote) = Some (Some v') \<longrightarrow> r < r' \<longrightarrow> justified pk r r' v')"

definition proposals_ok :: "tendermint \<Rightarrow> bool" where
  "proposals_ok s \<longleftrightarrow> (\<forall>r v p. tm_proposals s r = Some (v, Some p) \<longrightarrow> p < r)"

definition node_inv :: "polka_pred \<Rightarrow> tendermint \<Rightarrow> bool" where
  "node_inv pk s \<longleftrightarrow> lock_ok pk s \<and> sent_ok s \<and> precommit_ok pk s \<and> prevote_ok pk s \<and> proposals_ok s"

lemmas node_inv_defs = node_inv_def lock_ok_def sent_ok_def precommit_ok_def prevote_ok_def proposals_ok_def

lemma justified_mono: "justified pk r r' v \<Longrightarrow> (\<And>r v. pk r v \<Longrightarrow> pk' r v) \<Longrightarrow> justified pk' r r' v"
  by (fastforce simp: justified_def)

lemma node_inv_mono:
  assumes "node_inv pk s" and "\<And>r v. pk r v \<Longrightarrow> pk' r v"
  shows "node_inv pk' s"
  using assms justified_mono [of pk _ _ _ pk'] unfolding node_inv_defs by blast


lemma node_inv_cong:
  assumes "node_inv pk s" "map_of (tm_sent t) = map_of (tm_sent s)" "tm_round t = tm_round s"
    "tm_step t = tm_step s" "tm_me t = tm_me s" "tm_locked t = tm_locked s" "proposals_ok t"
  shows "node_inv pk t"
  using assms unfolding node_inv_def lock_ok_def sent_ok_def precommit_ok_def prevote_ok_def has_sent_def
  by simp

lemma node_inv_frame:
  assumes "node_inv pk s" "tm_sent t = tm_sent s" "tm_round t = tm_round s" "tm_step t = tm_step s"
    "tm_me t = tm_me s" "tm_locked t = tm_locked s" "tm_proposals t = tm_proposals s"
  shows "node_inv pk t"
  by (rule node_inv_cong [OF assms(1)]) (use assms in \<open>simp_all add: node_inv_def proposals_ok_def\<close>)

lemma sent_okD: "sent_ok s \<Longrightarrow> map_of (tm_sent s) (r, k) = Some x \<Longrightarrow> r \<le> tm_round s"
  unfolding sent_ok_def by blast

lemma lock_okD:
  "lock_ok pk s \<Longrightarrow> tm_locked s = Some (lr, lv) \<Longrightarrow>
     lr \<le> tm_round s \<and> pk lr lv \<and> has_sent s lr Kind_Prevote"
  unfolding lock_ok_def by blast

lemma node_inv_enter:
  assumes "node_inv pk s" "tm_round s \<le> r" "tm_sent t = tm_sent s" "tm_round t = r"
    "tm_step t = Step_Propose" "tm_locked t = tm_locked s" "tm_proposals t = tm_proposals s"
  shows "node_inv pk t"
proof -
  have "sent_ok t"
    using assms sent_okD [of s] by (auto simp: node_inv_def sent_ok_def [of t] intro: order.trans)
  moreover have "lock_ok pk t"
    using assms lock_okD [of pk s] by (auto simp: node_inv_def lock_ok_def [of pk t] has_sent_def intro: order.trans)
  moreover have "precommit_ok pk t" "prevote_ok pk t" "proposals_ok t"
    using assms by (simp_all add: node_inv_defs)
  ultimately show ?thesis by (simp add: node_inv_def)
qed

text \<open>The lock a node holds when it prevotes justifies the prevote against its precommits.\<close>

lemma verdict_justified:
  assumes inv: "node_inv pk s" and known: "polkas_known pk s" and v: "verdict s = Some (v', True)"
    and fresh: "\<not> has_sent s (tm_round s) Kind_Prevote"
    and pc: "map_of (tm_sent s) (r, Kind_Precommit) = Some (Some v)"
  shows "justified pk r (tm_round s) v'"
proof -
  from inv pc obtain lr lv where lock: "tm_locked s = Some (lr, lv)" "r \<le> lr"
    unfolding node_inv_def precommit_ok_def by blast
  with inv have lr: "lr \<le> tm_round s" "pk lr lv" "has_sent s lr Kind_Prevote"
    unfolding node_inv_def lock_ok_def by blast+
  with fresh have less: "lr < tm_round s" by (metis order.not_eq_order_implies_strict)
  from v lock(1) obtain pol where props: "tm_proposals s (tm_round s) = Some (v', pol)"
    and ok: "case pol of None \<Rightarrow> lv = v'
      | Some vr \<Rightarrow> tm_quorum s \<le> tm_count s Kind_Prevote vr (Some v') \<and> (lr \<le> vr \<or> lv = v')"
    by (auto simp: verdict_def Let_def split: option.splits if_splits)
  show ?thesis
  proof (cases "lv = v'")
    case True
    with lock lr less show ?thesis unfolding justified_def by blast
  next
    case False
    with ok obtain vr where vr: "pol = Some vr" "lr \<le> vr"
        "tm_quorum s \<le> tm_count s Kind_Prevote vr (Some v')"
      by (auto split: option.splits)
    with known have "pk vr v'" by (simp add: polkas_known_def)
    moreover from inv props vr(1) have "vr < tm_round s"
      unfolding node_inv_def proposals_ok_def by blast
    ultimately show ?thesis
      using lock lr less vr(2) unfolding justified_def by blast
  qed
qed

lemma sent_ok_cast:
  assumes "sent_ok s" "map_of (tm_sent t) = (map_of (tm_sent s))((tm_round s, k) \<mapsto> x)"
    "tm_round t = tm_round s" "has_sent t (tm_round s) Kind_Prevote"
  shows "sent_ok t"
proof -
  have "r \<le> tm_round t" if "map_of (tm_sent t) (r, k') = Some y" for r k' y
    using that assms(1-3) by (cases "(r, k') = (tm_round s, k)") (auto dest: sent_okD)
  with assms(3,4) show ?thesis by (auto simp: sent_ok_def)
qed

lemma node_inv_prevote:
  assumes inv: "node_inv pk s" and known: "polkas_known pk s" and step: "tm_step s = Step_Propose"
    and x: "x = None \<or> (\<exists>v. x = Some v \<and> verdict s = Some (v, True))"
  shows "node_inv pk ((fst (cast Kind_Prevote x s []))\<lparr>tm_step := Step_Prevote\<rparr>)"
proof (cases "tm_me s = None \<or> has_sent s (tm_round s) Kind_Prevote")
  case True
  then show ?thesis
    using inv unfolding node_inv_defs by (auto simp: cast_idle has_sent_def)
next
  case False
  then obtain me where me: "tm_me s = Some me" "\<not> has_sent s (tm_round s) Kind_Prevote" by auto
  let ?t = "(fst (cast Kind_Prevote x s []))\<lparr>tm_step := Step_Prevote\<rparr>"
  have sent: "map_of (tm_sent ?t) = (map_of (tm_sent s))((tm_round s, Kind_Prevote) \<mapsto> x)"
    using cast_casts(1) [OF me] by simp
  have "prevote_ok pk ?t"
    unfolding prevote_ok_def
  proof (intro allI impI)
    fix r v r' v'
    assume pc: "map_of (tm_sent ?t) (r, Kind_Precommit) = Some (Some v)"
      and pv: "map_of (tm_sent ?t) (r', Kind_Prevote) = Some (Some v')" and less: "r < r'"
    from pc sent have pc': "map_of (tm_sent s) (r, Kind_Precommit) = Some (Some v)" by simp
    show "justified pk r r' v'"
    proof (cases "r' = tm_round s")
      case True
      with pv sent x have "verdict s = Some (v', True)" by auto
      from verdict_justified [OF inv known this me(2) pc'] True show ?thesis by simp
    next
      case False
      with pv sent have "map_of (tm_sent s) (r', Kind_Prevote) = Some (Some v')" by simp
      with inv pc' less show ?thesis unfolding node_inv_def prevote_ok_def by blast
    qed
  qed
  moreover have "sent_ok ?t"
    using sent_ok_cast [of s ?t] inv sent by (simp add: node_inv_def has_sent_def)
  moreover have "lock_ok pk ?t" "precommit_ok pk ?t" "proposals_ok ?t"
    using inv sent unfolding node_inv_defs has_sent_def by auto
  ultimately show ?thesis by (simp add: node_inv_def)
qed

lemma node_inv_precommit:
  assumes inv: "node_inv pk s" and step: "tm_step s = Step_Prevote"
    and x: "\<And>v. x = Some v \<Longrightarrow> tm_locked s = Some (tm_round s, v) \<and> pk (tm_round s) v"
  shows "node_inv pk ((fst (cast Kind_Precommit x s []))\<lparr>tm_step := Step_Precommit\<rparr>)"
proof (cases "tm_me s = None \<or> has_sent s (tm_round s) Kind_Precommit")
  case True
  then show ?thesis
    using inv step unfolding node_inv_defs by (auto simp: cast_idle has_sent_def)
next
  case False
  then obtain me where me: "tm_me s = Some me" "\<not> has_sent s (tm_round s) Kind_Precommit" by auto
  let ?t = "(fst (cast Kind_Precommit x s []))\<lparr>tm_step := Step_Precommit\<rparr>"
  have sent: "map_of (tm_sent ?t) = (map_of (tm_sent s))((tm_round s, Kind_Precommit) \<mapsto> x)"
    using cast_casts(1) [OF me] by simp
  have "prevote_ok pk ?t"
    unfolding prevote_ok_def
  proof (intro allI impI)
    fix r v r' v'
    assume pc: "map_of (tm_sent ?t) (r, Kind_Precommit) = Some (Some v)"
      and pv: "map_of (tm_sent ?t) (r', Kind_Prevote) = Some (Some v')" and less: "r < r'"
    from pv sent have pv': "map_of (tm_sent s) (r', Kind_Prevote) = Some (Some v')" by simp
    with inv have "r' \<le> tm_round s" unfolding node_inv_def sent_ok_def by blast
    with less have "r \<noteq> tm_round s" by auto
    with pc sent have "map_of (tm_sent s) (r, Kind_Precommit) = Some (Some v)" by simp
    with inv pv' less show "justified pk r r' v'" unfolding node_inv_def prevote_ok_def by blast
  qed
  moreover have "precommit_ok pk ?t"
    unfolding precommit_ok_def
  proof (intro allI impI)
    fix r v
    assume pc: "map_of (tm_sent ?t) (r, Kind_Precommit) = Some (Some v)"
    show "pk r v \<and> (\<exists>lr lv. tm_locked ?t = Some (lr, lv) \<and> r \<le> lr)"
    proof (cases "r = tm_round s")
      case True
      with pc sent have "x = Some v" by simp
      from x [OF this] True show ?thesis by auto
    next
      case False
      with pc sent have "map_of (tm_sent s) (r, Kind_Precommit) = Some (Some v)" by simp
      with inv show ?thesis unfolding node_inv_def precommit_ok_def by simp
    qed
  qed
  moreover have "sent_ok ?t"
    using sent_ok_cast [of s ?t] inv sent step me by (simp add: node_inv_def sent_ok_def has_sent_def)
  moreover have "lock_ok pk ?t" "proposals_ok ?t"
    using inv sent unfolding node_inv_defs has_sent_def by auto
  ultimately show ?thesis by (simp add: node_inv_def)
qed


lemma node_inv_polka:
  assumes inv: "node_inv pk s" and known: "polkas_known pk s" and ok: "books_ok s"
    and ho: "lists_entries ho" and p: "polka ho s = Some v" and me: "tm_me s \<noteq> None"
  shows "node_inv pk (fst (on_polka v s []))"
proof -
  from p have step: "tm_step s \<noteq> Step_Propose"
    and "value_with_quorum ho s Kind_Prevote (tm_round s) = Some v"
    by (auto simp: polka_def split: if_splits option.splits)
  then have "tm_quorum s \<le> tm_count s Kind_Prevote (tm_round s) (Some v)"
    using value_with_quorum_count [OF ho] ok by (simp add: books_ok_def)
  with known have pk: "pk (tm_round s) v" by (simp add: polkas_known_def)
  show ?thesis
  proof (cases "tm_step s = Step_Prevote")
    case True
    let ?u = "s\<lparr>tm_polka_done := insert (tm_round s) (tm_polka_done s), tm_locked := Some (tm_round s, v)\<rparr>"
    have lock: "lr \<le> tm_round s" if "tm_locked s = Some (lr, lv)" for lr lv
      using inv that lock_okD by (auto simp: node_inv_def)
    have "has_sent s (tm_round s) Kind_Prevote"
      using inv step me unfolding node_inv_def sent_ok_def by blast
    then have "lock_ok pk ?u" using pk by (simp add: lock_ok_def has_sent_def)
    moreover have "precommit_ok pk ?u"
      using inv lock unfolding node_inv_def precommit_ok_def by simp (meson order.trans)
    ultimately have "node_inv pk ?u"
      using inv unfolding node_inv_def sent_ok_def prevote_ok_def proposals_ok_def has_sent_def by simp
    then have "node_inv pk ((fst (cast Kind_Precommit (Some v) ?u []))\<lparr>tm_step := Step_Precommit\<rparr>)"
      by (rule node_inv_precommit) (use True pk in auto)
    then show ?thesis
      by (rule node_inv_frame) (use True in \<open>simp_all add: on_polka_def Let_def case_prod_beta\<close>)
  next
    case False
    with inv show ?thesis by (auto simp: on_polka_def Let_def intro: node_inv_frame)
  qed
qed

lemma micro_node_inv:
  "micro s acts t \<Longrightarrow> node_inv pk s \<Longrightarrow> polkas_known pk s \<Longrightarrow> books_ok s \<Longrightarrow> node_inv pk t"
proof (induction rule: micro.induct)
  case (enter s r now)
  then show ?case by (auto simp: start_round_def Let_def intro: node_inv_enter)
next
  case (prevote s x)
  then show ?case by (blast intro: node_inv_prevote)
next
  case (precommit_nil s)
  then show ?case by (blast intro: node_inv_precommit)
next
  case (see_polka ho s v)
  then show ?case by (blast intro: node_inv_polka)
qed (auto intro: node_inv_frame)

text \<open>Books grow, so what the book shows at the end covers every moment before.\<close>

lemma micros_polkas_known:
  assumes "micros s acts t" "books_ok s" "polkas_known pk t"
  shows "polkas_known pk s"
  unfolding polkas_known_def
proof (intro allI impI)
  fix r v
  assume q: "tm_quorum s \<le> tm_count s Kind_Prevote r (Some v)"
  have ok: "book_ok (tm_book s Kind_Prevote)" "book_ok (tm_book t Kind_Prevote)"
    using assms micros_books_ok by (auto simp: books_ok_def)
  have "{f. vote_in (tm_book s Kind_Prevote) r f (Some v)} \<subseteq> {f. vote_in (tm_book t Kind_Prevote) r f (Some v)}"
    using micros_vote_mono [OF assms(1)] by blast
  then have "tm_count s Kind_Prevote r (Some v) \<le> tm_count t Kind_Prevote r (Some v)"
    using ok by (simp add: count_voters card_mono)
  moreover have "tm_quorum t = tm_quorum s"
    using micros_frame [OF assms(1)] by (simp add: tm_quorum_def)
  ultimately have "tm_quorum t \<le> tm_count t Kind_Prevote r (Some v)" using q by linarith
  with assms(3) show "pk r v" by (simp add: polkas_known_def)
qed

lemma micros_node_inv:
  "micros s acts t \<Longrightarrow> node_inv pk s \<Longrightarrow> books_ok s \<Longrightarrow> polkas_known pk t \<Longrightarrow> node_inv pk t"
proof (induction rule: micros.induct)
  case (more s a t b u)
  have ok: "books_ok t" by (rule micros_books_ok [OF more.hyps(1) more.prems(2)])
  have "polkas_known pk t"
    by (rule micros_polkas_known [OF micro_micros [OF more.hyps(2)] ok more.prems(3)])
  with more ok show ?case by (blast intro: micro_node_inv)
qed simp

subsection \<open>Decisions\<close>

lemma find_decision_in_sound:
  "find_decision_in ho s rs = Some (r, v) \<Longrightarrow>
     value_with_quorum ho s Kind_Precommit r = Some v \<and> acceptable s v"
  by (induction ho s rs rule: find_decision_in.induct) (auto split: option.splits if_splits)

lemma find_decision_sound:
  assumes "find_decision ho s = Some (r, v)" "lists_entries ho" "books_ok s"
  shows "tm_quorum s \<le> tm_count s Kind_Precommit r (Some v) \<and> acceptable s v"
  using find_decision_in_sound [of ho s _ r v] value_with_quorum_count [of ho s Kind_Precommit r v] assms
  by (auto simp: find_decision_def books_ok_def)

text \<open>A node decides with a quorum of precommits in its book.\<close>

lemma micro_decide:
  "micro s acts t \<Longrightarrow> books_ok s \<Longrightarrow> Act_Decide r v \<in> set acts \<Longrightarrow>
     tm_quorum t \<le> tm_count t Kind_Precommit r (Some v) \<and> tm_validity s v = Some True"
proof (induction rule: micro.induct)
  case (decide s ho r' v')
  then show ?case
    using find_decision_sound [of ho s r' v']
    by (auto simp: acceptable_def tm_count_def tm_quorum_def tm_book_def)
next
  case (see_polka ho s v)
  then show ?case by (auto simp: on_polka_def Let_def case_prod_beta cast_def split: if_splits option.splits)
qed (auto simp: start_round_def Let_def cast_def split: if_splits option.splits)

lemma micro_decision:
  "micro s acts t \<Longrightarrow> (tm_decision s = Some d \<longrightarrow> tm_decision t = Some d) \<and>
     (Act_Decide r v \<in> set acts \<longleftrightarrow> tm_decision s = None \<and> tm_decision t = Some (r, v))"
  by (induction rule: micro.induct)
    (auto simp: start_round_def on_polka_def Let_def cast_def case_prod_beta split: if_splits option.splits)


lemma micros_decide:
  "micros s acts t \<Longrightarrow> books_ok s \<Longrightarrow> Act_Decide r v \<in> set acts \<Longrightarrow>
     tm_quorum t \<le> tm_count t Kind_Precommit r (Some v)"
proof (induction rule: micros.induct)
  case (more s a t b u)
  have ok: "books_ok t" "books_ok u"
    using more.hyps more.prems(1) micros_books_ok micro_books_ok by blast+
  show ?case
  proof (cases "Act_Decide r v \<in> set b")
    case True
    with micro_decide [OF more.hyps(2) ok(1)] show ?thesis by blast
  next
    case False
    with more have q: "tm_quorum t \<le> tm_count t Kind_Precommit r (Some v)" by simp
    have "{f. vote_in (tm_book t Kind_Precommit) r f (Some v)} \<subseteq>
        {f. vote_in (tm_book u Kind_Precommit) r f (Some v)}"
      using micro_vote_mono [OF more.hyps(2)] by blast
    then have "tm_count t Kind_Precommit r (Some v) \<le> tm_count u Kind_Precommit r (Some v)"
      using ok by (simp add: count_voters books_ok_def card_mono)
    with q micro_frame [OF more.hyps(2)] show ?thesis by (simp add: tm_quorum_def)
  qed
qed simp

subsection \<open>Saving and restoring\<close>

lemma restore_sent_frame [simp]:
  "tm_n (restore_sent l s) = tm_n s" "tm_me (restore_sent l s) = tm_me s"
  "tm_height (restore_sent l s) = tm_height s" "tm_round (restore_sent l s) = tm_round s"
  "tm_step (restore_sent l s) = tm_step s" "tm_locked (restore_sent l s) = tm_locked s"
  "tm_valid (restore_sent l s) = tm_valid s" "tm_proposals (restore_sent l s) = tm_proposals s"
  "tm_started (restore_sent l s) = tm_started s" "tm_decision (restore_sent l s) = tm_decision s"
  by (induction l s rule: restore_sent.induct) (simp_all add: Let_def split: option.splits)

lemma restore_sent_map:
  "distinct (map (\<lambda>(r, k, _). (r, k)) l) \<Longrightarrow> map_of (tm_sent (restore_sent l s)) =
     map_of (tm_sent s) ++ map_of (map (\<lambda>(r, k, v). ((r, k), v)) l)"
proof (induction l s rule: restore_sent.induct)
  case (2 r k v l s)
  have no: "map_of (map (\<lambda>(r, k, v). ((r, k), v)) l) (r, k) = None"
    using "2.prems" by (force simp: map_of_eq_None_iff)
  from 2 show ?case
    by (auto simp: Let_def fun_eq_iff map_add_def no split: option.splits)
qed simp

lemma restore_sent_distinct: "sent_distinct s \<Longrightarrow> sent_distinct (restore_sent l s)"
  by (induction l s rule: restore_sent.induct)
    (auto simp: Let_def sent_distinct_def distinct_keys_update split: option.splits)

lemma restore_sent_books:
  "books_ok s \<Longrightarrow> books_ok (restore_sent l s)"
proof (induction l s rule: restore_sent.induct)
  case (2 r k v l s)
  have "books_ok (record_in (s\<lparr>tm_sent := x\<rparr>) k r me v)" "books_ok (s\<lparr>tm_sent := x\<rparr>)" for x me
    using "2.prems" by (auto simp: books_ok_def tm_book_def record_in_def book_ok_record split: vote_kind.splits)
  with 2 show ?case by (auto simp: Let_def split: option.splits)
qed simp

lemma restore_sent_votes:
  "vote_in (tm_book (restore_sent l s) k) r f x \<Longrightarrow>
     vote_in (tm_book s k) r f x \<or> (tm_me s = Some f \<and> (r, k, x) \<in> set l)"
proof (induction l s rule: restore_sent.induct)
  case (2 r' k' v l s)
  have bk: "tm_book (s\<lparr>tm_sent := y\<rparr>) k = tm_book s k" for y k
    by (simp add: tm_book_def split: vote_kind.splits)
  show ?case
  proof (cases "tm_me s")
    case None
    with 2 show ?thesis by (simp add: Let_def bk)
  next
    case (Some me)
    with 2 have "vote_in (tm_book (record_in (s\<lparr>tm_sent := AList.update (r', k') v (tm_sent s)\<rparr>) k' r' me v) k) r f x \<or>
        (tm_me s = Some f \<and> (r, k, x) \<in> set l)" by (simp add: Let_def)
    with Some show ?thesis by (auto simp: bk split: if_splits dest: vote_in_recordD)
  qed
qed simp

lemma saved_sent:
  assumes "sent_distinct s"
  shows "distinct (map (\<lambda>(r, k, _). (r, k)) (sv_sent (saved s)))"
    and "map_of (map (\<lambda>(r, k, v). ((r, k), v)) (sv_sent (saved s))) = map_of (tm_sent s)"
    and "(r, k, x) \<in> set (sv_sent (saved s)) \<longleftrightarrow> map_of (tm_sent s) (r, k) = Some x"
proof -
  let ?l = "map (\<lambda>((r, k), v). (r, k, v)) (tm_sent s)"
  have set: "set (sv_sent (saved s)) = set ?l" by (simp add: saved_def)
  have d: "distinct (map (\<lambda>(r, k, _). (r, k)) ?l)"
    using assms by (simp add: sent_distinct_def comp_def case_prod_beta)
  then have "distinct ?l \<and> inj_on (\<lambda>(r, k, _). (r, k)) (set ?l)"
    by (simp only: distinct_map)
  then have "distinct ?l" and inj: "inj_on (\<lambda>(r, k, _). (r, k)) (set ?l)" by blast+
  show mem: "(r, k, x) \<in> set (sv_sent (saved s)) \<longleftrightarrow> map_of (tm_sent s) (r, k) = Some x" for r k x
    using assms by (force simp: set sent_distinct_def)
  have "distinct (sv_sent (saved s))" using \<open>distinct ?l\<close> by (simp add: saved_def)
  with inj set show dd: "distinct (map (\<lambda>(r, k, _). (r, k)) (sv_sent (saved s)))"
    by (simp add: distinct_map)
  let ?m = "map (\<lambda>(r, k, v). ((r, k), v)) (sv_sent (saved s))"
  have "distinct (map fst ?m)" using dd by (simp add: comp_def case_prod_unfold)
  moreover have "((a, b), y) \<in> set ?m \<longleftrightarrow> ((a, b), y) \<in> set (tm_sent s)" for a b y
    using mem [of a b y] assms by (force simp: sent_distinct_def)
  ultimately have "map_of ?m (a, b) = Some y \<longleftrightarrow> map_of (tm_sent s) (a, b) = Some y" for a b y
    using assms by (simp add: sent_distinct_def)
  then have "map_of ?m e = map_of (tm_sent s) e" for e
    by (cases e; cases "map_of ?m e") (auto, metis option.exhaust)
  then show "map_of ?m = map_of (tm_sent s)" by (rule ext)
qed

end
