(* ===== verification/Quorum_Voting.thy ===== *)
theory Quorum_Voting
  imports Ego_Prelude
begin

section \<open>Quorum voting with locks, abstractly\<close>

text \<open>
  What a committee needs for agreement, as two interfaces. \<open>quorum_rule\<close> is the promise of a
  quorum size: two quorums share a correct member and the correct members alone make a quorum.
  \<open>locking_protocol\<close> is the promise of the voting discipline in every reachable state: a member
  precommits only what a quorum prevoted, and a later prevote for another value is justified
  by a quorum of prevotes in between. Agreement follows from these two alone;
  \<^verbatim>\<open>Tendermint_Network\<close> interprets both on the model of the code.
\<close>

locale quorum_rule =
  fixes q :: "nat \<Rightarrow> nat"
  assumes overlap: "3 * f < n \<Longrightarrow> n + f < q n + q n"
    and attainable: "3 * f < n \<Longrightarrow> q n + f \<le> n"
begin

lemma share_correct:
  assumes "3 * card B < n" "finite B" "A \<subseteq> {..<n}" "C \<subseteq> {..<n}" "q n \<le> card A" "q n \<le> card C"
  shows "\<exists>p \<in> A \<inter> C. p \<notin> B"
proof (rule quorums_meet [OF assms(3,4)])
  show "n + card B < card A + card C" using overlap [OF assms(1)] assms(5,6) by linarith
qed (rule assms(2))

lemma has_correct:
  assumes "3 * card B < n" "finite B" "A \<subseteq> {..<n}" "q n \<le> card A"
  shows "\<exists>p \<in> A. p \<notin> B"
  using share_correct [OF assms(1,2,3,3,4,4)] by blast

end

text \<open>
  The votes of a state: \<open>prevoted s p r = Some v\<close> when correct member \<open>p\<close> prevoted \<open>v\<close> in round
  \<open>r\<close>. A faulty member may have voted for anything, so it counts for every value.
\<close>

definition backers :: "nat \<Rightarrow> nat set \<Rightarrow> (nat \<Rightarrow> 'r \<Rightarrow> 'v option) \<Rightarrow> 'r \<Rightarrow> 'v \<Rightarrow> nat set" where
  "backers n B votes r v = {p. p < n \<and> (p \<in> B \<or> votes p r = Some v)}"

lemma backers_subset [simp]: "backers n B votes r v \<subseteq> {..<n}"
  by (auto simp: backers_def)

lemma finite_backers [simp]: "finite (backers n B votes r v)"
  by (rule finite_subset [OF backers_subset]) simp

lemma backers_mono:
  "(\<And>p. p \<notin> B \<Longrightarrow> votes p r = Some v \<Longrightarrow> votes' p r = Some v) \<Longrightarrow>
     backers n B votes r v \<subseteq> backers n B votes' r v"
  by (auto simp: backers_def)

definition has_quorum :: "(nat \<Rightarrow> nat) \<Rightarrow> nat \<Rightarrow> nat set \<Rightarrow> (nat \<Rightarrow> 'r \<Rightarrow> 'v option) \<Rightarrow> 'r \<Rightarrow> 'v \<Rightarrow> bool" where
  "has_quorum q n B votes r v \<longleftrightarrow> q n \<le> card (backers n B votes r v)"

lemma has_quorum_mono:
  "has_quorum q n B votes r v \<Longrightarrow>
     (\<And>p. p \<notin> B \<Longrightarrow> votes p r = Some v \<Longrightarrow> votes' p r = Some v) \<Longrightarrow> has_quorum q n B votes' r v"
  unfolding has_quorum_def
  by (meson backers_mono card_mono finite_backers order.trans)

locale locking_protocol = quorum_rule q for q :: "nat \<Rightarrow> nat" +
  fixes reach :: "'s \<Rightarrow> bool"
    and size_of :: "'s \<Rightarrow> nat"
    and faulty :: "'s \<Rightarrow> nat set"
    and prevoted :: "'s \<Rightarrow> nat \<Rightarrow> 'r::wellorder \<Rightarrow> 'v option"
    and precommitted :: "'s \<Rightarrow> nat \<Rightarrow> 'r \<Rightarrow> 'v option"
  assumes few_faulty: "reach s \<Longrightarrow> finite (faulty s) \<and> 3 * card (faulty s) < size_of s"
    and precommit_needs_polka:
      "reach s \<Longrightarrow> p < size_of s \<Longrightarrow> p \<notin> faulty s \<Longrightarrow> precommitted s p r = Some v \<Longrightarrow>
         has_quorum q (size_of s) (faulty s) (prevoted s) r v"
    and prevote_justified:
      "reach s \<Longrightarrow> p < size_of s \<Longrightarrow> p \<notin> faulty s \<Longrightarrow> precommitted s p r = Some v \<Longrightarrow>
         prevoted s p r' = Some v' \<Longrightarrow> r < r' \<Longrightarrow>
         \<exists>lr lv. r \<le> lr \<and> lr < r' \<and> has_quorum q (size_of s) (faulty s) (prevoted s) lr lv \<and>
           (lv = v' \<or> (\<exists>vr. lr \<le> vr \<and> vr < r' \<and>
              has_quorum q (size_of s) (faulty s) (prevoted s) vr v'))"
begin

abbreviation pv :: "'s \<Rightarrow> 'r \<Rightarrow> 'v \<Rightarrow> bool" where
  "pv s \<equiv> has_quorum q (size_of s) (faulty s) (prevoted s)"

abbreviation pc :: "'s \<Rightarrow> 'r \<Rightarrow> 'v \<Rightarrow> bool" where
  "pc s \<equiv> has_quorum q (size_of s) (faulty s) (precommitted s)"

lemma quorums_share:
  assumes "reach s" "has_quorum q (size_of s) (faulty s) a r v" "has_quorum q (size_of s) (faulty s) b r' v'"
  shows "\<exists>p < size_of s. p \<notin> faulty s \<and> a p r = Some v \<and> b p r' = Some v'"
proof -
  have "\<exists>p \<in> backers (size_of s) (faulty s) a r v \<inter> backers (size_of s) (faulty s) b r' v'. p \<notin> faulty s"
    using few_faulty [OF assms(1)] assms(2,3)
    by (intro share_correct [of "faulty s" "size_of s"]) (simp_all add: has_quorum_def)
  then show ?thesis by (auto simp: backers_def)
qed

lemma polka_unique: "reach s \<Longrightarrow> pv s r v \<Longrightarrow> pv s r v' \<Longrightarrow> v = v'"
  using quorums_share [of s "prevoted s" r v "prevoted s" r v'] by auto

lemma decided_has_polka: "reach s \<Longrightarrow> pc s r v \<Longrightarrow> pv s r v"
  using quorums_share [of s "precommitted s" r v "precommitted s" r v] precommit_needs_polka by blast

text \<open>Once a quorum precommitted \<open>v\<close> in round \<open>r\<close>, every polka from \<open>r\<close> on is for \<open>v\<close>.\<close>

lemma polka_after_decision:
  assumes "reach s" "pc s r v"
  shows "r \<le> r' \<Longrightarrow> pv s r' v' \<Longrightarrow> v' = v"
proof (induction r' arbitrary: v' rule: less_induct)
  case (less r')
  show ?case
  proof (cases "r' = r")
    case True
    with less.prems(2) decided_has_polka [OF assms] polka_unique [OF assms(1)] show ?thesis by blast
  next
    case False
    with less.prems(1) have "r < r'" by simp
    from quorums_share [OF assms(1,2) less.prems(2)] obtain p where p: "p < size_of s" "p \<notin> faulty s"
      "precommitted s p r = Some v" "prevoted s p r' = Some v'" by blast
    from prevote_justified [OF assms(1) p \<open>r < r'\<close>] obtain lr lv where lr: "r \<le> lr" "lr < r'" "pv s lr lv"
      and j: "lv = v' \<or> (\<exists>vr. lr \<le> vr \<and> vr < r' \<and> pv s vr v')" by blast
    from j show ?thesis
    proof
      assume "lv = v'"
      with less.IH [OF lr(2,1)] lr(3) show ?thesis by blast
    next
      assume "\<exists>vr. lr \<le> vr \<and> vr < r' \<and> pv s vr v'"
      then obtain vr where "lr \<le> vr" "vr < r'" "pv s vr v'" by blast
      with less.IH [of vr v'] lr(1) show ?thesis by (meson order.trans)
    qed
  qed
qed

lemma agreement:
  assumes "reach s" "pc s r v" "pc s r' v'"
  shows "v = v'"
proof (cases "r \<le> r'")
  case True
  with polka_after_decision [OF assms(1,2)] decided_has_polka [OF assms(1,3)] show ?thesis by blast
next
  case False
  with polka_after_decision [OF assms(1,3), of r v] decided_has_polka [OF assms(1,2)] show ?thesis
    by (simp add: less_imp_le)
qed

end

end
