(* ===== verification/Tendermint_Network.thy ===== *)
theory Tendermint_Network
  imports Tendermint_Node Quorum_Voting
begin

section \<open>A committee of Tendermint nodes\<close>

text \<open>
  A committee of \<open>n\<close> validators, some of them faulty, and any number of observers (node numbers
  from \<open>n\<close> on, which \<open>Tendermint::new\<close> turns into nodes without a vote). A correct node runs
  the handlers of \<^verbatim>\<open>tendermint.rs\<close>, whole, on whatever arrives: proposals and validity
  reports of any content, clock ticks at any time, votes in any order, any number of times or
  never. A vote in the name of a correct validator is delivered only if that validator emitted
  it, which is what signatures give; votes in the name of a faulty one are arbitrary. A correct
  node may crash at any time and restart from its last \<open>saved()\<close> state, which loses its books,
  proposals, timers and decision.
\<close>

record network =
  net_height :: u64
  net_n :: nat
  net_faulty :: "nat set"
  net_nodes :: "nat \<Rightarrow> tendermint"
  net_wire :: "(nat \<times> vote_kind \<times> u32 \<times> value_id option) set"
  net_decided :: "(nat \<times> u32 \<times> value_id) set"

definition init_net :: "u64 \<Rightarrow> nat \<Rightarrow> nat set \<Rightarrow> (nat \<Rightarrow> timeouts) \<Rightarrow> network" where
  "init_net h n B to = \<lparr>net_height = h, net_n = n, net_faulty = B,
     net_nodes = (\<lambda>i. tm_new h n (Some i) (to i)), net_wire = {}, net_decided = {}\<rparr>"

definition votes_of :: "nat \<Rightarrow> action list \<Rightarrow> (nat \<times> vote_kind \<times> u32 \<times> value_id option) set" where
  "votes_of i acts = set (concat (map (\<lambda>a. case a of Act_Vote k r x \<Rightarrow> [(i, k, r, x)] | _ \<Rightarrow> []) acts))"

definition decisions_of :: "nat \<Rightarrow> action list \<Rightarrow> (nat \<times> u32 \<times> value_id) set" where
  "decisions_of i acts = set (concat (map (\<lambda>a. case a of Act_Decide r v \<Rightarrow> [(i, r, v)] | _ \<Rightarrow> []) acts))"

lemma votes_of_iff: "(j, k, r, x) \<in> votes_of i acts \<longleftrightarrow> j = i \<and> Act_Vote k r x \<in> set acts"
  by (force simp: votes_of_def split: action.splits)

lemma decisions_of_iff: "(j, r, v) \<in> decisions_of i acts \<longleftrightarrow> j = i \<and> Act_Decide r v \<in> set acts"
  by (force simp: decisions_of_def split: action.splits)

text \<open>The node takes its new state and its actions go out.\<close>

definition deliver :: "nat \<Rightarrow> tendermint \<times> action list \<Rightarrow> network \<Rightarrow> network" where
  "deliver i res N = N\<lparr>net_nodes := (net_nodes N)(i := fst res),
     net_wire := net_wire N \<union> votes_of i (snd res),
     net_decided := net_decided N \<union> decisions_of i (snd res)\<rparr>"

inductive net_step :: "network \<Rightarrow> network \<Rightarrow> bool" where
  n_start: "i \<notin> net_faulty N \<Longrightarrow> lists_entries ho \<Longrightarrow>
     net_step N (deliver i (start ho now (net_nodes N i)) N)"
| n_proposal: "i \<notin> net_faulty N \<Longrightarrow> lists_entries ho \<Longrightarrow>
     net_step N (deliver i (on_proposal ho now r from v pol ok (net_nodes N i)) N)"
| n_value: "i \<notin> net_faulty N \<Longrightarrow> lists_entries ho \<Longrightarrow>
     net_step N (deliver i (on_value ho now v ok (net_nodes N i)) N)"
| n_vote: "i \<notin> net_faulty N \<Longrightarrow> lists_entries ho \<Longrightarrow>
     from \<in> net_faulty N \<or> (from, k, r, x) \<in> net_wire N \<Longrightarrow>
     net_step N (deliver i (on_vote ho now k r from x (net_nodes N i)) N)"
| n_tick: "i \<notin> net_faulty N \<Longrightarrow> lists_entries ho \<Longrightarrow>
     net_step N (deliver i (tick ho now (net_nodes N i)) N)"
| n_carry: "i \<notin> net_faulty N \<Longrightarrow> net_step N (deliver i (carry v (net_nodes N i), []) N)"
| n_restart: "i \<notin> net_faulty N \<Longrightarrow>
     net_step N (deliver i (restore (saved (net_nodes N i)) (tm_new (net_height N) (net_n N) (Some i) to), []) N)"

text \<open>A committee with fewer than a third of its members faulty, after any run.\<close>

inductive net_reachable :: "network \<Rightarrow> bool" where
  init: "B \<subseteq> {..<n} \<Longrightarrow> 3 * card B < n \<Longrightarrow> net_reachable (init_net h n B to)"
| step: "net_reachable N \<Longrightarrow> net_step N N' \<Longrightarrow> net_reachable N'"

subsection \<open>The votes of a network state\<close>

definition net_sent :: "network \<Rightarrow> vote_kind \<Rightarrow> nat \<Rightarrow> u32 \<Rightarrow> value_id option" where
  "net_sent N k p r = (case map_of (tm_sent (net_nodes N p)) (r, k) of None \<Rightarrow> None | Some x \<Rightarrow> x)"

definition net_quorum :: "network \<Rightarrow> vote_kind \<Rightarrow> u32 \<Rightarrow> value_id \<Rightarrow> bool" where
  "net_quorum N k = has_quorum quorum (net_n N) (net_faulty N) (net_sent N k)"

definition vote_genuine :: "network \<Rightarrow> vote_kind \<Rightarrow> u32 \<Rightarrow> nat \<Rightarrow> value_id option \<Rightarrow> bool" where
  "vote_genuine N k r f x \<longleftrightarrow> f < net_n N \<and>
     (f \<in> net_faulty N \<or> map_of (tm_sent (net_nodes N f)) (r, k) = Some x)"

definition node_ok :: "network \<Rightarrow> nat \<Rightarrow> tendermint \<Rightarrow> bool" where
  "node_ok N i s \<longleftrightarrow> tm_n s = net_n N \<and> tm_height s = net_height N \<and>
     tm_me s = (if i < net_n N then Some i else None) \<and> books_ok s \<and> sent_distinct s \<and>
     (\<forall>k r f x. vote_in (tm_book s k) r f x \<longrightarrow> vote_genuine N k r f x) \<and>
     node_inv (net_quorum N Kind_Prevote) s"

definition net_inv :: "network \<Rightarrow> bool" where
  "net_inv N \<longleftrightarrow> finite (net_faulty N) \<and> 3 * card (net_faulty N) < net_n N \<and>
     (\<forall>i. i \<notin> net_faulty N \<longrightarrow> node_ok N i (net_nodes N i)) \<and>
     (\<forall>i k r x. (i, k, r, x) \<in> net_wire N \<longrightarrow>
        i \<notin> net_faulty N \<and> map_of (tm_sent (net_nodes N i)) (r, k) = Some x) \<and>
     (\<forall>i r v. (i, r, v) \<in> net_decided N \<longrightarrow> net_quorum N Kind_Precommit r v)"

text \<open>A quorum counted in the book of a correct node is a quorum of the network.\<close>

lemma book_quorum:
  assumes "books_ok s" "tm_n s = net_n N"
    "\<forall>r f x. vote_in (tm_book s k) r f x \<longrightarrow> vote_genuine N k r f x"
    "tm_quorum s \<le> tm_count s k r (Some v)"
  shows "net_quorum N k r v"
proof -
  have "{f. vote_in (tm_book s k) r f (Some v)} \<subseteq> backers (net_n N) (net_faulty N) (net_sent N k) r v"
    using assms(3) by (fastforce simp: backers_def vote_genuine_def net_sent_def)
  then have "card {f. vote_in (tm_book s k) r f (Some v)} \<le>
      card (backers (net_n N) (net_faulty N) (net_sent N k) r v)"
    by (rule card_mono [OF finite_backers])
  with assms show ?thesis
    by (simp add: net_quorum_def has_quorum_def count_voters books_ok_def tm_quorum_def)
qed

lemma net_inv_init:
  assumes "B \<subseteq> {..<n}" "3 * card B < n"
  shows "net_inv (init_net h n B to)"
proof -
  have "finite B" using assms(1) finite_subset by blast
  moreover have "node_ok (init_net h n B to) i (tm_new h n (Some i) (to i))" for i
    by (simp add: node_ok_def init_net_def tm_new_def books_ok_def tm_book_def sent_distinct_def vote_in_def
        ballots_at_def node_inv_defs has_sent_def split: vote_kind.splits)
  ultimately show ?thesis using assms(2) by (simp add: net_inv_def init_net_def)
qed


subsection \<open>Every step keeps the invariant\<close>

lemma net_quorum_mono:
  assumes "net_n N' = net_n N" "net_faulty N' = net_faulty N"
    "\<And>p e x. p \<notin> net_faulty N \<Longrightarrow> map_of (tm_sent (net_nodes N p)) e = Some x \<Longrightarrow>
       map_of (tm_sent (net_nodes N' p)) e = Some x"
    "net_quorum N k r v"
  shows "net_quorum N' k r v"
  using assms(4) unfolding net_quorum_def assms(1,2)
proof (rule has_quorum_mono)
  fix p assume "p \<notin> net_faulty N" "net_sent N k p r = Some v"
  with assms(3) show "net_sent N' k p r = Some v"
    by (auto simp: net_sent_def split: option.splits)
qed

lemma node_ok_mono:
  assumes "node_ok N i s" "net_n N' = net_n N" "net_faulty N' = net_faulty N" "net_height N' = net_height N"
    "\<And>p e x. p \<notin> net_faulty N \<Longrightarrow> map_of (tm_sent (net_nodes N p)) e = Some x \<Longrightarrow>
       map_of (tm_sent (net_nodes N' p)) e = Some x"
  shows "node_ok N' i s"
proof -
  have "node_inv (net_quorum N' Kind_Prevote) s"
    using assms(1) net_quorum_mono [OF assms(2,3,5)] by (auto simp: node_ok_def intro: node_inv_mono)
  moreover have "vote_genuine N' k r f x" if "vote_genuine N k r f x" for k r f x
    using that assms(2,3,5) by (cases "f \<in> net_faulty N") (auto simp: vote_genuine_def)
  ultimately show ?thesis using assms by (simp add: node_ok_def)
qed

text \<open>
  The node \<open>i\<close> first takes in an event, which leaves its votes alone (\<open>s0\<close>), and then makes
  micro steps.
\<close>

lemma net_inv_deliver:
  assumes inv: "net_inv N" and i: "i \<notin> net_faulty N" and ok: "node_ok N i s0"
    and same: "map_of (tm_sent s0) = map_of (tm_sent (net_nodes N i))"
    and m: "micros s0 acts t"
  shows "net_inv (deliver i (t, acts) N)"
proof -
  let ?N = "deliver i (t, acts) N"
  have N: "net_n ?N = net_n N" "net_faulty ?N = net_faulty N" "net_height ?N = net_height N"
    "net_nodes ?N = (net_nodes N)(i := t)" by (simp_all add: deliver_def)
  have mono: "map_of (tm_sent (net_nodes ?N p)) e = Some x"
    if "p \<notin> net_faulty N" "map_of (tm_sent (net_nodes N p)) e = Some x" for p e x
    using that micros_sent_mono [OF m] by (cases "p = i") (simp_all add: N same)
  have quorum_mono: "net_quorum ?N k r v" if "net_quorum N k r v" for k r v
    using mono by (rule net_quorum_mono [OF N(1,2) _ that])
  have ok0: "node_ok ?N i s0" by (rule node_ok_mono [OF ok N(1,2,3) mono])
  have genuine: "vote_genuine ?N k r f x" if "vote_in (tm_book t k) r f x" for k r f x
    using micros_vote_own [OF m that]
  proof
    assume "vote_in (tm_book s0 k) r f x"
    with ok0 show ?thesis unfolding node_ok_def by blast
  next
    assume "tm_me s0 = Some f \<and> map_of (tm_sent t) (r, k) = Some x"
    with ok0 show ?thesis by (auto simp: node_ok_def vote_genuine_def N split: if_splits)
  qed
  have bt: "books_ok t" "tm_n t = net_n ?N"
    using micros_books_ok [OF m] micros_frame [OF m] ok0 by (auto simp: node_ok_def)
  have "polkas_known (net_quorum ?N Kind_Prevote) t"
    unfolding polkas_known_def using book_quorum [OF bt] genuine by blast
  then have "node_inv (net_quorum ?N Kind_Prevote) t"
    using micros_node_inv [OF m] ok0 by (simp add: node_ok_def)
  then have okt: "node_ok ?N i t"
    using ok0 bt genuine micros_frame [OF m] micros_sent_distinct [OF m] by (simp add: node_ok_def)
  have nodes: "node_ok ?N j (net_nodes ?N j)" if "j \<notin> net_faulty N" for j
  proof (cases "j = i")
    case True
    with okt show ?thesis by (simp add: N)
  next
    case False
    with inv that have "node_ok N j (net_nodes N j)" by (simp add: net_inv_def)
    from node_ok_mono [OF this N(1,2,3) mono] False show ?thesis by (simp add: N)
  qed
  have wire: "j \<notin> net_faulty N \<and> map_of (tm_sent (net_nodes ?N j)) (r, k) = Some x"
    if "(j, k, r, x) \<in> net_wire ?N" for j k r x
  proof (cases "(j, k, r, x) \<in> net_wire N")
    case True
    with inv have "j \<notin> net_faulty N" "map_of (tm_sent (net_nodes N j)) (r, k) = Some x"
      unfolding net_inv_def by blast+
    with mono show ?thesis by blast
  next
    case False
    with that have "j = i" "Act_Vote k r x \<in> set acts" by (auto simp: deliver_def votes_of_iff)
    with micros_sent_emits [OF m] i show ?thesis by (simp add: N)
  qed
  have dec: "net_quorum ?N Kind_Precommit r v" if "(j, r, v) \<in> net_decided ?N" for j r v
  proof (cases "(j, r, v) \<in> net_decided N")
    case True
    with inv have "net_quorum N Kind_Precommit r v" unfolding net_inv_def by blast
    then show ?thesis by (rule quorum_mono)
  next
    case False
    with that have "Act_Decide r v \<in> set acts" by (auto simp: deliver_def decisions_of_iff)
    with micros_decide [OF m] ok0 have "tm_quorum t \<le> tm_count t Kind_Precommit r (Some v)"
      by (simp add: node_ok_def)
    with book_quorum [OF bt] genuine show ?thesis by blast
  qed
  show ?thesis
    unfolding net_inv_def N(1,2)
    using inv nodes wire dec by (auto simp: net_inv_def)
qed

lemma net_inv_ends:
  assumes "net_inv N" "i \<notin> net_faulty N" "node_ok N i s0"
    "map_of (tm_sent s0) = map_of (tm_sent (net_nodes N i))" "ends_in s0 [] res"
  shows "net_inv (deliver i res N)"
proof -
  from assms(5) have "micros s0 (snd res) (fst res)" by (auto simp: ends_in_def)
  from net_inv_deliver [OF assms(1-4) this] show ?thesis by simp
qed

lemma node_ok_frame:
  assumes "node_ok N i s" "tm_n t = tm_n s" "tm_height t = tm_height s" "tm_me t = tm_me s"
    "tm_prevotes t = tm_prevotes s" "tm_precommits t = tm_precommits s" "tm_sent t = tm_sent s"
    "tm_round t = tm_round s" "tm_step t = tm_step s" "tm_locked t = tm_locked s" "proposals_ok t"
  shows "node_ok N i t"
proof -
  have bk: "tm_book t k = tm_book s k" for k
    using assms by (simp add: tm_book_def split: vote_kind.splits)
  have "node_inv (net_quorum N Kind_Prevote) t"
    by (rule node_inv_cong [of _ s]) (use assms in \<open>simp_all add: node_ok_def\<close>)
  then show ?thesis using assms by (simp add: node_ok_def books_ok_def sent_distinct_def bk)
qed

lemma note_round_frame [simp]:
  "tm_n (note_round s f r) = tm_n s" "tm_height (note_round s f r) = tm_height s"
  "tm_me (note_round s f r) = tm_me s" "tm_prevotes (note_round s f r) = tm_prevotes s"
  "tm_precommits (note_round s f r) = tm_precommits s" "tm_sent (note_round s f r) = tm_sent s"
  "tm_round (note_round s f r) = tm_round s" "tm_step (note_round s f r) = tm_step s"
  "tm_locked (note_round s f r) = tm_locked s" "tm_proposals (note_round s f r) = tm_proposals s"
  by (simp_all add: note_round_def split: option.splits)

lemma node_ok_proposals: "node_ok N i s \<Longrightarrow> proposals_ok s"
  by (simp add: node_ok_def node_inv_def)

lemma node_ok_proposal:
  assumes "node_ok N i s"
  shows "node_ok N i (note_proposal r f v pol ok s)"
proof -
  have "proposals_ok (note_proposal r f v pol ok s)"
    using node_ok_proposals [OF assms]
    by (auto simp: proposals_ok_def note_proposal_def split: option.splits dest!: or_insert_cases)
  with assms show ?thesis by (rule_tac node_ok_frame [OF assms]) (simp_all add: note_proposal_def)
qed

lemma node_ok_vote:
  assumes ok: "node_ok N i s" and g: "f < net_n N \<Longrightarrow> vote_genuine N k r f x"
  shows "node_ok N i (note_vote k r f x s)"
proof (cases "f < tm_n s \<and> Some f \<noteq> tm_me s")
  case True
  let ?s1 = "note_round s f r"
  have ok1: "node_ok N i ?s1"
    by (rule node_ok_frame [OF ok]) (use node_ok_proposals [OF ok] in \<open>simp_all add: proposals_ok_def\<close>)
  have g': "vote_genuine N k r f x" using g True ok by (simp add: node_ok_def)
  have "node_inv (net_quorum N Kind_Prevote) (record_in ?s1 k r f x)"
    using ok1 by (auto simp: node_ok_def intro!: node_inv_frame [of _ ?s1])
  moreover have "books_ok (record_in ?s1 k r f x)" "sent_distinct (record_in ?s1 k r f x)"
    using ok1 by (auto simp: node_ok_def books_ok_def sent_distinct_def book_ok_record)
  moreover have "vote_genuine N k' r' f' x'" if "vote_in (tm_book (record_in ?s1 k r f x) k') r' f' x'" for k' r' f' x'
    using that ok1 g' by (auto simp: node_ok_def split: if_splits dest!: vote_in_recordD)
  ultimately have "node_ok N i (record_in ?s1 k r f x)" using ok1 by (simp add: node_ok_def)
  with True ok1 show ?thesis by (simp add: note_vote_def Let_def)
next
  case False
  then have "note_vote k r f x s = s" by (auto simp: note_vote_def)
  with ok show ?thesis by simp
qed


lemma node_ok_restart:
  assumes ok: "node_ok N i (net_nodes N i)" and i: "i \<notin> net_faulty N"
  shows "node_ok N i (restore (saved (net_nodes N i)) (tm_new (net_height N) (net_n N) (Some i) to))"
    and "map_of (tm_sent (restore (saved (net_nodes N i)) (tm_new (net_height N) (net_n N) (Some i) to))) =
      map_of (tm_sent (net_nodes N i))"
proof -
  let ?s = "net_nodes N i"
  let ?u = "(tm_new (net_height N) (net_n N) (Some i) to)\<lparr>tm_round := tm_round ?s, tm_step := tm_step ?s,
    tm_locked := tm_locked ?s, tm_valid := tm_valid ?s\<rparr>"
  let ?w = "restore_sent (sv_sent (saved ?s)) ?u"
  let ?t = "?w\<lparr>tm_resumed := True\<rparr>"
  have d: "sent_distinct ?s" using ok by (simp add: node_ok_def)
  have t: "restore (saved ?s) (tm_new (net_height N) (net_n N) (Some i) to) = ?t"
    using ok by (simp add: restore_def saved_def node_ok_def tm_new_def)
  have bk: "tm_book ?t k = tm_book ?w k" for k
    by (simp add: tm_book_def split: vote_kind.splits)
  have empty: "tm_book ?u k = []" "tm_sent ?u = []" for k
    by (simp_all add: tm_new_def tm_book_def split: vote_kind.splits)
  show sent: "map_of (tm_sent (restore (saved ?s) (tm_new (net_height N) (net_n N) (Some i) to))) = map_of (tm_sent ?s)"
    using restore_sent_map [OF saved_sent(1) [OF d], of ?u] saved_sent(2) [OF d] by (simp add: t empty)
  have me: "tm_n ?t = tm_n ?s" "tm_height ?t = tm_height ?s" "tm_me ?t = tm_me ?s"
    using ok by (simp_all add: node_ok_def tm_new_def)
  have "node_inv (net_quorum N Kind_Prevote) ?t"
  proof (rule node_inv_cong [of _ ?s])
    show "node_inv (net_quorum N Kind_Prevote) ?s" using ok by (simp add: node_ok_def)
    show "proposals_ok ?t" by (simp add: proposals_ok_def tm_new_def)
  qed (use me sent t in simp_all)
  moreover have "books_ok ?t"
    using restore_sent_books [of ?u "sv_sent (saved ?s)"] by (simp add: books_ok_def bk empty)
  moreover have "sent_distinct ?t"
    using restore_sent_distinct [of ?u "sv_sent (saved ?s)"] by (simp add: sent_distinct_def empty)
  moreover have "vote_genuine N k r f x" if "vote_in (tm_book ?t k) r f x" for k r f x
  proof -
    from restore_sent_votes [of "sv_sent (saved ?s)" ?u k r f x] that
    have "tm_me ?u = Some f" "map_of (tm_sent ?s) (r, k) = Some x"
      by (auto simp: bk empty vote_in_def ballots_at_def saved_sent(3) [OF d])
    then show ?thesis by (auto simp: tm_new_def vote_genuine_def split: if_splits)
  qed
  ultimately show "node_ok N i (restore (saved ?s) (tm_new (net_height N) (net_n N) (Some i) to))"
    using ok me by (simp add: t node_ok_def)
qed

lemma net_inv_step: "net_step N N' \<Longrightarrow> net_inv N \<Longrightarrow> net_inv N'"
proof (induction rule: net_step.induct)
  case (n_start i N ho now)
  then have ok: "node_ok N i (net_nodes N i)" by (simp add: net_inv_def)
  let ?s0 = "(net_nodes N i)\<lparr>tm_started := True\<rparr>"
  have ok0: "node_ok N i ?s0"
    by (rule node_ok_frame [OF ok]) (use node_ok_proposals [OF ok] in \<open>simp_all add: proposals_ok_def\<close>)
  from start_ends [OF n_start.hyps(2)] show ?case
  proof
    assume "start ho now (net_nodes N i) = (net_nodes N i, [])"
    with net_inv_deliver [OF n_start.prems n_start.hyps(1) ok refl micros.stop] show ?thesis by simp
  next
    assume "ends_in ?s0 [] (start ho now (net_nodes N i))"
    from net_inv_ends [OF n_start.prems n_start.hyps(1) ok0 _ this] show ?thesis by simp
  qed
next
  case (n_proposal i N ho now r f v pol ok)
  then have "node_ok N i (note_proposal r f v pol ok (net_nodes N i))"
    by (simp add: net_inv_def node_ok_proposal)
  from net_inv_ends [OF n_proposal.prems n_proposal.hyps(1) this _ progress_ends [OF n_proposal.hyps(2)]]
  show ?case by (simp add: on_proposal_def note_proposal_def)
next
  case (n_value i N ho now v ok)
  then have nok: "node_ok N i (net_nodes N i)" by (simp add: net_inv_def)
  have "node_ok N i ((net_nodes N i)\<lparr>tm_validity := or_insert (tm_validity (net_nodes N i)) v ok\<rparr>)"
    by (rule node_ok_frame [OF nok]) (use node_ok_proposals [OF nok] in \<open>simp_all add: proposals_ok_def\<close>)
  from net_inv_ends [OF n_value.prems n_value.hyps(1) this _ progress_ends [OF n_value.hyps(2)]]
  show ?case by (simp add: on_value_def)
next
  case (n_vote i N ho f k r x now)
  have "vote_genuine N k r f x" if "f < net_n N"
    using that n_vote.hyps(3) n_vote.prems unfolding net_inv_def vote_genuine_def by blast
  with n_vote have "node_ok N i (note_vote k r f x (net_nodes N i))"
    by (simp add: net_inv_def node_ok_vote)
  from net_inv_ends [OF n_vote.prems n_vote.hyps(1) this _ progress_ends [OF n_vote.hyps(2)]]
  show ?case by (simp add: on_vote_def note_vote_def Let_def)
next
  case (n_tick i N ho now)
  then have "node_ok N i (net_nodes N i)" by (simp add: net_inv_def)
  from net_inv_ends [OF n_tick.prems n_tick.hyps(1) this refl tick_ends [OF n_tick.hyps(2)]]
  show ?case .
next
  case (n_carry i N v)
  then have nok: "node_ok N i (net_nodes N i)" by (simp add: net_inv_def)
  have "node_ok N i (carry v (net_nodes N i))"
    by (rule node_ok_frame [OF nok])
      (use node_ok_proposals [OF nok] in \<open>simp_all add: proposals_ok_def carry_def\<close>)
  from net_inv_deliver [OF n_carry.prems n_carry.hyps this _ micros.stop] show ?case
    by (simp add: carry_def)
next
  case (n_restart i N to)
  then have "node_ok N i (net_nodes N i)" by (simp add: net_inv_def)
  note r = node_ok_restart [OF this n_restart.hyps, of to]
  from net_inv_deliver [OF n_restart.prems n_restart.hyps r micros.stop] show ?case .
qed

lemma net_reachable_inv: "net_reachable N \<Longrightarrow> net_inv N"
  by (induction rule: net_reachable.induct) (auto intro: net_inv_init net_inv_step)

subsection \<open>Agreement\<close>

interpretation tm_quorum_rule: quorum_rule quorum
  by unfold_locales (simp_all add: quorum_def)

interpretation tm_committee: locking_protocol quorum net_reachable net_n net_faulty
  "\<lambda>N. net_sent N Kind_Prevote" "\<lambda>N. net_sent N Kind_Precommit"
proof unfold_locales
  fix N assume "net_reachable N"
  then show "finite (net_faulty N) \<and> 3 * card (net_faulty N) < net_n N"
    using net_reachable_inv by (simp add: net_inv_def)
next
  fix N p r v
  assume N: "net_reachable N" "p < net_n N" "p \<notin> net_faulty N" "net_sent N Kind_Precommit p r = Some v"
  then have "precommit_ok (net_quorum N Kind_Prevote) (net_nodes N p)"
    using net_reachable_inv [OF N(1)] by (simp add: net_inv_def node_ok_def node_inv_def)
  with N(4) show "has_quorum quorum (net_n N) (net_faulty N) (net_sent N Kind_Prevote) r v"
    by (auto simp: precommit_ok_def net_sent_def net_quorum_def split: option.splits)
next
  fix N p r v r' v'
  assume N: "net_reachable N" "p < net_n N" "p \<notin> net_faulty N" "net_sent N Kind_Precommit p r = Some v"
    "net_sent N Kind_Prevote p r' = Some v'" "r < r'"
  then have "prevote_ok (net_quorum N Kind_Prevote) (net_nodes N p)"
    using net_reachable_inv [OF N(1)] by (simp add: net_inv_def node_ok_def node_inv_def)
  with N(4-6) have "justified (net_quorum N Kind_Prevote) r r' v'"
    by (auto simp: prevote_ok_def net_sent_def split: option.splits)
  then show "\<exists>lr lv. r \<le> lr \<and> lr < r' \<and>
      has_quorum quorum (net_n N) (net_faulty N) (net_sent N Kind_Prevote) lr lv \<and>
      (lv = v' \<or> (\<exists>vr. lr \<le> vr \<and> vr < r' \<and>
         has_quorum quorum (net_n N) (net_faulty N) (net_sent N Kind_Prevote) vr v'))"
    by (simp add: justified_def net_quorum_def)
qed

text \<open>
  C1. Agreement: whatever the schedule, the faulty validators (fewer than a third), the
  iteration order of the hash maps and the crashes and restarts, no two correct nodes ever
  decide different values at the height, in the same round or in different ones.
\<close>

theorem tendermint_agreement:
  assumes "net_reachable N" "(i, r, v) \<in> net_decided N" "(j, r', v') \<in> net_decided N"
  shows "v = v'"
proof -
  have "net_quorum N Kind_Precommit r v" "net_quorum N Kind_Precommit r' v'"
    using net_reachable_inv [OF assms(1)] assms(2,3) unfolding net_inv_def by blast+
  with tm_committee.agreement [OF assms(1)] show ?thesis by (simp add: net_quorum_def)
qed

end
