(* ===== verification/Tendermint_Props.thy ===== *)
theory Tendermint_Props
  imports Tendermint_Network
begin

section \<open>What a Tendermint node promises\<close>

text \<open>
  Properties of the handlers of one node, for every event, and of the functions they use:
  decisions are backed, valid and final, a node votes once per round and kind, the loop stops
  where no rule applies, a quorum in the book is decided, rounds are skipped only on the word
  of a correct member, the proposer rotates, the timeouts are bounded, and a restart loses no
  vote and no lock.
\<close>

subsection \<open>All handlers at once\<close>

datatype tm_event =
    Ev_Start
  | Ev_Proposal u32 nat value_id "u32 option" bool
  | Ev_Value value_id bool
  | Ev_Vote vote_kind u32 nat "value_id option"
  | Ev_Tick

fun tm_handle :: "hash_order \<Rightarrow> u64 \<Rightarrow> tm_event \<Rightarrow> tendermint \<Rightarrow> tendermint \<times> action list" where
  "tm_handle ho now Ev_Start s = start ho now s"
| "tm_handle ho now (Ev_Proposal r f v pol ok) s = on_proposal ho now r f v pol ok s"
| "tm_handle ho now (Ev_Value v ok) s = on_value ho now v ok s"
| "tm_handle ho now (Ev_Vote k r f x) s = on_vote ho now k r f x s"
| "tm_handle ho now Ev_Tick s = tick ho now s"

text \<open>The state in which the micro steps of an event begin.\<close>

fun tm_intake :: "tm_event \<Rightarrow> tendermint \<Rightarrow> tendermint" where
  "tm_intake Ev_Start s = s\<lparr>tm_started := True\<rparr>"
| "tm_intake (Ev_Proposal r f v pol ok) s = note_proposal r f v pol ok s"
| "tm_intake (Ev_Value v ok) s = s\<lparr>tm_validity := or_insert (tm_validity s) v ok\<rparr>"
| "tm_intake (Ev_Vote k r f x) s = note_vote k r f x s"
| "tm_intake Ev_Tick s = s"

lemma progress_micros:
  assumes "lists_entries ho"
  shows "micros s (snd (progress ho now s [])) (fst (progress ho now s []))"
  using progress_ends [OF assms, of s "[]" now] by (auto simp: ends_in_def)

lemma handle_micros:
  assumes "lists_entries ho"
  shows "tm_handle ho now e s = (s, []) \<or>
    micros (tm_intake e s) (snd (tm_handle ho now e s)) (fst (tm_handle ho now e s))"
proof (cases e)
  case Ev_Start
  with start_ends [OF assms, of now s] show ?thesis by (auto simp: ends_in_def)
next
  case Ev_Tick
  with tick_ends [OF assms, of s now] show ?thesis by (auto simp: ends_in_def)
qed (simp_all add: progress_micros [OF assms] on_proposal_def on_value_def on_vote_def)

lemma note_round_more [simp]:
  "tm_decision (note_round s f r) = tm_decision s" "tm_validity (note_round s f r) = tm_validity s"
  "tm_carried (note_round s f r) = tm_carried s" "tm_started (note_round s f r) = tm_started s"
  by (simp_all add: note_round_def split: option.splits)

lemma intake_frame [simp]:
  "tm_decision (tm_intake e s) = tm_decision s" "tm_sent (tm_intake e s) = tm_sent s"
  "tm_n (tm_intake e s) = tm_n s" "tm_me (tm_intake e s) = tm_me s" "tm_round (tm_intake e s) = tm_round s"
  "tm_locked (tm_intake e s) = tm_locked s"
  by (cases e; simp add: note_proposal_def note_vote_def Let_def)+

lemma intake_books_ok:
  assumes "books_ok s"
  shows "books_ok (tm_intake e s)"
proof (cases e)
  case (Ev_Vote k r f x)
  have "books_ok (note_round s f r)"
    using assms by (simp add: books_ok_def tm_book_def split: vote_kind.splits)
  with assms Ev_Vote show ?thesis
    by (auto simp: note_vote_def Let_def books_ok_def book_ok_record)
qed (use assms in \<open>auto simp: books_ok_def tm_book_def note_proposal_def Let_def split: vote_kind.splits\<close>)

lemma micros_decision:
  "micros s acts t \<Longrightarrow> (tm_decision s = Some d \<longrightarrow> tm_decision t = Some d) \<and>
     (Act_Decide r v \<in> set acts \<longrightarrow> tm_decision s = None \<and> tm_decision t = Some (r, v))"
proof (induction rule: micros.induct)
  case (more s a t b u)
  have keep: "tm_decision t = Some d \<Longrightarrow> tm_decision u = Some d" for d
    using micro_decision [OF more.hyps(2), of d] by blast
  have before: "tm_decision t = None \<Longrightarrow> tm_decision s = None"
    using more.hyps(1)
  proof (induction rule: micros.induct)
    case (more s a t b u)
    then show ?case using micro_decision [OF more.hyps(2)] by (metis option.exhaust)
  qed simp
  show ?case using more.IH keep before micro_decision [OF more.hyps(2), of _ r v] by auto
qed simp

lemma micro_quiet: "micro s acts t \<Longrightarrow> tm_decision s = Some d \<Longrightarrow> Act_Vote k r x \<notin> set acts"
  by (induction rule: micro.induct) (auto simp: start_round_def Let_def)

lemma micros_quiet:
  "micros s acts t \<Longrightarrow> tm_decision s = Some d \<Longrightarrow> Act_Vote k r x \<notin> set acts"
proof (induction rule: micros.induct)
  case (more s a t b u)
  have "tm_decision t = Some d" using micros_decision [OF more.hyps(1), of d] more.prems by blast
  with more micro_quiet [OF more.hyps(2)] show ?case by auto
qed simp

lemma micro_validity: "micro s acts t \<Longrightarrow> tm_validity t = tm_validity s \<and> tm_carried t = tm_carried s"
  by (induction rule: micro.induct)
    (simp_all add: start_round_def Let_def on_polka_def case_prod_beta)

lemma micro_decide_carried:
  "micro s acts t \<Longrightarrow> books_ok s \<Longrightarrow> Act_Decide r v \<in> set acts \<Longrightarrow> acceptable t v"
proof (induction rule: micro.induct)
  case (decide s ho r' v')
  then show ?case
    using find_decision_sound [of ho s r' v'] by (auto simp: acceptable_def)
next
  case (see_polka ho s v)
  then show ?case by (auto simp: on_polka_def Let_def case_prod_beta cast_def split: if_splits option.splits)
qed (auto simp: start_round_def Let_def cast_def split: if_splits option.splits)

lemma micros_decide_acceptable:
  "micros s acts t \<Longrightarrow> books_ok s \<Longrightarrow> Act_Decide r v \<in> set acts \<Longrightarrow> acceptable t v"
proof (induction rule: micros.induct)
  case (more s a t b u)
  have ok: "books_ok t" using micros_books_ok more by blast
  have "acceptable u v = acceptable t v"
    using micro_validity [OF more.hyps(2)] by (simp add: acceptable_def)
  with more ok micro_decide_carried [OF more.hyps(2) ok] show ?case by auto
qed simp


text \<open>
  C17. A decision is final: once a node has decided, no event changes the decision, and no
  event makes the node emit another decision or any vote.
\<close>

theorem decision_final:
  assumes "lists_entries ho" "tm_decision s = Some d"
  shows "tm_decision (fst (tm_handle ho now e s)) = Some d \<and>
    (\<forall>a \<in> set (snd (tm_handle ho now e s)). \<exists>r pol x. a = Act_Propose r pol x)"
proof -
  have "tm_decision (fst (tm_handle ho now e s)) = Some d \<and>
     (\<forall>k r x. Act_Vote k r x \<notin> set (snd (tm_handle ho now e s))) \<and>
     (\<forall>r v. Act_Decide r v \<notin> set (snd (tm_handle ho now e s)))"
    using handle_micros [OF assms(1), of now e s]
  proof
    assume m: "micros (tm_intake e s) (snd (tm_handle ho now e s)) (fst (tm_handle ho now e s))"
    from micros_decision [OF m] micros_quiet [OF m] assms(2) show ?thesis by auto
  qed (use assms in auto)
  then show ?thesis by (metis action.exhaust)
qed

subsection \<open>The loop stops where no rule applies\<close>

text \<open>A hash order that does not change with the state.\<close>

definition steady :: "hash_order \<Rightarrow> bool" where
  "steady ho \<longleftrightarrow> (\<forall>s s'. ho s = ho s')"

lemma arm_steady:
  assumes "steady ho"
  shows "find_decision ho (arm s tm r now) = find_decision ho s"
    and "polka ho (arm s tm r now) = polka ho s"
    and "skip_target (arm s tm r now) = skip_target s"
    and "verdict (arm s tm r now) = verdict s"
    and "at_rest (arm s tm r now) = at_rest s"
proof -
  have order: "ho (arm s tm r now) = ho s" using assms unfolding steady_def by blast
  have vwq: "value_with_quorum ho (arm s tm r now) k r' = value_with_quorum ho s k r'" for k r'
    unfolding value_with_quorum_def order arm_reads ..
  have "find_decision_in ho (arm s tm r now) rs = find_decision_in ho s rs" for rs
    by (induction rs) (simp_all add: vwq split: option.split)
  then show "find_decision ho (arm s tm r now) = find_decision ho s" by (simp add: find_decision_def)
  show "polka ho (arm s tm r now) = polka ho s" by (simp add: polka_def vwq split: option.split)
  show "skip_target (arm s tm r now) = skip_target s" by (simp add: skip_target_def Let_def)
  show "verdict (arm s tm r now) = verdict s" unfolding verdict_def arm_frame arm_reads ..
  show "at_rest (arm s tm r now) = at_rest s" by (simp add: at_rest_def)
qed

lemma arm_arm [simp]: "arm (arm s tm r now) tm r now = arm s tm r now"
  by (simp add: arm_def)

lemma arm_swap: "arm (arm (arm s a r now) b r now) a r now = arm (arm s a r now) b r now"
  by (simp add: arm_def)

definition arm_prevote :: "tendermint \<Rightarrow> u64 \<Rightarrow> tendermint" where
  "arm_prevote s now =
     (if tm_step s = Step_Prevote \<and> tm_quorum s \<le> tm_count_any s Kind_Prevote (tm_round s)
      then arm s Timer_Prevote (tm_round s) now else s)"

lemma arm_prevote_frame:
  "tm_step (arm_prevote s now) = tm_step s" "tm_count (arm_prevote s now) k r v = tm_count s k r v"
  "tm_count_any (arm_prevote s now) k r = tm_count_any s k r"
  by (simp_all add: arm_prevote_def)

lemma arm_prevote_polka: "steady ho \<Longrightarrow> polka ho (arm_prevote s now) = polka ho s"
  by (simp add: arm_prevote_def arm_steady)

lemma arm_prevote_again:
  "arm_prevote (arm_prevote s now) now = arm_prevote s now \<and>
   arm_prevote (arm (arm_prevote s now) tm (tm_round s) now) now = arm (arm_prevote s now) tm (tm_round s) now"
proof (cases "tm_step s = Step_Prevote \<and> tm_quorum s \<le> tm_count_any s Kind_Prevote (tm_round s)")
  case True
  then have "arm_prevote s now = arm s Timer_Prevote (tm_round s) now" by (simp add: arm_prevote_def)
  with True show ?thesis by (simp add: arm_prevote_def arm_swap)
next
  case False
  then have "arm_prevote s now = s" unfolding arm_prevote_def by (rule if_not_P)
  moreover have "arm_prevote (arm s tm (tm_round s) now) now = arm s tm (tm_round s) now"
    unfolding arm_prevote_def arm_frame arm_reads using False by (rule if_not_P)
  ultimately show ?thesis by simp
qed

lemma progress_rest_steady:
  assumes "steady ho"
  shows "progress_rest ho now s out =
    (case polka ho s of
       Some v \<Rightarrow> Continue (on_polka v (arm_prevote s now) out)
     | None \<Rightarrow>
         if tm_step s = Step_Prevote \<and> tm_quorum s \<le> tm_count s Kind_Prevote (tm_round s) None
         then Continue ((fst (cast Kind_Precommit None (arm_prevote s now) out))\<lparr>tm_step := Step_Precommit\<rparr>,
                snd (cast Kind_Precommit None (arm_prevote s now) out))
         else Return (if tm_quorum s \<le> tm_count_any s Kind_Precommit (tm_round s)
                      then arm (arm_prevote s now) Timer_Precommit (tm_round s) now
                      else arm_prevote s now, out))"
  by (simp only: progress_rest_def Let_def arm_prevote_def [symmetric] arm_prevote_frame
      arm_prevote_polka [OF assms] case_prod_beta)

lemma progress_rest_again:
  assumes "steady ho" "progress_rest ho now s out = Return (t, o1)"
  shows "progress_rest ho now t out = Return (t, out) \<and> o1 = out \<and>
    (t = s \<or> (\<exists>a. t = arm s a (tm_round s) now) \<or>
      (\<exists>a b. t = arm (arm s a (tm_round s) now) b (tm_round s) now))"
proof -
  let ?b = "tm_quorum s \<le> tm_count_any s Kind_Precommit (tm_round s)"
  have pk: "polka ho s = None"
    using assms(2) by (cases "polka ho s") (simp_all add: progress_rest_steady [OF assms(1)])
  have nil: "\<not> (tm_step s = Step_Prevote \<and> tm_quorum s \<le> tm_count s Kind_Prevote (tm_round s) None)"
    using assms(2) pk by (auto simp: progress_rest_steady [OF assms(1)] simp del: de_Morgan_conj)
  have t: "t = (if ?b then arm (arm_prevote s now) Timer_Precommit (tm_round s) now else arm_prevote s now)"
      and "o1 = out"
    using assms(2) pk nil by (simp_all add: progress_rest_steady [OF assms(1)] del: de_Morgan_conj)
  have shape: "t = s \<or> (\<exists>a. t = arm s a (tm_round s) now) \<or>
      (\<exists>a b. t = arm (arm s a (tm_round s) now) b (tm_round s) now)"
    unfolding t arm_prevote_def by auto
  then have same: "polka ho t = polka ho s" "tm_step t = tm_step s" "tm_round t = tm_round s"
      "tm_quorum t = tm_quorum s" "tm_count t = tm_count s" "tm_count_any t = tm_count_any s"
    by (elim disjE exE; simp add: arm_steady(2) [OF assms(1)] ext)+
  have "arm_prevote t now = t"
    unfolding t by (simp add: arm_prevote_again)
  moreover have "?b \<Longrightarrow> arm t Timer_Precommit (tm_round t) now = t"
    unfolding t by (simp add: arm_prevote_def)
  ultimately have "(if ?b then arm (arm_prevote t now) Timer_Precommit (tm_round t) now else arm_prevote t now) = t"
    by simp
  with pk nil have "progress_rest ho now t out = Return (t, out)"
    by (simp add: progress_rest_steady [OF assms(1)] same del: de_Morgan_conj split del: if_split)
  with shape \<open>o1 = out\<close> show ?thesis by blast
qed

lemma settle_rest:
  assumes "tm_decision (fst (settle ho s out)) = None"
  shows "settle ho s out = (s, out) \<and> find_decision ho s = None"
  using assms by (auto simp: settle_def split: if_splits option.splits)

lemma progress_body_again:
  assumes "steady ho" "progress_body ho now s out = Return (t, o1)"
  shows "progress_body ho now t o1 = Return (t, o1)"
proof (cases "tm_decision (fst (settle ho s out)) = None")
  case False
  then have "at_rest (fst (settle ho s out))" by (simp add: at_rest_def)
  with assms(2) have "settle ho s out = (t, o1)"
    by (simp add: progress_body_def case_prod_beta prod_eq_iff)
  with False have "tm_decision t \<noteq> None" by simp
  then show ?thesis by (auto simp: progress_body_def settle_def at_rest_def)
next
  case True
  note s = settle_rest [OF True]
  have d: "tm_decision s = None" using True s by simp
  show ?thesis
  proof (cases "at_rest s")
    case True
    with assms(2) s show ?thesis by (auto simp: progress_body_def)
  next
    case False
    with assms(2) s have skip: "skip_target s = None"
      by (cases "skip_target s") (simp_all add: progress_body_def)
    define verd where "verd = (if tm_step s = Step_Propose then verdict s else None)"
    have v: "verd = None"
      using False assms(2) s skip by (cases verd) 
        (auto simp: progress_body_def verd_def [symmetric] Let_def split: prod.splits)
    have r: "progress_rest ho now s out = Return (t, o1)"
      using False assms(2) s skip v by (simp add: progress_body_def verd_def [symmetric])
    note again = progress_rest_again [OF assms(1) r]
    then have same: "find_decision ho t = find_decision ho s" "skip_target t = skip_target s"
        "verdict t = verdict s" "at_rest t = at_rest s" "tm_step t = tm_step s" "tm_decision t = tm_decision s"
      by (auto simp: arm_steady [OF assms(1)])
    have "settle ho t out = (t, out)" using s d by (simp add: settle_def same)
    then show ?thesis
      using again skip v False by (simp add: progress_body_def same verd_def split: if_splits)
  qed
qed

lemma progress_quiet:
  "steady ho \<Longrightarrow> progress ho now s out = (t, o1) \<Longrightarrow> progress_body ho now t o1 = Return (t, o1)"
proof (induction ho now s out rule: progress.induct)
  case (1 ho now s out)
  note unfold = progress.simps [of ho now s out]
  show ?case
  proof (cases "progress_body ho now s out")
    case (Return res)
    then have "res = (t, o1)" using "1.prems"(2) unfold by simp
    with Return "1.prems"(1) show ?thesis by (simp only: progress_body_again)
  next
    case (Continue res)
    obtain s' out' where res: "res = (s', out')" by force
    then have "progress ho now s' out' = (t, o1)" using "1.prems"(2) unfold Continue by simp
    then show ?thesis using "1.IH" [OF Continue res [symmetric] "1.prems"(1)] by blast
  qed
qed


subsection \<open>A quorum is decided\<close>

lemma find_decision_in_found:
  "r \<in> set rs \<Longrightarrow> value_with_quorum ho s Kind_Precommit r = Some v \<Longrightarrow> acceptable s v \<Longrightarrow>
     find_decision_in ho s rs \<noteq> None"
  by (induction rs) (auto split: option.splits)

lemma find_decision_found:
  assumes "lists_entries ho" "books_ok s" "tm_quorum s \<le> tm_count s Kind_Precommit r (Some v)"
    "acceptable s v" "\<And>v'. tm_quorum s \<le> tm_count s Kind_Precommit r (Some v') \<Longrightarrow> v' = v"
  shows "find_decision ho s \<noteq> None"
proof -
  have ok: "book_ok (tm_book s Kind_Precommit)" using assms(2) by (simp add: books_ok_def)
  obtain v' where v': "value_with_quorum ho s Kind_Precommit r = Some v'"
    using value_with_quorum_found [OF assms(1) ok assms(3)] by blast
  with assms(5) value_with_quorum_count [OF assms(1) ok v'] have "v' = v" by blast
  moreover have "r \<in> set (map fst (tm_precommits s))"
    using v' by (auto simp: value_with_quorum_def tm_book_def split: option.splits intro: weak_map_of_SomeI dest!: map_of_SomeD) force
  ultimately show ?thesis
    using find_decision_in_found [OF _ _ assms(4)] v' by (auto simp: find_decision_def)
qed


subsection \<open>Skipping rounds\<close>

lemma rev_sort_ge:
  fixes l :: "'a::linorder list"
  assumes "i < length l"
  shows "Suc i \<le> length (filter (\<lambda>x. rev (sort l) ! i \<le> x) l)"
proof -
  let ?s = "rev (sort l)"
  have "?s ! i \<le> ?s ! j" if "j \<le> i" for j
    using that assms sorted_nth_mono [OF sorted_sort, of "length l - Suc i" "length l - Suc j" l]
    by (simp add: rev_nth)
  then have "\<forall>x \<in> set (take (Suc i) ?s). ?s ! i \<le> x"
    using assms by (auto simp: in_set_conv_nth)
  then have "filter (\<lambda>x. ?s ! i \<le> x) (take (Suc i) ?s) = take (Suc i) ?s" by simp
  then have "Suc i = length (filter (\<lambda>x. ?s ! i \<le> x) (take (Suc i) ?s))" using assms by simp
  also have "\<dots> \<le> length (filter (\<lambda>x. ?s ! i \<le> x) (take (Suc i) ?s @ drop (Suc i) ?s))"
    by (simp only: filter_append length_append le_add1)
  also have "\<dots> = length (filter (\<lambda>x. ?s ! i \<le> x) ?s)" by (simp only: append_take_drop_id)
  also have "\<dots> = length (filter (\<lambda>x. ?s ! i \<le> x) l)"
    by (simp only: rev_filter [symmetric] filter_sort length_rev length_sort)
  finally show ?thesis .
qed

lemma skip_target_members:
  assumes "skip_target s = Some r" "distinct (map fst (tm_highest s))"
  shows "skip_threshold (tm_n s) \<le> card {f. Some f \<noteq> tm_me s \<and> (\<exists>h. map_of (tm_highest s) f = Some h \<and> r \<le> h)}"
proof -
  let ?other = "\<lambda>(who, _). Some who \<noteq> tm_me s"
  let ?l = "map snd (filter ?other (tm_highest s))"
  let ?i = "skip_threshold (tm_n s) - 1"
  let ?sel = "filter (\<lambda>(who, h). Some who \<noteq> tm_me s \<and> r \<le> h) (tm_highest s)"
  have i: "?i < length ?l" and r: "r = rev (sort ?l) ! ?i"
    using assms(1) by (auto simp: skip_target_def Let_def split: if_splits)
  have "skip_threshold (tm_n s) = Suc ?i" by (simp add: skip_threshold_def)
  also have "\<dots> \<le> length (filter (\<lambda>x. r \<le> x) ?l)" using rev_sort_ge [OF i] r by simp
  also have "\<dots> = length ?sel"
    by (simp add: filter_map comp_def case_prod_unfold conj_commute)
  also have "\<dots> = card (set (map fst ?sel))"
  proof -
    have "distinct (map fst ?sel)" using assms(2) by (rule distinct_map_filter)
    then show ?thesis by (simp only: distinct_card length_map)
  qed
  also have "set (map fst ?sel) = {f. Some f \<noteq> tm_me s \<and> (\<exists>h. map_of (tm_highest s) f = Some h \<and> r \<le> h)}"
    using assms(2) by force
  finally show ?thesis .
qed


subsection \<open>Proposers and timeouts\<close>

text \<open>
  The proposer rotates: over any \<open>n\<close> consecutive rounds in which neither the height plus
  the round nor the round itself leaves its width, each of the \<open>n\<close> members proposes exactly
  once.
\<close>

theorem proposer_rotates:
  assumes "0 < tm_n s" "i < tm_n s" "unat (tm_height s) + unat r + tm_n s < 2 ^ 64" "unat r + tm_n s \<le> 2 ^ 32"
  shows "\<exists>!k. k < tm_n s \<and> tm_proposer s (r + of_nat k) = i"
proof -
  let ?n = "tm_n s" and ?h = "unat (tm_height s) + unat r"
  have val: "tm_proposer s (r + of_nat k) = (?h + k) mod ?n" if k: "k < ?n" for k
  proof -
    have "k < 2 ^ 32" "unat r + k < 2 ^ 32" using assms(4) k by simp_all
    then have rk: "unat (r + of_nat k) = unat r + k"
      by (simp add: unat_word_ariths unsigned_of_nat take_bit_nat_eq_self)
    have "unat (ucast (r + of_nat k) :: u64) = unat r + k"
      using \<open>unat r + k < 2 ^ 32\<close> by (simp add: unsigned_ucast_eq rk take_bit_nat_eq_self)
    then have "unat (tm_height s + ucast (r + of_nat k)) = ?h + k"
      using assms(3) k by (simp add: unat_word_ariths)
    moreover have "unat (of_nat ?n :: u64) = ?n"
      using assms(3) by (simp add: unsigned_of_nat take_bit_nat_eq_self)
    ultimately show ?thesis using assms(1) by (simp add: tm_proposer_def unat_mod)
  qed
  have "\<exists>!k. k < ?n \<and> (?h + k) mod ?n = i"
  proof (rule ex1I)
    let ?k = "(i + (?n - ?h mod ?n)) mod ?n"
    have "(?h + ?k) mod ?n = (?h mod ?n + (i + (?n - ?h mod ?n))) mod ?n" by (simp add: mod_add_eq mod_add_right_eq mod_add_left_eq)
    also have "?h mod ?n + (i + (?n - ?h mod ?n)) = i + ?n"
      using mod_less_divisor [OF assms(1), of ?h] by linarith
    finally show "?k < ?n \<and> (?h + ?k) mod ?n = i" using assms(1,2) by simp
    note uni = conjunct1 [OF this] conjunct2 [OF this]
    fix k assume k: "k < ?n \<and> (?h + k) mod ?n = i"
    then show "k = ?k" using mod_add_inj [OF _ _ uni(1), of ?h k] uni(2) by metis
  qed
  with val show ?thesis by (metis (lifting))
qed

text \<open>
  The timeouts are bounded and never shrink: a timeout lies between its base and the larger
  of the base and the cap, and from round 1 on it does not decrease from round to round.
\<close>

theorem timeout_bounds:
  "timeout_base t tm r \<le> timeout_of t tm r \<and> timeout_of t tm r \<le> max (cap_ms t) (timeout_base t tm r) \<and>
   (0 < r \<longrightarrow> r \<le> r' \<longrightarrow> timeout_of t tm r \<le> timeout_of t tm r')"
proof (intro conjI impI)
  let ?b = "timeout_base t tm r"
  show "?b \<le> timeout_of t tm r"
    by (simp add: timeout_of_def Let_def le_sat_add)
  show "timeout_of t tm r \<le> max (cap_ms t) ?b"
    by (simp add: timeout_of_def Let_def)
  assume r: "0 < r" "r \<le> r'"
  have b: "timeout_base t tm r' = ?b" using r by (auto simp: timeout_base_def split: timer.splits)
  have "unat (ucast r :: u64) \<le> unat (ucast r' :: u64)"
    using r(2) by (simp add: unsigned_ucast_eq word_le_nat_alt take_bit_nat_eq_self
        order.strict_trans1 [OF less_imp_le [OF unsigned_less]] )
  then have "unat (sat_mul (per_round_ms t) (ucast r)) \<le> unat (sat_mul (per_round_ms t) (ucast r'))"
    unfolding unat_sat_mul by (intro min.mono mult_le_mono order_refl)
  then have "sat_add ?b (sat_mul (per_round_ms t) (ucast r)) \<le> sat_add ?b (sat_mul (per_round_ms t) (ucast r'))"
    unfolding word_le_nat_alt unat_sat_add by (intro min.mono add_le_mono order_refl)
  then show "timeout_of t tm r \<le> timeout_of t tm r'"
    unfolding timeout_of_def Let_def b by (intro min.mono order_refl)
qed

subsection \<open>Restarts and votes on the wire\<close>

lemma sent_key_eq: "sent_key (r, k, v) = sent_key (r', k', v') \<longleftrightarrow> r = r' \<and> k = k'"
proof -
  have "2 * unat r + kind_rank k = 2 * unat r' + kind_rank k' \<longleftrightarrow> unat r = unat r' \<and> kind_rank k = kind_rank k'"
    by (cases k; cases k'; simp add: kind_rank_def; presburger)
  then show ?thesis by (cases k; cases k') (simp_all add: sent_key_def kind_rank_def word_unat_eq_iff)
qed

lemma saved_sent_eq:
  assumes "sent_distinct t" "sent_distinct s" "map_of (tm_sent t) = map_of (tm_sent s)"
  shows "sv_sent (saved t) = sv_sent (saved s)"
proof (rule map_sorted_distinct_set_unique [where f = sent_key])
  have inj: "inj_on sent_key (set (sv_sent (saved u)))" and dis: "distinct (sv_sent (saved u))"
    if "sent_distinct u" for u
  proof -
    have "distinct (map (\<lambda>(r, k, _). (r, k)) (sv_sent (saved u)))" by (rule saved_sent(1) [OF that])
    then have d: "inj_on (\<lambda>(r, k, _). (r, k)) (set (sv_sent (saved u)))" "distinct (sv_sent (saved u))"
      by (simp_all add: distinct_map)
    show "distinct (sv_sent (saved u))" by (rule d(2))
    show "inj_on sent_key (set (sv_sent (saved u)))"
    proof (rule inj_onI)
      fix a b assume "a \<in> set (sv_sent (saved u))" "b \<in> set (sv_sent (saved u))" "sent_key a = sent_key b"
      moreover obtain r k v r' k' v' where "a = (r, k, v)" "b = (r', k', v')" by (metis prod_cases3)
      ultimately show "a = b" using inj_onD [OF d(1), of a b] by (simp add: sent_key_eq)
    qed
  qed
  show set: "set (sv_sent (saved t)) = set (sv_sent (saved s))"
    using saved_sent(3) [OF assms(1)] saved_sent(3) [OF assms(2)] assms(3) by auto
  show "inj_on sent_key (set (sv_sent (saved t)) \<union> set (sv_sent (saved s)))"
    using inj [OF assms(2)] by (simp add: set)
  show "distinct (map sent_key (sv_sent (saved t)))" "distinct (map sent_key (sv_sent (saved s)))"
    using inj dis assms(1,2) by (simp_all add: distinct_map)
  show "sorted (map sent_key (sv_sent (saved t)))" "sorted (map sent_key (sv_sent (saved s)))"
    by (simp_all add: saved_def)
qed

text \<open>
  C26. A restart loses no promise: the state a node saves, restored into a fresh node of the
  same height, gives back the round, the step, the lock, the valid value and exactly the votes
  the node had sent, so \<open>saved\<close> of the restored node is the same saved state again.
\<close>

theorem restart_keeps_votes:
  assumes "sent_distinct s" "t = restore (saved s) (tm_new (tm_height s) n me to)"
  shows "tm_round t = tm_round s \<and> tm_step t = tm_step s \<and> tm_locked t = tm_locked s \<and>
    tm_valid t = tm_valid s \<and> map_of (tm_sent t) = map_of (tm_sent s) \<and> tm_resumed t \<and> saved t = saved s"
proof -
  let ?u = "(tm_new (tm_height s) n me to)\<lparr>tm_round := tm_round s, tm_step := tm_step s,
        tm_locked := tm_locked s, tm_valid := tm_valid s\<rparr>"
  have t: "t = (restore_sent (sv_sent (saved s)) ?u)\<lparr>tm_resumed := True\<rparr>"
    by (simp add: assms(2) restore_def saved_def tm_new_def)
  have d: "sent_distinct t"
    using restore_sent_distinct [of ?u "sv_sent (saved s)"] by (simp add: t tm_new_def sent_distinct_def)
  have m: "map_of (tm_sent t) = map_of (tm_sent s)"
    using restore_sent_map [OF saved_sent(1) [OF assms(1)], of ?u] saved_sent(2) [OF assms(1)]
    by (simp add: t tm_new_def)
  have "sv_sent (saved t) = sv_sent (saved s)" by (rule saved_sent_eq [OF d assms(1) m])
  then have "saved t = saved s" by (simp add: t saved_def tm_new_def)
  then show ?thesis using m by (simp add: t)
qed

text \<open>
  C2. A correct member never equivocates: over any run of the committee, crashes and restarts
  included, the votes it has put on the wire hold at most one value for each round and kind.
\<close>

theorem no_equivocation:
  assumes "net_reachable N" "(i, k, r, x) \<in> net_wire N" "(i, k, r, y) \<in> net_wire N"
  shows "x = y"
  using net_reachable_inv [OF assms(1)] assms(2,3) unfolding net_inv_def by (metis option.inject)

end
