(* ===== verification/Tendermint_Run.thy ===== *)
theory Tendermint_Run
  imports Tendermint_Props
begin

section \<open>Runs of the committee\<close>

text \<open>
  An executable schedule of events for a committee, sound for reachability, and a concrete run:
  four members, the last of them faulty, of which members 0 and 1 decide. The properties of the
  Tendermint theories are applied to it.
\<close>

fun net_allowed :: "network \<Rightarrow> nat \<Rightarrow> tm_event \<Rightarrow> bool" where
  "net_allowed N i (Ev_Vote k r f x) \<longleftrightarrow> i \<notin> net_faulty N \<and> (f \<in> net_faulty N \<or> (f, k, r, x) \<in> net_wire N)"
| "net_allowed N i e \<longleftrightarrow> i \<notin> net_faulty N"

fun net_run :: "hash_order \<Rightarrow> u64 \<Rightarrow> (nat \<times> tm_event) list \<Rightarrow> network \<Rightarrow> network option" where
  "net_run ho now [] N = Some N"
| "net_run ho now ((i, e) # es) N =
     (if net_allowed N i e then net_run ho now es (deliver i (tm_handle ho now e (net_nodes N i)) N) else None)"

lemma net_allowed_step:
  assumes "net_allowed N i e" "lists_entries ho"
  shows "net_step N (deliver i (tm_handle ho now e (net_nodes N i)) N)"
  using assms by (cases e) (auto intro: net_step.intros)

lemma net_run_reachable:
  "net_reachable N \<Longrightarrow> lists_entries ho \<Longrightarrow> net_run ho now es N = Some N' \<Longrightarrow> net_reachable N'"
proof (induction ho now es N rule: net_run.induct)
  case (2 ho now i e es N)
  then have "net_allowed N i e" by (simp split: if_splits)
  with 2 show ?case by (auto intro: net_reachable.step net_allowed_step)
qed simp

definition table_order :: hash_order where
  "table_order s k r t = t"

lemma table_order [simp]: "lists_entries table_order" "steady table_order"
  by (simp_all add: table_order_def lists_entries_def steady_def fun_eq_iff)

lemmas tm_eval = start_def on_proposal_def on_value_def on_vote_def tick_def fire_def note_proposal_def note_vote_def
  note_round_def progress.simps progress_body_def progress_rest_def settle_def
  at_rest_def skip_target_def verdict_def polka_def on_polka_def cast_def start_round_def arm_def
  has_sent_def record_in_def record_vote_def
  ballots_at_def tm_book_def tm_count_def tm_count_any_def value_with_quorum_def tally_add_def
  find_decision_def acceptable_def
  tm_quorum_def quorum_def skip_threshold_def tm_proposer_def timeout_of_def timeout_base_def tm_new_def
  default_timeouts_def or_insert_def
  ROUND_WINDOW_def VALUES_PER_VOTER_def sat_add_def sat_mul_def table_order_def Let_def

lemmas net_eval = tm_eval deliver_def votes_of_def decisions_of_def init_net_def

definition demo_net :: network where
  "demo_net = init_net 0 4 {3} (\<lambda>_. default_timeouts)"

definition demo_schedule :: "(nat \<times> tm_event) list" where
  "demo_schedule =
    [(0, Ev_Start), (1, Ev_Start), (2, Ev_Start),
     (0, Ev_Proposal 0 0 7 None True), (1, Ev_Proposal 0 0 7 None True), (2, Ev_Proposal 0 0 7 None True),
     (0, Ev_Vote Kind_Prevote 0 1 (Some 7)), (0, Ev_Vote Kind_Prevote 0 2 (Some 7)),
     (1, Ev_Vote Kind_Prevote 0 0 (Some 7)), (1, Ev_Vote Kind_Prevote 0 2 (Some 7)),
     (0, Ev_Vote Kind_Precommit 0 1 (Some 7)), (0, Ev_Vote Kind_Precommit 0 3 (Some 7)),
     (1, Ev_Vote Kind_Precommit 0 0 (Some 7)), (1, Ev_Vote Kind_Precommit 0 3 (Some 7))]"

lemma demo_init: "net_reachable demo_net"
  unfolding demo_net_def by (rule net_reachable.init) auto

lemma demo_run: "\<exists>N. net_run table_order 0 demo_schedule demo_net = Some N \<and>
   (0, 0, 7) \<in> net_decided N \<and> (1, 0, 7) \<in> net_decided N \<and> (0, Kind_Prevote, 0, Some 7) \<in> net_wire N"
  by (simp add: demo_schedule_def demo_net_def net_eval)

lemma new_ok: "books_ok (tm_new h n me to)" "sent_distinct (tm_new h n me to)"
  by (simp_all add: books_ok_def sent_distinct_def tm_new_def tm_book_def split: vote_kind.splits)

lemma handle_books_ok:
  assumes "lists_entries ho" "books_ok s"
  shows "books_ok (fst (tm_handle ho now e s))"
  using handle_micros [OF assms(1), of now e s] micros_books_ok intake_books_ok [OF assms(2)] assms(2) by auto

lemma handle_sent_distinct:
  assumes "lists_entries ho" "sent_distinct s"
  shows "sent_distinct (fst (tm_handle ho now e s))"
proof -
  have "sent_distinct (tm_intake e s)" using assms(2) by (simp add: sent_distinct_def)
  with handle_micros [OF assms(1), of now e s] micros_sent_distinct assms(2) show ?thesis by auto
qed

text \<open>A committee of one member at height 5, before and after the proposal it decides.\<close>

definition solo_before :: tendermint where
  "solo_before = fst (tm_handle table_order 0 Ev_Start (tm_new 5 1 (Some 0) default_timeouts))"

definition solo_proposal :: tm_event where
  "solo_proposal = Ev_Proposal 0 0 7 None True"

definition solo_after :: tendermint where
  "solo_after = fst (tm_handle table_order 0 solo_proposal solo_before)"

lemma solo_ok: "books_ok solo_before" "sent_distinct solo_after"
  unfolding solo_before_def solo_after_def
  by (intro handle_books_ok handle_sent_distinct new_ok table_order)+

lemma solo_decides: "snd (tm_handle table_order 0 solo_proposal solo_before) =
    [Act_Vote Kind_Prevote 0 (Some 7), Act_Vote Kind_Precommit 0 (Some 7), Act_Decide 0 7]"
  by (simp add: solo_before_def solo_proposal_def tm_eval)

lemma solo_decision: "tm_decision solo_after = Some (0, 7)" "tm_n solo_before = 1"
  by (simp_all add: solo_after_def solo_before_def solo_proposal_def tm_eval)

subsection \<open>The properties at work\<close>

theorem tendermint_agreement_witness:
  "\<exists>N v. net_reachable N \<and> (0, 0, 7) \<in> net_decided N \<and> (1, 0, v) \<in> net_decided N \<and> 7 = v"
proof -
  obtain N where run: "net_run table_order 0 demo_schedule demo_net = Some N"
    and d: "(0, 0, 7) \<in> net_decided N" "(1, 0, 7) \<in> net_decided N"
    using demo_run by blast
  have r: "net_reachable N" by (rule net_run_reachable [OF demo_init table_order(1) run])
  from tendermint_agreement [OF r d] r d show ?thesis by blast
qed

theorem no_equivocation_witness:
  "\<exists>N x. net_reachable N \<and> (0, Kind_Prevote, 0, Some 7) \<in> net_wire N \<and> (0, Kind_Prevote, 0, x) \<in> net_wire N \<and> Some 7 = x"
proof -
  obtain N where run: "net_run table_order 0 demo_schedule demo_net = Some N"
    and w: "(0, Kind_Prevote, 0, Some 7) \<in> net_wire N"
    using demo_run by blast
  have r: "net_reachable N" by (rule net_run_reachable [OF demo_init table_order(1) run])
  from no_equivocation [OF r w w] r w show ?thesis by blast
qed


theorem decision_final_witness:
  "tm_decision solo_after = Some (0, 7) \<and>
   tm_decision (fst (tm_handle table_order 9 (Ev_Vote Kind_Precommit 1 0 (Some 8)) solo_after)) = Some (0, 7)"
  using decision_final [OF table_order(1) solo_decision(1), of 9 "Ev_Vote Kind_Precommit 1 0 (Some 8)"]
  by (simp add: solo_decision)


text \<open>An observer of the same committee that has been told the value 7 is valid.\<close>

definition watcher :: tendermint where
  "watcher = fst (tm_handle table_order 0 (Ev_Value 7 True) (tm_new 5 1 None default_timeouts))"


definition lagging :: tendermint where
  "lagging = note_round (note_round (tm_new 0 4 (Some 0) default_timeouts) 1 2) 2 3"


theorem proposer_rotates_witness:
  "\<exists>!k. k < 4 \<and> tm_proposer (tm_new 5 4 (Some 0) default_timeouts) (1 + of_nat k) = 3"
  using proposer_rotates [of "tm_new 5 4 (Some 0) default_timeouts" 3 1] by (simp add: tm_new_def)

theorem timeout_bounds_witness:
  "timeout_of default_timeouts Timer_Prevote 1 \<le> timeout_of default_timeouts Timer_Prevote 5 \<and>
   timeout_of default_timeouts Timer_Prevote 5 \<le> 60000"
  using timeout_bounds [of default_timeouts Timer_Prevote 1 5] timeout_bounds [of default_timeouts Timer_Prevote 5 5]
  by (simp add: default_timeouts_def timeout_base_def)

theorem restart_keeps_votes_witness:
  "map_of (tm_sent (restore (saved solo_after) (tm_new 5 1 (Some 0) default_timeouts))) = map_of (tm_sent solo_after)"
proof -
  have "tm_height solo_after = 5" by (simp add: solo_after_def solo_before_def solo_proposal_def tm_eval)
  then show ?thesis
    using restart_keeps_votes [OF solo_ok(2) refl, of 1 "Some 0" default_timeouts] by simp
qed

end
