(* ===== verification/Codec.thy ===== *)
theory Codec
  imports Ego_Prelude
begin

section \<open>Byte codecs\<close>

text \<open>
  The contract of an encoder and a decoder that may refuse: what is well formed decodes to
  itself, and what is accepted was produced by the encoder from something well formed. It
  follows that the encoder is injective and that the accepted byte strings are exactly the
  encodings, so no value has two encodings. The key and signature formats, the escrow account
  and the contract ABI are instances.
\<close>

locale codec =
  fixes enc :: "'a \<Rightarrow> bytes" and dec :: "bytes \<Rightarrow> 'e + 'a" and ok :: "'a \<Rightarrow> bool"
  assumes dec_enc: "ok x \<Longrightarrow> dec (enc x) = Inr x"
    and enc_dec: "dec b = Inr x \<Longrightarrow> ok x \<and> enc x = b"
begin

lemma enc_inj: "ok x \<Longrightarrow> ok y \<Longrightarrow> enc x = enc y \<Longrightarrow> x = y"
  using dec_enc by (metis sum.inject(2))

lemma dec_inj: "dec a = Inr x \<Longrightarrow> dec b = Inr x \<Longrightarrow> a = b"
  using enc_dec by metis

lemma accepted: "(\<exists>x. dec b = Inr x) \<longleftrightarrow> b \<in> enc ` {x. ok x}"
  using dec_enc enc_dec by blast

lemma canonical: "ok x \<Longrightarrow> dec b = Inr x \<longleftrightarrow> b = enc x"
  using dec_enc enc_dec by blast

end

text \<open>Reading a fixed number of bytes, and the pieces of an encoding of fixed widths.\<close>

lemma take_append_exact [simp]: "length a = n \<Longrightarrow> take n (a @ b) = a"
  by simp

lemma drop_append_exact [simp]: "length a = n \<Longrightarrow> drop n (a @ b) = b"
  by simp

lemma append_split: "length a = length c \<Longrightarrow> a @ b = c @ d \<longleftrightarrow> a = c \<and> b = d"
  by simp

text \<open>Pieces of the same widths can be told apart in their concatenation.\<close>

lemma concat_widths_inj: "map length xs = map length ys \<Longrightarrow> concat xs = concat ys \<Longrightarrow> xs = ys"
proof (induction xs arbitrary: ys)
  case (Cons x xs)
  then obtain y zs where ys: "ys = y # zs" by (cases ys) auto
  with Cons.prems have "x = y" "concat xs = concat zs" by simp_all
  with Cons ys show ?case by simp
qed simp

lemma le_bytes_word_inj:
  fixes x y :: "'a::len word"
  assumes "le_bytes w (unat x) = le_bytes w (unat y)" "2 ^ LENGTH('a) \<le> (256::nat) ^ w"
  shows "x = y"
proof -
  have "unat x < 256 ^ w" "unat y < 256 ^ w"
    using assms(2) unsigned_less [of x] unsigned_less [of y] by (meson order.strict_trans2)+
  then have "unat x = unat y" using le_bytes_inj [OF assms(1)] by simp
  then show ?thesis by (simp add: word_unat_eq_iff)
qed

lemma word_of_le_bytes:
  fixes x :: "'a::len word"
  assumes "2 ^ LENGTH('a) \<le> (256::nat) ^ w"
  shows "of_nat (le_nat (le_bytes w (unat x))) = x"
proof -
  have "unat x < 256 ^ w" using assms unsigned_less [of x] by (meson order.strict_trans2)
  then show ?thesis by simp
qed

text \<open>\<open>to_le_bytes\<close> at the widths of the code, and \<open>from_le_bytes\<close>.\<close>

definition le16 :: "u16 \<Rightarrow> bytes" where "le16 x = le_bytes 2 (unat x)"
definition le32 :: "u32 \<Rightarrow> bytes" where "le32 x = le_bytes 4 (unat x)"
definition le64 :: "u64 \<Rightarrow> bytes" where "le64 x = le_bytes 8 (unat x)"
definition le128 :: "u128 \<Rightarrow> bytes" where "le128 x = le_bytes 16 (unat x)"

lemma length_le [simp]:
  "length (le16 x) = 2" "length (le32 y) = 4" "length (le64 z) = 8" "length (le128 w) = 16"
  by (simp_all add: le16_def le32_def le64_def le128_def)

lemma le_inj [simp]:
  "le16 a = le16 a' \<longleftrightarrow> a = a'" "le32 b = le32 b' \<longleftrightarrow> b = b'" "le64 c = le64 c' \<longleftrightarrow> c = c'"
  "le128 d = le128 d' \<longleftrightarrow> d = d'"
  by (auto simp: le16_def le32_def le64_def le128_def intro: le_bytes_word_inj)

lemma of_nat_le_nat [simp]:
  "of_nat (le_nat (le16 a)) = a" "of_nat (le_nat (le32 b)) = b" "of_nat (le_nat (le64 c)) = c"
  "of_nat (le_nat (le128 d)) = d"
  unfolding le16_def le32_def le64_def le128_def by (simp_all add: word_of_le_bytes)

lemma le_of_le_nat:
  "length b = 2 \<Longrightarrow> le16 (of_nat (le_nat b)) = b"
  "length b = 4 \<Longrightarrow> le32 (of_nat (le_nat b)) = b"
  "length b = 8 \<Longrightarrow> le64 (of_nat (le_nat b)) = b"
  "length b = 16 \<Longrightarrow> le128 (of_nat (le_nat b)) = b"
  using le_nat_less [of b] le_bytes_nat [of b]
  by (simp_all add: le16_def le32_def le64_def le128_def unat_of_nat)

text \<open>The bytes of an ASCII literal.\<close>

definition ascii :: "string \<Rightarrow> bytes" where
  "ascii s = map of_char s"

lemma length_ascii [simp]: "length (ascii s) = length s"
  by (simp add: ascii_def)

end
