(* ===== verification/Ego_Types.thy ===== *)
theory Ego_Types
  imports Codec
begin

section \<open>Core types and signature checks\<close>

text \<open>
  The types of \<^verbatim>\<open>crates/ego-core/src/types.rs\<close> the other components use, with their operations, and
  the dispatch of \<open>verify_signature\<close> in \<^verbatim>\<open>crypto.rs\<close>. The hash functions and the signature
  algorithms come from other packages; they are the fields of the parameter record \<open>crypto\<close>.
  Hashes and addresses are byte lists of 32 and 20 bytes. \<open>ego_error\<close> has the variants of
  \<open>EgoError\<close> the modelled operations return; the text of an error is its constant part.
\<close>

datatype ego_error =
    Invalid_Signature string
  | Invalid_Transaction string
  | Invalid_Block string
  | Invalid_Shard_Id u32
  | Shard_Not_Found u32
  | Account_Not_Found string
  | Insufficient_Balance u128 u128
  | Invalid_Nonce u64 u64
  | Rollup_Verification_Failed string
  | Merkle_Proof_Failed
  | State_Root_Mismatch string string
  | Invalid_Cross_Shard_Receipt string
  | Unauthorized_Slice string
  | Storage_Quota_Exceeded u64 u64
  | Serialization_Error string
  | Crypto_Error string
  | Internal_Error string

definition MAX_SHARD_COUNT :: u32 where "MAX_SHARD_COUNT = 256"
definition EGOC_BASE_UNIT :: u128 where "EGOC_BASE_UNIT = 1000000000"
definition PROTOCOL_VERSION :: u32 where "PROTOCOL_VERSION = 1"

subsection \<open>Algorithm identifiers\<close>

datatype algorithm_id = Alg_Ed25519 | Alg_MlDsa2 | Alg_SlhDsa | Alg_X25519 | Alg_MlKem768
  | Alg_XChaCha20Poly1305 | Alg_Blake2s256 | Alg_HkdfBlake2s

fun alg_as_u16 :: "algorithm_id \<Rightarrow> u16" where
  "alg_as_u16 Alg_Ed25519 = 0xED01"
| "alg_as_u16 Alg_MlDsa2 = 0x0202"
| "alg_as_u16 Alg_SlhDsa = 0x0303"
| "alg_as_u16 Alg_X25519 = 0x0101"
| "alg_as_u16 Alg_MlKem768 = 0x0302"
| "alg_as_u16 Alg_XChaCha20Poly1305 = 0x0401"
| "alg_as_u16 Alg_Blake2s256 = 0x0501"
| "alg_as_u16 Alg_HkdfBlake2s = 0x0502"

definition alg_from_u16 :: "u16 \<Rightarrow> algorithm_id option" where
  "alg_from_u16 v =
     (if v = 0xED01 then Some Alg_Ed25519 else if v = 0x0202 then Some Alg_MlDsa2
      else if v = 0x0303 then Some Alg_SlhDsa else if v = 0x0101 then Some Alg_X25519
      else if v = 0x0302 then Some Alg_MlKem768 else if v = 0x0401 then Some Alg_XChaCha20Poly1305
      else if v = 0x0501 then Some Alg_Blake2s256 else if v = 0x0502 then Some Alg_HkdfBlake2s
      else None)"

definition is_signature_algorithm :: "algorithm_id \<Rightarrow> bool" where
  "is_signature_algorithm a \<longleftrightarrow> a \<in> {Alg_Ed25519, Alg_MlDsa2, Alg_SlhDsa}"

definition is_kem_algorithm :: "algorithm_id \<Rightarrow> bool" where
  "is_kem_algorithm a \<longleftrightarrow> a \<in> {Alg_MlKem768, Alg_X25519}"

definition is_pq_algorithm :: "algorithm_id \<Rightarrow> bool" where
  "is_pq_algorithm a \<longleftrightarrow> a \<in> {Alg_MlDsa2, Alg_SlhDsa, Alg_MlKem768}"

lemma alg_u16_round [simp]: "alg_from_u16 (alg_as_u16 a) = Some a"
  by (cases a) (simp_all add: alg_from_u16_def)

lemma alg_from_u16_SomeD: "alg_from_u16 v = Some a \<Longrightarrow> alg_as_u16 a = v"
  by (auto simp: alg_from_u16_def split: if_splits)

subsection \<open>Hashes and addresses\<close>

type_synonym hash = bytes
type_synonym address = bytes

definition ZERO_HASH :: hash where "ZERO_HASH = replicate 32 0"

definition hash_from_slice :: "bytes \<Rightarrow> ego_error + hash" where
  "hash_from_slice s = (if length s \<noteq> 32 then Inl (Crypto_Error ''Invalid hash length'') else Inr s)"

definition address_from_slice :: "bytes \<Rightarrow> ego_error + address" where
  "address_from_slice s = (if length s \<noteq> 20 then Inl (Crypto_Error ''Invalid address length'') else Inr s)"

subsection \<open>Public keys and signatures\<close>

record public_key =
  pk_algorithm :: algorithm_id
  pk_data :: bytes

record signature =
  sg_algorithm :: algorithm_id
  sg_data :: bytes

text \<open>Both have the layout: identifier (2 bytes), length (4 bytes), data.\<close>

definition pk_to_vec :: "public_key \<Rightarrow> bytes" where
  "pk_to_vec k = le16 (alg_as_u16 (pk_algorithm k)) @ le_bytes 4 (length (pk_data k)) @ pk_data k"

definition pk_from_slice :: "bytes \<Rightarrow> ego_error + public_key" where
  "pk_from_slice s =
     (if length s < 6 then Inl (Crypto_Error ''Invalid public key format: too short'')
      else case alg_from_u16 (of_nat (le_nat (take 2 s))) of
        None \<Rightarrow> Inl (Crypto_Error ''Invalid algorithm ID'')
      | Some a \<Rightarrow>
          (let len = le_nat (take 4 (drop 2 s)) in
           if length s \<noteq> 6 + len then Inl (Crypto_Error ''Invalid public key format: length mismatch'')
           else Inr \<lparr>pk_algorithm = a, pk_data = drop 6 s\<rparr>))"

definition pk_ed25519_bytes :: "public_key \<Rightarrow> bytes option" where
  "pk_ed25519_bytes k =
     (if pk_algorithm k = Alg_Ed25519 \<and> length (pk_data k) = 32 then Some (pk_data k) else None)"

definition pk_size :: "public_key \<Rightarrow> nat" where
  "pk_size k = 6 + length (pk_data k)"

definition pk_validate :: "public_key \<Rightarrow> ego_error + unit" where
  "pk_validate k =
     (case pk_algorithm k of
        Alg_Ed25519 \<Rightarrow>
          if length (pk_data k) \<noteq> 32 then Inl (Crypto_Error ''Ed25519 key must be 32 bytes'') else Inr ()
      | Alg_MlDsa2 \<Rightarrow>
          if length (pk_data k) \<noteq> 1312 then Inl (Crypto_Error ''ML-DSA-2 key must be 1312 bytes'') else Inr ()
      | Alg_MlKem768 \<Rightarrow>
          if length (pk_data k) \<noteq> 1184 then Inl (Crypto_Error ''ML-KEM-768 key must be 1184 bytes'') else Inr ()
      | _ \<Rightarrow> Inr ())"

definition sg_to_vec :: "signature \<Rightarrow> bytes" where
  "sg_to_vec g = le16 (alg_as_u16 (sg_algorithm g)) @ le_bytes 4 (length (sg_data g)) @ sg_data g"

definition sg_from_slice :: "bytes \<Rightarrow> ego_error + signature" where
  "sg_from_slice s =
     (if length s < 6 then Inl (Crypto_Error ''Invalid signature format: too short'')
      else case alg_from_u16 (of_nat (le_nat (take 2 s))) of
        None \<Rightarrow> Inl (Crypto_Error ''Invalid algorithm ID'')
      | Some a \<Rightarrow>
          (let len = le_nat (take 4 (drop 2 s)) in
           if length s \<noteq> 6 + len then Inl (Crypto_Error ''Invalid signature format: length mismatch'')
           else Inr \<lparr>sg_algorithm = a, sg_data = drop 6 s\<rparr>))"

definition sg_ed25519_bytes :: "signature \<Rightarrow> bytes option" where
  "sg_ed25519_bytes g =
     (if sg_algorithm g = Alg_Ed25519 \<and> length (sg_data g) = 64 then Some (sg_data g) else None)"

definition pk_ed25519 :: "bytes \<Rightarrow> public_key" where
  "pk_ed25519 b = \<lparr>pk_algorithm = Alg_Ed25519, pk_data = b\<rparr>"

definition pk_dilithium2 :: "bytes \<Rightarrow> public_key" where
  "pk_dilithium2 b = \<lparr>pk_algorithm = Alg_MlDsa2, pk_data = b\<rparr>"

definition sg_ed25519 :: "bytes \<Rightarrow> signature" where
  "sg_ed25519 b = \<lparr>sg_algorithm = Alg_Ed25519, sg_data = b\<rparr>"

definition sg_dilithium2 :: "bytes \<Rightarrow> signature" where
  "sg_dilithium2 b = \<lparr>sg_algorithm = Alg_MlDsa2, sg_data = b\<rparr>"

record dual_signature =
  ds_ed25519 :: "signature option"
  ds_dilithium :: "signature option"
  ds_version :: u32

definition ds_new :: "signature option \<Rightarrow> signature option \<Rightarrow> dual_signature" where
  "ds_new e d = \<lparr>ds_ed25519 = e, ds_dilithium = d, ds_version = PROTOCOL_VERSION\<rparr>"

definition ds_is_pq_only :: "dual_signature \<Rightarrow> bool" where
  "ds_is_pq_only d \<longleftrightarrow> ds_dilithium d \<noteq> None \<and> ds_ed25519 d = None"

definition ds_is_hybrid :: "dual_signature \<Rightarrow> bool" where
  "ds_is_hybrid d \<longleftrightarrow> ds_dilithium d \<noteq> None \<and> ds_ed25519 d \<noteq> None"

definition ds_algorithms_used :: "dual_signature \<Rightarrow> algorithm_id list" where
  "ds_algorithms_used d =
     (if ds_ed25519 d \<noteq> None then [Alg_Ed25519] else []) @ (if ds_dilithium d \<noteq> None then [Alg_MlDsa2] else [])"

subsection \<open>Hashing and signing\<close>

text \<open>
  The functions of the crates \<^verbatim>\<open>blake2\<close>, \<^verbatim>\<open>blake3\<close>, \<^verbatim>\<open>ed25519_dalek\<close>, \<^verbatim>\<open>ml_dsa\<close> and
  \<^verbatim>\<open>pqcrypto_sphincsplus\<close>. \<open>cr_mldsa_verify\<close> is false for keys and signatures that do not
  decode, as in \<open>dilithium_verify\<close>. Signing takes the secret key of a key pair.
\<close>

record crypto =
  cr_blake2s :: "bytes \<Rightarrow> hash"
  cr_blake3 :: "bytes \<Rightarrow> bytes"
  cr_ed25519_key_ok :: "bytes \<Rightarrow> bool"
  cr_ed25519_verify :: "bytes \<Rightarrow> bytes \<Rightarrow> bytes \<Rightarrow> bool"
  cr_ed25519_sign :: "bytes \<Rightarrow> bytes \<Rightarrow> bytes"
  cr_mldsa_verify :: "bytes \<Rightarrow> bytes \<Rightarrow> bytes \<Rightarrow> bool"
  cr_mldsa_sign :: "bytes \<Rightarrow> bytes \<Rightarrow> bytes"
  cr_slh_key_ok :: "bytes \<Rightarrow> bool"
  cr_slh_sig_ok :: "bytes \<Rightarrow> bool"
  cr_slh_verify :: "bytes \<Rightarrow> bytes \<Rightarrow> bytes \<Rightarrow> bool"

definition hash_data :: "crypto \<Rightarrow> bytes \<Rightarrow> hash" where
  "hash_data cr d = cr_blake2s cr d"

definition hash_multiple :: "crypto \<Rightarrow> bytes list \<Rightarrow> hash" where
  "hash_multiple cr pieces = cr_blake2s cr (concat pieces)"

definition address_from_public_key :: "crypto \<Rightarrow> public_key \<Rightarrow> address" where
  "address_from_public_key cr k = take 20 (cr_blake3 cr (pk_to_vec k))"

definition slh_dsa_verify :: "crypto \<Rightarrow> bytes \<Rightarrow> bytes \<Rightarrow> bytes \<Rightarrow> ego_error + bool" where
  "slh_dsa_verify cr k m g =
     (if \<not> cr_slh_key_ok cr k then Inl (Crypto_Error ''Invalid SPHINCS+ public key'')
      else if \<not> cr_slh_sig_ok cr g then Inl (Crypto_Error ''Invalid SPHINCS+ signature'')
      else Inr (cr_slh_verify cr k m g))"

definition verify_signature :: "crypto \<Rightarrow> public_key \<Rightarrow> bytes \<Rightarrow> signature \<Rightarrow> ego_error + bool" where
  "verify_signature cr k m g =
     (case (pk_algorithm k, sg_algorithm g) of
        (Alg_Ed25519, Alg_Ed25519) \<Rightarrow>
          if length (pk_data k) < 32 then Inr False
          else (case sg_ed25519_bytes g of
              None \<Rightarrow> Inl (Crypto_Error ''Invalid Ed25519 signature'')
            | Some b \<Rightarrow>
                if \<not> cr_ed25519_key_ok cr (take 32 (pk_data k))
                then Inl (Crypto_Error ''Invalid public key'')
                else Inr (cr_ed25519_verify cr (take 32 (pk_data k)) m b))
      | (Alg_MlDsa2, Alg_MlDsa2) \<Rightarrow> Inr (cr_mldsa_verify cr (pk_data k) m (sg_data g))
      | (Alg_SlhDsa, Alg_SlhDsa) \<Rightarrow> slh_dsa_verify cr (pk_data k) m (sg_data g)
      | _ \<Rightarrow> Inl (Crypto_Error ''Algorithm mismatch between public key and signature''))"

definition verify_part :: "crypto \<Rightarrow> public_key \<Rightarrow> bytes \<Rightarrow> signature option \<Rightarrow> ego_error + bool" where
  "verify_part cr k m g = (case g of None \<Rightarrow> Inr False | Some s \<Rightarrow> verify_signature cr k m s)"

definition verify_dual_signature ::
  "crypto \<Rightarrow> public_key \<Rightarrow> public_key \<Rightarrow> bytes \<Rightarrow> dual_signature \<Rightarrow> ego_error + bool" where
  "verify_dual_signature cr ek dk m d =
     rbind (verify_part cr ek m (ds_ed25519 d)) (\<lambda>e.
     rbind (verify_part cr dk m (ds_dilithium d)) (\<lambda>q.
       Inr (if ds_ed25519 d \<noteq> None \<and> ds_dilithium d \<noteq> None then e \<and> q
            else if ds_ed25519 d \<noteq> None then e
            else if ds_dilithium d \<noteq> None then q
            else False)))"

record key_pair =
  kp_ed25519_sk :: bytes
  kp_ed25519_pk :: bytes
  kp_dilithium_sk :: bytes
  kp_dilithium_pk :: bytes

definition ed25519_public_key :: "key_pair \<Rightarrow> public_key" where
  "ed25519_public_key kp = pk_ed25519 (kp_ed25519_pk kp)"

definition dilithium_public_key :: "key_pair \<Rightarrow> public_key" where
  "dilithium_public_key kp = pk_dilithium2 (kp_dilithium_pk kp)"

definition sign_ed25519 :: "crypto \<Rightarrow> key_pair \<Rightarrow> bytes \<Rightarrow> signature" where
  "sign_ed25519 cr kp m = sg_ed25519 (cr_ed25519_sign cr (kp_ed25519_sk kp) m)"

definition sign_dilithium :: "crypto \<Rightarrow> key_pair \<Rightarrow> bytes \<Rightarrow> signature" where
  "sign_dilithium cr kp m = sg_dilithium2 (cr_mldsa_sign cr (kp_dilithium_sk kp) m)"

subsection \<open>Times, shards, heights and balances\<close>

type_synonym timestamp = u64
type_synonym balance = u128

text \<open>Plain \<open>+\<close> and \<open>*\<close> wrap, as in a release build.\<close>

definition ts_from_secs :: "u64 \<Rightarrow> timestamp" where "ts_from_secs s = s * 1000"
definition ts_as_secs :: "timestamp \<Rightarrow> u64" where "ts_as_secs t = t div 1000"
definition ts_elapsed_millis :: "timestamp \<Rightarrow> timestamp \<Rightarrow> u64" where "ts_elapsed_millis now t = sat_sub now t"
definition ts_is_expired :: "timestamp \<Rightarrow> timestamp \<Rightarrow> u64 \<Rightarrow> bool" where
  "ts_is_expired now t d \<longleftrightarrow> d < ts_elapsed_millis now t"
definition ts_add_millis :: "timestamp \<Rightarrow> u64 \<Rightarrow> timestamp" where "ts_add_millis t m = sat_add t m"
definition ts_add_secs :: "timestamp \<Rightarrow> u64 \<Rightarrow> timestamp" where "ts_add_secs t s = ts_add_millis t (s * 1000)"

definition shard_new :: "u32 \<Rightarrow> ego_error + u32" where
  "shard_new i = (if MAX_SHARD_COUNT \<le> i then Inl (Invalid_Shard_Id i) else Inr i)"

definition shard_next :: "u32 \<Rightarrow> ego_error + u32" where "shard_next i = shard_new (i + 1)"

definition height_distance :: "u64 \<Rightarrow> u64 \<Rightarrow> u64" where
  "height_distance a b = (if b \<le> a then a - b else b - a)"

definition from_egoc :: "u64 \<Rightarrow> balance" where "from_egoc e = ucast e * EGOC_BASE_UNIT"

definition checked_mul :: "'a::len word \<Rightarrow> 'a word \<Rightarrow> 'a word option" where
  "checked_mul a b = (if unat a * unat b < 2 ^ LENGTH('a) then Some (a * b) else None)"

definition balance_checked_div :: "balance \<Rightarrow> u128 \<Rightarrow> balance option" where
  "balance_checked_div b d = (if d = 0 then None else Some (b div d))"

subsection \<open>The byte formats\<close>

lemma tagged_length: "length (le16 a @ le_bytes 4 n @ d) = 6 + length d"
  by simp

lemma tagged_head: "take 2 (le16 a @ le_bytes 4 n @ d) = le16 a"
  "take 4 (drop 2 (le16 a @ le_bytes 4 n @ d)) = le_bytes 4 n" "drop 6 (le16 a @ le_bytes 4 n @ d) = d"
  by simp_all

lemma tagged_split:
  assumes "6 \<le> length s" "le_nat (take 4 (drop 2 s)) = length s - 6"
  shows "le16 (of_nat (le_nat (take 2 s))) @ le_bytes 4 (length s - 6) @ drop 6 s = s"
proof -
  have "le16 (of_nat (le_nat (take 2 s))) = take 2 s"
    using assms(1) by (intro le_of_le_nat) simp
  moreover have "le_bytes 4 (le_nat (take 4 (drop 2 s))) = take 4 (drop 2 s)"
    using le_bytes_nat [of "take 4 (drop 2 s)"] assms(1) by simp
  moreover have "take 2 s @ take 4 (drop 2 s) @ drop 6 s = s"
    using append_take_drop_id [of 2 s] append_take_drop_id [of 4 "drop 2 s"] by simp
  ultimately show ?thesis using assms(2) by metis
qed

lemma le_nat_take4:
  assumes "6 \<le> length s"
  shows "le_nat (take 4 (drop 2 s)) < 2 ^ 32"
proof -
  have "length (take 4 (drop 2 s)) = 4" using assms by simp
  then show ?thesis using le_nat_less [of "take 4 (drop 2 s)"] by simp
qed

interpretation pk_codec: codec pk_to_vec pk_from_slice "\<lambda>k. length (pk_data k) < 2 ^ 32"
proof
  fix k :: public_key assume "length (pk_data k) < 2 ^ 32"
  then have "le_nat (le_bytes 4 (length (pk_data k))) = length (pk_data k)" by simp
  then show "pk_from_slice (pk_to_vec k) = Inr k"
    unfolding pk_from_slice_def pk_to_vec_def tagged_length tagged_head by simp
next
  fix s k assume dec: "pk_from_slice s = Inr k"
  define n where "n = le_nat (take 4 (drop 2 s))"
  from dec obtain a where s: "6 \<le> length s" "alg_from_u16 (of_nat (le_nat (take 2 s))) = Some a"
      "n = length s - 6" "k = \<lparr>pk_algorithm = a, pk_data = drop 6 s\<rparr>"
    by (auto simp: pk_from_slice_def n_def [symmetric] split: if_splits option.splits)
  have "n < 2 ^ 32" unfolding n_def by (rule le_nat_take4 [OF s(1)])
  then have "length s - 6 < 2 ^ 32" by (simp only: s(3))
  moreover have "pk_to_vec k = s"
    using tagged_split [OF s(1) s(3) [unfolded n_def]] alg_from_u16_SomeD [OF s(2)] s(4) by (simp add: pk_to_vec_def)
  ultimately show "length (pk_data k) < 2 ^ 32 \<and> pk_to_vec k = s" using s(4) by simp
qed

interpretation sg_codec: codec sg_to_vec sg_from_slice "\<lambda>g. length (sg_data g) < 2 ^ 32"
proof
  fix g :: signature assume "length (sg_data g) < 2 ^ 32"
  then have "le_nat (le_bytes 4 (length (sg_data g))) = length (sg_data g)" by simp
  then show "sg_from_slice (sg_to_vec g) = Inr g"
    unfolding sg_from_slice_def sg_to_vec_def tagged_length tagged_head by simp
next
  fix s g assume dec: "sg_from_slice s = Inr g"
  define n where "n = le_nat (take 4 (drop 2 s))"
  from dec obtain a where s: "6 \<le> length s" "alg_from_u16 (of_nat (le_nat (take 2 s))) = Some a"
      "n = length s - 6" "g = \<lparr>sg_algorithm = a, sg_data = drop 6 s\<rparr>"
    by (auto simp: sg_from_slice_def n_def [symmetric] split: if_splits option.splits)
  have "n < 2 ^ 32" unfolding n_def by (rule le_nat_take4 [OF s(1)])
  then have "length s - 6 < 2 ^ 32" by (simp only: s(3))
  moreover have "sg_to_vec g = s"
    using tagged_split [OF s(1) s(3) [unfolded n_def]] alg_from_u16_SomeD [OF s(2)] s(4) by (simp add: sg_to_vec_def)
  ultimately show "length (sg_data g) < 2 ^ 32 \<and> sg_to_vec g = s" using s(4) by simp
qed

text \<open>
  The wire formats of keys and signatures are canonical: \<open>from_slice\<close> accepts exactly the
  bytes \<open>to_vec\<close> writes, so each key and each signature of less than 4 GiB has one encoding and
  reads back as itself.
\<close>

theorem key_formats_canonical:
  "(length (pk_data k) < 2 ^ 32 \<longrightarrow> (pk_from_slice b = Inr k \<longleftrightarrow> b = pk_to_vec k)) \<and>
   (length (sg_data g) < 2 ^ 32 \<longrightarrow> (sg_from_slice b = Inr g \<longleftrightarrow> b = sg_to_vec g))"
  using pk_codec.canonical sg_codec.canonical by blast

theorem key_formats_canonical_witness:
  "pk_from_slice (pk_to_vec (pk_ed25519 [1, 2, 3])) = Inr (pk_ed25519 [1, 2, 3]) \<and>
   sg_from_slice [2, 2, 1, 0, 0, 0, 9] = Inr (sg_dilithium2 [9])"
proof -
  have "[2, 2, 1, 0, 0, 0, 9] = sg_to_vec (sg_dilithium2 [9])"
    by (simp add: sg_to_vec_def sg_dilithium2_def le16_def le_bytes_numeral)
  then show ?thesis
    using key_formats_canonical [of "pk_ed25519 [1, 2, 3]" "pk_to_vec (pk_ed25519 [1, 2, 3])" "sg_dilithium2 [9]"]
      key_formats_canonical [of "pk_ed25519 [1, 2, 3]" "[2, 2, 1, 0, 0, 0, 9]" "sg_dilithium2 [9]"]
    by (simp add: pk_ed25519_def sg_dilithium2_def)
qed

text \<open>
  A dual signature is accepted only if every part it carries verifies under the key of its
  own kind, and it carries at least one.
\<close>

theorem dual_signature_sound:
  assumes "verify_dual_signature cr ek dk m d = Inr True"
  shows "(ds_ed25519 d \<noteq> None \<or> ds_dilithium d \<noteq> None) \<and>
    (\<forall>g. ds_ed25519 d = Some g \<longrightarrow> verify_signature cr ek m g = Inr True) \<and>
    (\<forall>g. ds_dilithium d = Some g \<longrightarrow> verify_signature cr dk m g = Inr True)"
  using assms by (auto simp: verify_dual_signature_def verify_part_def split: option.splits if_splits)

text \<open>
  An instance of the parameters on which the definitions can be run: hashing is the identity,
  a signature is the key followed by the message (cut to 64 bytes for Ed25519).
\<close>

definition clear_crypto :: crypto where
  "clear_crypto = \<lparr>
     cr_blake2s = (\<lambda>b. b), cr_blake3 = (\<lambda>b. b), cr_ed25519_key_ok = (\<lambda>_. True),
     cr_ed25519_verify = (\<lambda>k m g. g = take 64 (k @ m @ replicate 64 0)),
     cr_ed25519_sign = (\<lambda>k m. take 64 (k @ m @ replicate 64 0)),
     cr_mldsa_verify = (\<lambda>k m g. g = k @ m), cr_mldsa_sign = (\<lambda>k m. k @ m),
     cr_slh_key_ok = (\<lambda>_. True), cr_slh_sig_ok = (\<lambda>_. True), cr_slh_verify = (\<lambda>k m g. g = k @ m)\<rparr>"

theorem dual_signature_sound_witness:
  "verify_dual_signature clear_crypto (pk_ed25519 []) (pk_dilithium2 [5]) [7] (ds_new None (Some (sg_dilithium2 [5, 7]))) = Inr True \<and>
   verify_signature clear_crypto (pk_dilithium2 [5]) [7] (sg_dilithium2 [5, 7]) = Inr True"
proof -
  have "verify_dual_signature clear_crypto (pk_ed25519 []) (pk_dilithium2 [5]) [7] (ds_new None (Some (sg_dilithium2 [5, 7]))) = Inr True"
    by (simp add: verify_dual_signature_def verify_part_def verify_signature_def ds_new_def sg_dilithium2_def
        pk_dilithium2_def clear_crypto_def)
  with dual_signature_sound [OF this] show ?thesis by (simp add: ds_new_def)
qed

end
