(* ===== verification/Bft_Types.thy ===== *)
theory Bft_Types
  imports Ego_Types
begin

section \<open>Blocks, votes and quorum certificates\<close>

text \<open>
  The message types of \<^verbatim>\<open>crates/ego-consensus-core/src/bft.rs\<close>: block headers with their hash and
  signature, the verifiable random output of a proposer, votes, quorum certificates and the
  Merkle root over a list of hashes. A reading of the clock (\<open>Timestamp::now()\<close>) is an argument.
\<close>

definition MICRO_SLOT_MS :: u64 where "MICRO_SLOT_MS = 100"
definition PROPOSE_TIMEOUT_MS :: u64 where "PROPOSE_TIMEOUT_MS = 500"
definition VOTE_TIMEOUT_MS :: u64 where "VOTE_TIMEOUT_MS = 1000"
definition COMMIT_TIMEOUT_MS :: u64 where "COMMIT_TIMEOUT_MS = 1500"

datatype poc_error = Validation_Failed string | Signature_Verification_Failed ego_error
  | Bad_View_Change_Signature

text \<open>\<open>map_err(|e| PoCError::SignatureVerificationFailed(..))\<close>.\<close>

fun poc_result :: "ego_error + 'a \<Rightarrow> poc_error + 'a" where
  "poc_result (Inl e) = Inl (Signature_Verification_Failed e)"
| "poc_result (Inr a) = Inr a"

lemma poc_result_Inr [simp]: "poc_result r = Inr a \<longleftrightarrow> r = Inr a"
  by (cases r) auto

subsection \<open>Signature schemes\<close>

datatype sig_scheme = Scheme_Dilithium | Scheme_Ed25519

fun scheme_public_key :: "sig_scheme \<Rightarrow> key_pair \<Rightarrow> public_key" where
  "scheme_public_key Scheme_Dilithium kp = dilithium_public_key kp"
| "scheme_public_key Scheme_Ed25519 kp = ed25519_public_key kp"

fun scheme_sign :: "crypto \<Rightarrow> sig_scheme \<Rightarrow> key_pair \<Rightarrow> bytes \<Rightarrow> signature" where
  "scheme_sign cr Scheme_Dilithium kp m = sign_dilithium cr kp m"
| "scheme_sign cr Scheme_Ed25519 kp m = sign_ed25519 cr kp m"

definition scheme_address :: "crypto \<Rightarrow> sig_scheme \<Rightarrow> key_pair \<Rightarrow> address" where
  "scheme_address cr sc kp = address_from_public_key cr (scheme_public_key sc kp)"

subsection \<open>Merkle roots\<close>

text \<open>One layer of the tree: neighbours are hashed together, an odd last one with itself.\<close>

fun merkle_layer :: "crypto \<Rightarrow> hash list \<Rightarrow> hash list" where
  "merkle_layer cr [] = []"
| "merkle_layer cr [l] = [hash_multiple cr [l, l]]"
| "merkle_layer cr (l # r # hs) = hash_multiple cr [l, r] # merkle_layer cr hs"

lemma length_merkle_layer: "length (merkle_layer cr hs) = (length hs + 1) div 2"
  by (induction cr hs rule: merkle_layer.induct) auto

function merkle_loop :: "crypto \<Rightarrow> hash list \<Rightarrow> hash" where
  "merkle_loop cr layer = (if 1 < length layer then merkle_loop cr (merkle_layer cr layer) else hd layer)"
  by pat_completeness auto
termination
  by (relation "measure (\<lambda>(_, hs). length hs)") (auto simp: length_merkle_layer)

declare merkle_loop.simps [simp del]

definition merkle_root :: "crypto \<Rightarrow> hash list \<Rightarrow> hash" where
  "merkle_root cr hs = (if hs = [] then ZERO_HASH else if length hs = 1 then hs ! 0 else merkle_loop cr hs)"

subsection \<open>Block headers\<close>

record block_roots =
  r_tx_root :: hash
  r_state_root :: hash
  r_receipts_root :: hash
  r_events_root_post :: hash
  r_events_root_poc :: hash
  r_rollup_root :: hash
  r_da_root :: hash

definition roots_empty :: block_roots where
  "roots_empty = \<lparr>r_tx_root = ZERO_HASH, r_state_root = ZERO_HASH, r_receipts_root = ZERO_HASH,
     r_events_root_post = ZERO_HASH, r_events_root_poc = ZERO_HASH, r_rollup_root = ZERO_HASH,
     r_da_root = ZERO_HASH\<rparr>"

definition roots_from_events :: "crypto \<Rightarrow> hash list \<Rightarrow> hash list \<Rightarrow> block_roots" where
  "roots_from_events cr poc post =
     roots_empty\<lparr>r_events_root_poc := merkle_root cr poc, r_events_root_post := merkle_root cr post\<rparr>"

record block_header =
  bh_height :: u64
  bh_epoch :: u64
  bh_slot :: u64
  bh_round :: u32
  bh_prev_hash :: hash
  bh_proposer :: address
  bh_tx_root :: hash
  bh_state_root :: hash
  bh_receipts_root :: hash
  bh_events_root_post :: hash
  bh_events_root_poc :: hash
  bh_rollup_root :: hash
  bh_da_root :: hash
  bh_vrf_output :: hash
  bh_vrf_proof :: bytes
  bh_timestamp :: timestamp
  bh_signature :: signature
  bh_proposer_pk :: public_key

definition header_new :: "timestamp \<Rightarrow> u64 \<Rightarrow> u64 \<Rightarrow> u64 \<Rightarrow> hash \<Rightarrow> address \<Rightarrow> block_roots \<Rightarrow> hash \<Rightarrow> bytes \<Rightarrow> block_header" where
  "header_new now height epoch slot prev proposer r out proof = \<lparr>
     bh_height = height, bh_epoch = epoch, bh_slot = slot, bh_round = 0, bh_prev_hash = prev,
     bh_proposer = proposer, bh_tx_root = r_tx_root r, bh_state_root = r_state_root r,
     bh_receipts_root = r_receipts_root r, bh_events_root_post = r_events_root_post r,
     bh_events_root_poc = r_events_root_poc r, bh_rollup_root = r_rollup_root r,
     bh_da_root = r_da_root r, bh_vrf_output = out, bh_vrf_proof = proof, bh_timestamp = now,
     bh_signature = sg_ed25519 (replicate 64 0), bh_proposer_pk = pk_ed25519 (replicate 32 0)\<rparr>"

text \<open>The pieces \<open>block_hash\<close> feeds to the hash function.\<close>

definition header_pieces :: "block_header \<Rightarrow> bytes list" where
  "header_pieces h =
     [le64 (bh_height h), le64 (bh_epoch h), le64 (bh_slot h), le32 (bh_round h),
      bh_prev_hash h, bh_proposer h, bh_tx_root h, bh_state_root h, bh_receipts_root h,
      bh_events_root_post h, bh_events_root_poc h, bh_rollup_root h, bh_da_root h,
      bh_vrf_output h, le64 (bh_timestamp h)]"

definition block_hash :: "crypto \<Rightarrow> block_header \<Rightarrow> hash" where
  "block_hash cr h = hash_multiple cr (header_pieces h)"

definition header_signing_bytes :: "crypto \<Rightarrow> block_header \<Rightarrow> bytes" where
  "header_signing_bytes cr h = ascii ''ego/block/v1:'' @ block_hash cr h"

definition header_sign :: "crypto \<Rightarrow> key_pair \<Rightarrow> sig_scheme \<Rightarrow> block_header \<Rightarrow> block_header" where
  "header_sign cr kp sc h =
     (let h1 = h\<lparr>bh_proposer_pk := scheme_public_key sc kp\<rparr>
      in h1\<lparr>bh_signature := scheme_sign cr sc kp (header_signing_bytes cr h1)\<rparr>)"

definition header_verify_signature :: "crypto \<Rightarrow> block_header \<Rightarrow> poc_error + bool" where
  "header_verify_signature cr h =
     poc_result (verify_signature cr (bh_proposer_pk h) (header_signing_bytes cr h) (bh_signature h))"

definition epoch_randomness :: "crypto \<Rightarrow> bytes \<Rightarrow> block_header \<Rightarrow> hash" where
  "epoch_randomness cr region h =
     hash_multiple cr [bh_vrf_output h, region, le64 (bh_epoch h), le64 (bh_slot h)]"

definition compute_vrf_output :: "crypto \<Rightarrow> key_pair \<Rightarrow> u64 \<Rightarrow> u64 \<Rightarrow> hash \<times> bytes" where
  "compute_vrf_output cr kp epoch slot =
     (let input = hash_multiple cr [pk_data (ed25519_public_key kp), le64 epoch, le64 slot];
          proof = sg_data (sign_ed25519 cr kp input)
      in (hash_multiple cr [ascii ''ego/vrf/v1:'', proof], proof))"

definition verify_vrf_output :: "crypto \<Rightarrow> public_key \<Rightarrow> u64 \<Rightarrow> u64 \<Rightarrow> bytes \<Rightarrow> hash option" where
  "verify_vrf_output cr pk epoch slot proof =
     (if length proof \<noteq> 64 then None
      else case verify_signature cr pk (hash_multiple cr [pk_data pk, le64 epoch, le64 slot]) (sg_ed25519 proof) of
        Inr True \<Rightarrow> Some (hash_multiple cr [ascii ''ego/vrf/v1:'', proof])
      | _ \<Rightarrow> None)"

subsection \<open>Votes\<close>

record vote =
  vt_block_hash :: hash
  vt_height :: u64
  vt_epoch :: u64
  vt_round :: u32
  vt_voter :: address
  vt_voter_pk :: public_key
  vt_signature :: signature
  vt_timestamp :: timestamp

definition vote_msg :: "hash \<Rightarrow> u64 \<Rightarrow> u64 \<Rightarrow> u32 \<Rightarrow> bytes" where
  "vote_msg bh height epoch round = ascii ''ego/vote/v1:'' @ bh @ le64 height @ le64 epoch @ le32 round"

definition vote_new :: "crypto \<Rightarrow> timestamp \<Rightarrow> hash \<Rightarrow> u64 \<Rightarrow> u64 \<Rightarrow> u32 \<Rightarrow> key_pair \<Rightarrow> sig_scheme \<Rightarrow> vote" where
  "vote_new cr now bh height epoch round kp sc = \<lparr>
     vt_block_hash = bh, vt_height = height, vt_epoch = epoch, vt_round = round,
     vt_voter = scheme_address cr sc kp, vt_voter_pk = scheme_public_key sc kp,
     vt_signature = scheme_sign cr sc kp (vote_msg bh height epoch round), vt_timestamp = now\<rparr>"

definition vote_verify :: "crypto \<Rightarrow> vote \<Rightarrow> poc_error + bool" where
  "vote_verify cr v =
     poc_result (verify_signature cr (vt_voter_pk v)
       (vote_msg (vt_block_hash v) (vt_height v) (vt_epoch v) (vt_round v)) (vt_signature v))"

subsection \<open>Quorum certificates\<close>

record quorum_certificate =
  qc_block_hash :: hash
  qc_height :: u64
  qc_epoch :: u64
  qc_round :: u32
  qc_voters_bitmap :: "bool list"
  qc_sigs_root :: hash
  qc_formed_at :: timestamp

definition sigs_root_of :: "crypto \<Rightarrow> vote list \<Rightarrow> hash" where
  "sigs_root_of cr votes = merkle_root cr (map (\<lambda>v. hash_data cr (sg_data (vt_signature v))) votes)"

definition qc_new :: "crypto \<Rightarrow> timestamp \<Rightarrow> hash \<Rightarrow> u64 \<Rightarrow> u64 \<Rightarrow> u32 \<Rightarrow> vote list \<Rightarrow> quorum_certificate" where
  "qc_new cr now bh height epoch round votes = \<lparr>
     qc_block_hash = bh, qc_height = height, qc_epoch = epoch, qc_round = round,
     qc_voters_bitmap = map (\<lambda>_. True) votes, qc_sigs_root = sigs_root_of cr votes, qc_formed_at = now\<rparr>"

definition voter_count :: "quorum_certificate \<Rightarrow> nat" where
  "voter_count qc = length (filter (\<lambda>v. v) (qc_voters_bitmap qc))"

text \<open>The loop of \<open>verify\<close>: \<open>None\<close> where it returns false, else the set of voters seen.\<close>

fun qc_check :: "crypto \<Rightarrow> quorum_certificate \<Rightarrow> address list \<Rightarrow> vote list \<Rightarrow> address list \<Rightarrow>
    poc_error + address list option" where
  "qc_check cr qc vset [] seen = Inr (Some seen)"
| "qc_check cr qc vset (v # vs) seen =
     (if vt_block_hash v \<noteq> qc_block_hash qc \<or> vt_height v \<noteq> qc_height qc
         \<or> vt_epoch v \<noteq> qc_epoch qc \<or> vt_round v \<noteq> qc_round qc then Inr None
      else if address_from_public_key cr (vt_voter_pk v) \<noteq> vt_voter v then Inr None
      else if vt_voter v \<notin> set vset then Inr None
      else if vt_voter v \<in> set seen then Inr None
      else rbind (vote_verify cr v) (\<lambda>ok.
        if \<not> ok then Inr None else qc_check cr qc vset vs (vt_voter v # seen)))"

definition qc_verify :: "crypto \<Rightarrow> quorum_certificate \<Rightarrow> vote list \<Rightarrow> address list \<Rightarrow> poc_error + bool" where
  "qc_verify cr qc votes vset =
     (if vset = [] then Inr False
      else if sigs_root_of cr votes \<noteq> qc_sigs_root qc then Inr False
      else rbind (qc_check cr qc vset votes []) (\<lambda>r.
        Inr (case r of None \<Rightarrow> False | Some seen \<Rightarrow> (2 * length vset) div 3 + 1 \<le> length seen)))"

subsection \<open>What a Merkle root binds\<close>

text \<open>The byte strings hashed while the root of a list is computed.\<close>

fun layer_inputs :: "hash list \<Rightarrow> bytes list" where
  "layer_inputs [] = []"
| "layer_inputs [l] = [l @ l]"
| "layer_inputs (l # r # hs) = (l @ r) # layer_inputs hs"

function merkle_inputs :: "crypto \<Rightarrow> hash list \<Rightarrow> bytes list" where
  "merkle_inputs cr hs = (if 1 < length hs then layer_inputs hs @ merkle_inputs cr (merkle_layer cr hs) else [])"
  by pat_completeness auto
termination
  by (relation "measure (\<lambda>(_, hs). length hs)") (auto simp: length_merkle_layer)

declare merkle_inputs.simps [simp del]

lemma merkle_layer_map: "merkle_layer cr hs = map (cr_blake2s cr) (layer_inputs hs)"
  by (induction hs rule: layer_inputs.induct) (simp_all add: hash_multiple_def)

lemma layer_inputs_inj:
  "length xs = length ys \<Longrightarrow> \<forall>h \<in> set xs \<union> set ys. length h = 32 \<Longrightarrow> layer_inputs xs = layer_inputs ys \<Longrightarrow> xs = ys"
proof (induction xs arbitrary: ys rule: layer_inputs.induct)
  case (2 l)
  then obtain m where "ys = [m]" by (cases ys) auto
  with 2 show ?case by simp
next
  case (3 l r hs)
  then obtain m n ks where "ys = m # n # ks" by (metis length_Suc_conv)
  with 3 show ?case by simp
qed simp

lemma map_eq_clash:
  "map f xs = map f ys \<Longrightarrow> xs = ys \<or> (\<exists>a \<in> set xs. \<exists>b \<in> set ys. a \<noteq> b \<and> f a = f b)"
proof (induction xs arbitrary: ys)
  case (Cons a xs)
  then obtain b zs where ys: "ys = b # zs" "f a = f b" "map f xs = map f zs" by (cases ys) auto
  with Cons.IH [of zs] show ?case by auto
qed simp

lemma merkle_loop_binds:
  assumes "\<forall>b. length (cr_blake2s cr b) = 32"
  shows "length xs = length ys \<Longrightarrow> xs \<noteq> [] \<Longrightarrow> \<forall>h \<in> set xs \<union> set ys. length h = 32 \<Longrightarrow>
    merkle_loop cr xs = merkle_loop cr ys \<Longrightarrow> xs = ys \<or>
    (\<exists>a \<in> set (merkle_inputs cr xs). \<exists>b \<in> set (merkle_inputs cr ys). a \<noteq> b \<and> cr_blake2s cr a = cr_blake2s cr b)"
proof (induction "length xs" arbitrary: xs ys rule: less_induct)
  case less
  show ?case
  proof (cases "1 < length xs")
    case False
    with less.prems obtain x y where "xs = [x]" "ys = [y]"
      by (metis One_nat_def Suc_lessI length_0_conv length_Suc_conv length_greater_0_conv)
    with less.prems show ?thesis by (simp add: merkle_loop.simps)
  next
    case True
    let ?X = "merkle_layer cr xs" and ?Y = "merkle_layer cr ys"
    have len: "length ?X = length ?Y" "length ?X < length xs" "?X \<noteq> []"
      using True less.prems(1) length_merkle_layer [of cr xs] length_merkle_layer [of cr ys] by auto
    have wid: "\<forall>h \<in> set ?X \<union> set ?Y. length h = 32" using assms by (auto simp: merkle_layer_map)
    have eq: "merkle_loop cr ?X = merkle_loop cr ?Y"
      using less.prems(1,4) True merkle_loop.simps [of cr xs] merkle_loop.simps [of cr ys] by simp
    have inp: "set (layer_inputs zs) \<subseteq> set (merkle_inputs cr zs)"
        "set (merkle_inputs cr (merkle_layer cr zs)) \<subseteq> set (merkle_inputs cr zs)" if "1 < length zs" for zs
      using that merkle_inputs.simps [of cr zs] by auto
    have big: "1 < length ys" using True less.prems(1) by simp
    from less.hyps [OF len(2,1,3) wid eq] show ?thesis
    proof
      assume "?X = ?Y"
      then have "layer_inputs xs = layer_inputs ys \<or>
          (\<exists>a \<in> set (layer_inputs xs). \<exists>b \<in> set (layer_inputs ys). a \<noteq> b \<and> cr_blake2s cr a = cr_blake2s cr b)"
        by (simp only: merkle_layer_map) (rule map_eq_clash)
      with layer_inputs_inj [OF less.prems(1,3)] inp(1) [OF True] inp(1) [OF big] show ?thesis by blast
    qed (use inp(2) [OF True] inp(2) [OF big] in blast)
  qed
qed

text \<open>
  C37. A Merkle root binds its leaves: two lists of the same number of 32-byte hashes with the
  same root are equal, or computing the two roots hashes two different byte strings to the
  same value.
\<close>

theorem merkle_root_binds:
  assumes "\<forall>b. length (cr_blake2s cr b) = 32" "length xs = length ys" "\<forall>h \<in> set xs \<union> set ys. length h = 32"
    "merkle_root cr xs = merkle_root cr ys"
  shows "xs = ys \<or> (\<exists>a \<in> set (merkle_inputs cr xs). \<exists>b \<in> set (merkle_inputs cr ys). a \<noteq> b \<and>
    cr_blake2s cr a = cr_blake2s cr b)"
proof (cases "xs = []")
  case False
  have "merkle_root cr zs = merkle_loop cr zs" if "zs \<noteq> []" for zs
    using that by (cases zs) (auto simp: merkle_root_def merkle_loop.simps [of cr "[_]"])
  moreover have "ys \<noteq> []" using False assms(2) by auto
  ultimately show ?thesis using merkle_loop_binds [OF assms(1,2) False assms(3)] assms(4) False by simp
qed (use assms(2) in simp)

text \<open>
  A Merkle root does not bind the number of its leaves: repeating the last leaf of a list
  of odd length above one gives the same root.
\<close>

theorem merkle_root_odd_tail:
  assumes "odd (length hs)" "1 < length hs"
  shows "merkle_root cr (hs @ [last hs]) = merkle_root cr hs"
proof -
  have "merkle_layer cr (hs @ [last hs]) = merkle_layer cr hs" using assms(1)
    by (induction cr hs rule: merkle_layer.induct) auto
  then have "merkle_loop cr (hs @ [last hs]) = merkle_loop cr hs"
    using assms(2) merkle_loop.simps [of cr hs] merkle_loop.simps [of cr "hs @ [last hs]"] by (cases hs) simp_all
  moreover have "hs \<noteq> []" "length hs \<noteq> 1" using assms by auto
  ultimately show ?thesis by (simp add: merkle_root_def)
qed

subsection \<open>What the signed bytes bind\<close>

definition header_ok :: "block_header \<Rightarrow> bool" where
  "header_ok h \<longleftrightarrow> length (bh_proposer h) = 20 \<and>
     (\<forall>x \<in> {bh_prev_hash h, bh_tx_root h, bh_state_root h, bh_receipts_root h, bh_events_root_post h,
        bh_events_root_poc h, bh_rollup_root h, bh_da_root h, bh_vrf_output h}. length x = 32)"

lemma header_bytes_inj:
  assumes "header_ok h" "header_ok k" "concat (header_pieces h) = concat (header_pieces k)"
  shows "header_pieces h = header_pieces k"
proof (rule concat_widths_inj [OF _ assms(3)])
  show "map length (header_pieces h) = map length (header_pieces k)"
    using assms(1,2) by (simp add: header_ok_def header_pieces_def)
qed

text \<open>
  C36. The block hash commits to the header: two headers with the same hash, whose hashed bytes
  the hash function tells apart, agree on every field but the proof of the random output, the
  signature and the key.
\<close>

theorem block_hash_commits:
  assumes "header_ok h" "header_ok k" "inj_on (cr_blake2s cr) {concat (header_pieces h), concat (header_pieces k)}"
    "block_hash cr h = block_hash cr k"
  shows "k = h\<lparr>bh_vrf_proof := bh_vrf_proof k, bh_signature := bh_signature k, bh_proposer_pk := bh_proposer_pk k\<rparr>"
proof -
  have "concat (header_pieces h) = concat (header_pieces k)"
    by (rule inj_onD [OF assms(3)]) (use assms(4) in \<open>simp_all add: block_hash_def hash_multiple_def\<close>)
  from header_bytes_inj [OF assms(1,2) this] show ?thesis
    by (intro block_header.equality) (simp_all add: header_pieces_def)
qed

subsection \<open>What a verified certificate proves\<close>

lemma qc_check_sound:
  "qc_check cr qc vset votes seen = Inr (Some out) \<Longrightarrow> out = rev (map vt_voter votes) @ seen \<and>
     (distinct seen \<longrightarrow> distinct out) \<and>
     (\<forall>v \<in> set votes. vt_block_hash v = qc_block_hash qc \<and> vt_height v = qc_height qc \<and> vt_epoch v = qc_epoch qc \<and>
        vt_round v = qc_round qc \<and> address_from_public_key cr (vt_voter_pk v) = vt_voter v \<and>
        vt_voter v \<in> set vset \<and> vote_verify cr v = Inr True)"
proof (induction votes arbitrary: seen)
  case (Cons v votes)
  from Cons.prems have v: "vt_block_hash v = qc_block_hash qc" "vt_height v = qc_height qc" "vt_epoch v = qc_epoch qc"
      "vt_round v = qc_round qc" "address_from_public_key cr (vt_voter_pk v) = vt_voter v" "vt_voter v \<in> set vset"
      "vt_voter v \<notin> set seen" "vote_verify cr v = Inr True"
    and rest: "qc_check cr qc vset votes (vt_voter v # seen) = Inr (Some out)"
    by (simp_all split: if_splits)
  from Cons.IH [OF rest] have o: "out = rev (map vt_voter votes) @ vt_voter v # seen"
    and d: "distinct (vt_voter v # seen) \<longrightarrow> distinct out" by blast+
  have "distinct seen \<longrightarrow> distinct out" using d v(7) by simp
  with Cons.IH [OF rest] v o show ?case by (intro conjI) simp_all
qed simp

lemma qc_verify_sound:
  assumes "qc_verify cr qc votes vset = Inr True"
  shows "distinct (map vt_voter votes) \<and> vt_voter ` set votes \<subseteq> set vset \<and>
    2 * length vset div 3 + 1 \<le> length votes \<and>
    (\<forall>v \<in> set votes. vt_block_hash v = qc_block_hash qc \<and> vt_height v = qc_height qc \<and> vt_epoch v = qc_epoch qc \<and>
      vt_round v = qc_round qc \<and> address_from_public_key cr (vt_voter_pk v) = vt_voter v \<and> vote_verify cr v = Inr True)"
proof -
  from assms obtain seen where chk: "qc_check cr qc vset votes [] = Inr (Some seen)"
    and len: "2 * length vset div 3 + 1 \<le> length seen"
    by (auto simp: qc_verify_def split: if_splits option.splits)
  from qc_check_sound [OF chk] len show ?thesis by (auto simp: distinct_map)
qed


text \<open>
  The random output of a proposer verifies: with a signature scheme that accepts its own
  64-byte signatures, the proof \<open>compute_vrf_output\<close> returns is accepted for the same epoch
  and slot, and gives back the same output.
\<close>

theorem vrf_verifies:
  assumes "\<forall>m. length (cr_ed25519_sign cr (kp_ed25519_sk kp) m) = 64"
    "\<forall>m. cr_ed25519_verify cr (kp_ed25519_pk kp) m (cr_ed25519_sign cr (kp_ed25519_sk kp) m)"
    "length (kp_ed25519_pk kp) = 32" "cr_ed25519_key_ok cr (kp_ed25519_pk kp)"
    "compute_vrf_output cr kp epoch slot = (out, proof)"
  shows "verify_vrf_output cr (ed25519_public_key kp) epoch slot proof = Some out"
  using assms
  by (auto simp: Let_def compute_vrf_output_def verify_vrf_output_def verify_signature_def sign_ed25519_def
      sg_ed25519_def ed25519_public_key_def pk_ed25519_def sg_ed25519_bytes_def)

subsection \<open>The properties at work\<close>

definition cut_crypto :: crypto where
  "cut_crypto = clear_crypto\<lparr>cr_blake2s := (\<lambda>b. take 32 (b @ replicate 32 0))\<rparr>"

lemma merkle_loop_two: "merkle_loop cr [a, b] = hash_multiple cr [a, b]"
  using merkle_loop.simps [of cr "[a, b]"] merkle_loop.simps [of cr "[hash_multiple cr [a, b]]"] by simp

theorem merkle_root_binds_witness:
  "merkle_root cut_crypto [replicate 32 1, replicate 32 2] = merkle_root cut_crypto [replicate 32 1, replicate 32 3] \<and>
   (\<exists>a \<in> set (merkle_inputs cut_crypto [replicate 32 1, replicate 32 2]).
    \<exists>b \<in> set (merkle_inputs cut_crypto [replicate 32 1, replicate 32 3]). a \<noteq> b \<and> cr_blake2s cut_crypto a = cr_blake2s cut_crypto b)"
proof -
  let ?X = "[replicate 32 1, replicate 32 2] :: hash list" and ?Y = "[replicate 32 1, replicate 32 3] :: hash list"
  have r: "merkle_root cut_crypto ?X = merkle_root cut_crypto ?Y"
    by (simp add: merkle_root_def merkle_loop_two hash_multiple_def cut_crypto_def)
  have w: "\<forall>b. length (cr_blake2s cut_crypto b) = 32" by (auto simp: cut_crypto_def min_def)
  have "?X \<noteq> ?Y" by simp
  with merkle_root_binds [OF w _ _ r] r show ?thesis by simp
qed

theorem merkle_root_odd_tail_witness:
  "merkle_root clear_crypto [[1], [2], [3], [3]] = merkle_root clear_crypto [[1], [2], [3]]"
  using merkle_root_odd_tail [of "[[1], [2], [3]]" clear_crypto] by simp

definition demo_header :: block_header where
  "demo_header = header_new 9 4 4 1 ZERO_HASH (replicate 20 0) roots_empty ZERO_HASH []"

theorem block_hash_commits_witness:
  "block_hash clear_crypto demo_header = block_hash clear_crypto (demo_header\<lparr>bh_vrf_proof := [1]\<rparr>) \<and>
   demo_header\<lparr>bh_vrf_proof := [1]\<rparr> = demo_header\<lparr>bh_vrf_proof := [1], bh_signature := bh_signature demo_header,
     bh_proposer_pk := bh_proposer_pk demo_header\<rparr>"
proof -
  let ?k = "demo_header\<lparr>bh_vrf_proof := [1]\<rparr>"
  have "header_ok demo_header" "header_ok ?k"
    by (simp_all add: header_ok_def demo_header_def header_new_def roots_empty_def ZERO_HASH_def)
  moreover have "inj_on (cr_blake2s clear_crypto) A" for A by (simp add: clear_crypto_def inj_on_def)
  moreover have "block_hash clear_crypto demo_header = block_hash clear_crypto ?k"
    by (simp add: block_hash_def header_pieces_def)
  ultimately show ?thesis using block_hash_commits [of demo_header ?k clear_crypto] by simp
qed

definition demo_keys :: key_pair where
  "demo_keys = \<lparr>kp_ed25519_sk = replicate 32 7, kp_ed25519_pk = replicate 32 7, kp_dilithium_sk = [5], kp_dilithium_pk = [5]\<rparr>"

definition demo_vote :: "hash \<Rightarrow> vote" where
  "demo_vote bh = vote_new clear_crypto 0 bh 4 4 0 demo_keys Scheme_Dilithium"

definition demo_qc :: "hash \<Rightarrow> quorum_certificate" where
  "demo_qc bh = qc_new clear_crypto 0 bh 4 4 0 [demo_vote bh]"

definition demo_validators :: "address list" where
  "demo_validators = [scheme_address clear_crypto Scheme_Dilithium demo_keys]"

lemma demo_qc_verifies: "qc_verify clear_crypto (demo_qc bh) [demo_vote bh] demo_validators = Inr True"
  by (simp add: qc_verify_def demo_qc_def qc_new_def demo_validators_def demo_vote_def vote_new_def scheme_address_def
      vote_verify_def verify_signature_def sign_dilithium_def sg_dilithium2_def dilithium_public_key_def
      pk_dilithium2_def demo_keys_def clear_crypto_def)


theorem vrf_verifies_witness:
  "verify_vrf_output clear_crypto (ed25519_public_key demo_keys) 3 4 (snd (compute_vrf_output clear_crypto demo_keys 3 4)) =
   Some (fst (compute_vrf_output clear_crypto demo_keys 3 4))"
  by (rule vrf_verifies) (auto simp: clear_crypto_def demo_keys_def min_def)

end
