(* ===== verification/Fork_Choice.thy ===== *)
theory Fork_Choice
  imports Bft_Types "HOL-Library.List_Lexorder" "HOL-Library.Product_Lexorder"
begin

section \<open>Fork choice\<close>

text \<open>
  \<^verbatim>\<open>crates/ego-consensus-core/src/fork_choice.rs\<close>: view-change messages and the store of blocks,
  certificates and view changes, with the voting rule, the resolution of forks and the
  collection of view changes. Byte strings are ordered lexicographically. The iteration order
  of the hash maps is the parameter \<open>iter_order\<close>.
\<close>

record view_change_msg =
  vc_new_round :: u32
  vc_height :: u64
  vc_epoch :: u64
  vc_high_qc :: "quorum_certificate option"
  vc_sender :: address
  vc_sender_pk :: public_key
  vc_signature :: signature
  vc_timestamp :: timestamp

definition vc_signing_bytes :: "u32 \<Rightarrow> u64 \<Rightarrow> u64 \<Rightarrow> bytes" where
  "vc_signing_bytes new_round height epoch =
     ascii ''ego/viewchange/v1:'' @ le32 new_round @ le64 height @ le64 epoch"

definition vc_new :: "crypto \<Rightarrow> timestamp \<Rightarrow> u32 \<Rightarrow> u64 \<Rightarrow> u64 \<Rightarrow> quorum_certificate option \<Rightarrow> key_pair \<Rightarrow>
    sig_scheme \<Rightarrow> view_change_msg" where
  "vc_new cr now new_round height epoch high_qc kp sc = \<lparr>
     vc_new_round = new_round, vc_height = height, vc_epoch = epoch, vc_high_qc = high_qc,
     vc_sender = scheme_address cr sc kp, vc_sender_pk = scheme_public_key sc kp,
     vc_signature = scheme_sign cr sc kp (vc_signing_bytes new_round height epoch), vc_timestamp = now\<rparr>"

definition vc_verify :: "crypto \<Rightarrow> view_change_msg \<Rightarrow> poc_error + bool" where
  "vc_verify cr m =
     poc_result (verify_signature cr (vc_sender_pk m)
       (vc_signing_bytes (vc_new_round m) (vc_height m) (vc_epoch m)) (vc_signature m))"

type_synonym block_table = "(hash \<times> block_header) list"

record fork_choice =
  fc_blocks :: "(u64 \<times> block_table) list"
  fc_qcs :: "hash \<rightharpoonup> quorum_certificate"
  fc_high_qc :: "quorum_certificate option"
  fc_locked_qc :: "quorum_certificate option"
  fc_view_changes :: "((u64 \<times> u32) \<times> view_change_msg list) list"
  fc_canonical_head :: "hash option"

record iter_order =
  io_heights :: "(u64 \<times> block_table) list \<Rightarrow> (u64 \<times> block_table) list"
  io_hashes :: "block_table \<Rightarrow> block_table"

definition order_ok :: "iter_order \<Rightarrow> bool" where
  "order_ok io \<longleftrightarrow> (\<forall>t. set (io_heights io t) = set t) \<and>
     (\<forall>t. set (io_hashes io t) = set t \<and> length (io_hashes io t) = length t)"

definition fc_new :: fork_choice where
  "fc_new = \<lparr>fc_blocks = [], fc_qcs = Map.empty, fc_high_qc = None, fc_locked_qc = None,
     fc_view_changes = [], fc_canonical_head = None\<rparr>"

definition blocks_at :: "fork_choice \<Rightarrow> u64 \<Rightarrow> block_table" where
  "blocks_at fc h = (case map_of (fc_blocks fc) h of None \<Rightarrow> [] | Some m \<Rightarrow> m)"

definition add_block :: "crypto \<Rightarrow> block_header \<Rightarrow> fork_choice \<Rightarrow> fork_choice" where
  "add_block cr header fc =
     fc\<lparr>fc_blocks := AList.update (bh_height header)
          (AList.update (block_hash cr header) header (blocks_at fc (bh_height header))) (fc_blocks fc)\<rparr>"

text \<open>\<open>qc.epoch > q.epoch || (qc.epoch == q.epoch && qc.round > q.round)\<close>, or there is none yet.\<close>

definition qc_higher :: "quorum_certificate \<Rightarrow> quorum_certificate option \<Rightarrow> bool" where
  "qc_higher qc old = (case old of None \<Rightarrow> True
     | Some q \<Rightarrow> qc_epoch q < qc_epoch qc \<or> (qc_epoch qc = qc_epoch q \<and> qc_round q < qc_round qc))"

definition add_qc :: "quorum_certificate \<Rightarrow> fork_choice \<Rightarrow> fork_choice" where
  "add_qc qc fc =
     (let fc1 = (if qc_higher qc (fc_high_qc fc) then fc\<lparr>fc_high_qc := Some qc\<rparr> else fc)
      in fc1\<lparr>fc_qcs := (fc_qcs fc1)(qc_block_hash qc \<mapsto> qc)\<rparr>)"

definition update_locked_qc :: "quorum_certificate \<Rightarrow> fork_choice \<Rightarrow> fork_choice" where
  "update_locked_qc qc fc =
     (if qc_higher qc (fc_locked_qc fc)
      then fc\<lparr>fc_locked_qc := Some qc, fc_canonical_head := Some (qc_block_hash qc)\<rparr> else fc)"

text \<open>\<open>self.blocks.values().find_map(|m| m.get(&hash))\<close>.\<close>

fun find_in_tables :: "(u64 \<times> block_table) list \<Rightarrow> hash \<Rightarrow> block_header option" where
  "find_in_tables [] h = None"
| "find_in_tables ((_, m) # ts) h = (case map_of m h of Some b \<Rightarrow> Some b | None \<Rightarrow> find_in_tables ts h)"

definition find_block :: "iter_order \<Rightarrow> fork_choice \<Rightarrow> hash \<Rightarrow> block_header option" where
  "find_block io fc h = find_in_tables (io_heights io (fc_blocks fc)) h"

fun walk_back :: "iter_order \<Rightarrow> fork_choice \<Rightarrow> nat \<Rightarrow> hash \<Rightarrow> hash \<Rightarrow> bool" where
  "walk_back io fc 0 current anc = False"
| "walk_back io fc (Suc n) current anc =
     (if current = anc then True
      else case find_block io fc current of
        Some b \<Rightarrow> walk_back io fc n (bh_prev_hash b) anc
      | None \<Rightarrow> False)"

definition extends_locked :: "crypto \<Rightarrow> iter_order \<Rightarrow> fork_choice \<Rightarrow> block_header \<Rightarrow> hash \<Rightarrow> bool" where
  "extends_locked cr io fc block anc =
     (if block_hash cr block = anc then True else walk_back io fc 64 (bh_prev_hash block) anc)"

definition is_safe_to_vote :: "crypto \<Rightarrow> iter_order \<Rightarrow> fork_choice \<Rightarrow> block_header \<Rightarrow> bool" where
  "is_safe_to_vote cr io fc block =
     (case fc_locked_qc fc of
        None \<Rightarrow> True
      | Some locked \<Rightarrow>
          if qc_epoch locked < bh_epoch block then True
          else if bh_epoch block = qc_epoch locked then extends_locked cr io fc block (qc_block_hash locked)
          else False)"

text \<open>\<open>min_by_key\<close> gives the first smallest element, \<open>max_by_key\<close> the last greatest.\<close>

fun first_min :: "('a \<Rightarrow> 'b::linorder) \<Rightarrow> 'a list \<Rightarrow> 'a option" where
  "first_min f [] = None"
| "first_min f (x # xs) = (case first_min f xs of None \<Rightarrow> Some x | Some y \<Rightarrow> if f x \<le> f y then Some x else Some y)"

fun last_max :: "('a \<Rightarrow> 'b::linorder) \<Rightarrow> 'a list \<Rightarrow> 'a option" where
  "last_max f [] = None"
| "last_max f (x # xs) = (case last_max f xs of None \<Rightarrow> Some x | Some y \<Rightarrow> if f x \<le> f y then Some y else Some x)"

text \<open>Descending count, then ascending bytes.\<close>

definition fork_rank :: "hash \<times> quorum_certificate \<Rightarrow> int \<times> hash" where
  "fork_rank e = (- int (voter_count (snd e)), fst e)"

definition resolve_fork :: "iter_order \<Rightarrow> fork_choice \<Rightarrow> u64 \<Rightarrow> hash option" where
  "resolve_fork io fc height =
     (case map_of (fc_blocks fc) height of
        None \<Rightarrow> None
      | Some candidates \<Rightarrow>
          (let keys = map fst (io_hashes io candidates) in
           if length candidates = 1 then Some (hd keys)
           else let with_qc = concat (map (\<lambda>h. case fc_qcs fc h of None \<Rightarrow> [] | Some qc \<Rightarrow> [(h, qc)]) keys)
                in if length with_qc = 1 then Some (fst (hd with_qc))
                   else if with_qc = [] then first_min (\<lambda>h. h) keys
                   else Some (fst (hd (sort_key fork_rank with_qc)))))"

definition get_canonical_head :: "iter_order \<Rightarrow> fork_choice \<Rightarrow> block_header option" where
  "get_canonical_head io fc = (case fc_canonical_head fc of None \<Rightarrow> None | Some h \<Rightarrow> find_block io fc h)"

definition view_changes_at :: "fork_choice \<Rightarrow> u64 \<Rightarrow> u32 \<Rightarrow> view_change_msg list" where
  "view_changes_at fc h r = (case map_of (fc_view_changes fc) (h, r) of None \<Rightarrow> [] | Some l \<Rightarrow> l)"

definition best_high_qc :: "view_change_msg list \<Rightarrow> quorum_certificate option" where
  "best_high_qc msgs = last_max (\<lambda>qc. (qc_epoch qc, qc_round qc)) (List.map_filter vc_high_qc msgs)"

text \<open>The new store and the result; the entry of the round is created even when nothing is added.\<close>

definition add_view_change :: "crypto \<Rightarrow> view_change_msg \<Rightarrow> nat \<Rightarrow> fork_choice \<Rightarrow>
    poc_error + fork_choice \<times> quorum_certificate option option" where
  "add_view_change cr msg quorum fc =
     rbind (vc_verify cr msg) (\<lambda>ok.
       if \<not> ok then Inl Bad_View_Change_Signature
       else let key = (vc_height msg, vc_new_round msg);
                msgs = view_changes_at fc (vc_height msg) (vc_new_round msg)
            in if vc_sender msg \<in> vc_sender ` set msgs
               then Inr (fc\<lparr>fc_view_changes := AList.update key msgs (fc_view_changes fc)\<rparr>, None)
               else let msgs1 = msgs @ [msg];
                        fc1 = fc\<lparr>fc_view_changes := AList.update key msgs1 (fc_view_changes fc)\<rparr>
                    in if quorum \<le> length msgs1
                       then (let best = best_high_qc msgs1
                             in Inr (case best of None \<Rightarrow> fc1 | Some qc \<Rightarrow> add_qc qc fc1, Some best))
                       else Inr (fc1, None))"

definition prune_view_changes :: "u64 \<Rightarrow> fork_choice \<Rightarrow> fork_choice" where
  "prune_view_changes m fc = fc\<lparr>fc_view_changes := filter (\<lambda>((h, _), _). m \<le> h) (fc_view_changes fc)\<rparr>"

definition highest_view_change_round :: "fork_choice \<Rightarrow> u64 \<Rightarrow> u32" where
  "highest_view_change_round fc height =
     fold max (map (\<lambda>((_, r), _). r) (filter (\<lambda>((h, _), _). h = height) (fc_view_changes fc))) 0"

definition prune_blocks :: "u64 \<Rightarrow> fork_choice \<Rightarrow> fork_choice" where
  "prune_blocks k fc = fc\<lparr>fc_blocks := filter (\<lambda>(h, _). k \<le> h) (fc_blocks fc)\<rparr>"

subsection \<open>Resolution of forks\<close>

definition tables_ok :: "fork_choice \<Rightarrow> bool" where
  "tables_ok fc \<longleftrightarrow> distinct (map fst (fc_blocks fc)) \<and> (\<forall>(h, m) \<in> set (fc_blocks fc). distinct (map fst m))"

lemma add_block_tables_ok:
  assumes "tables_ok fc"
  shows "tables_ok (add_block cr b fc)"
proof -
  let ?t = "AList.update (block_hash cr b) b (blocks_at fc (bh_height b))"
  have "distinct (map fst (blocks_at fc (bh_height b)))"
    using assms by (auto simp: tables_ok_def blocks_at_def split: option.splits dest: map_of_SomeD)
  then have t: "distinct (map fst ?t)" by (rule distinct_keys_update)
  have "(h, m) \<in> set (AList.update k v l) \<Longrightarrow> (h, m) \<in> set l \<or> m = v" for h m k v and l :: "(u64 \<times> block_table) list"
    by (induction l) (auto split: if_splits)
  with t assms show ?thesis
    by (fastforce simp: tables_ok_def add_block_def distinct_keys_update)
qed

text \<open>
  What \<open>resolve_fork\<close> should give, without regard to the order of iteration: the candidate whose
  certificate has most voters, the smallest hash among equals, or the smallest hash when no
  candidate has a certificate.
\<close>

definition fork_winner :: "fork_choice \<Rightarrow> u64 \<Rightarrow> hash option" where
  "fork_winner fc height =
     (case map_of (fc_blocks fc) height of
        None \<Rightarrow> None
      | Some m \<Rightarrow>
          (let C = fst ` set m;
               Q = {(h, qc). h \<in> C \<and> fc_qcs fc h = Some qc}
           in if C = {} then None
              else if Q = {} then Some (Min C)
              else Some (snd (Min (fork_rank ` Q)))))"

lemma first_min_Min: "xs \<noteq> [] \<Longrightarrow> first_min (\<lambda>h. h) xs = Some (Min (set xs))"
proof (induction xs)
  case (Cons x xs)
  then show ?case by (cases "xs = []") (auto simp: min_def)
qed simp

lemma hd_sort_key:
  fixes f :: "'a \<Rightarrow> 'b::linorder"
  assumes "l \<noteq> []"
  shows "f (hd (sort_key f l)) = Min (f ` set l)"
proof -
  obtain y ys where s: "sort_key f l = y # ys" using assms by (metis list.exhaust set_sort set_empty)
  have "sorted (map f (y # ys))" using sorted_sort_key [of f l] s by simp
  moreover have "set (y # ys) = set l" using set_sort [of f l] s by simp
  ultimately have "Min (f ` set l) = f y" by (intro Min_eqI) auto
  with s show ?thesis by simp
qed

lemma order_keys:
  assumes "order_ok io" "distinct (map fst m)"
  shows "set (map fst (io_hashes io m)) = fst ` set m" "distinct (map fst (io_hashes io m))"
    "length (map fst (io_hashes io m)) = length m"
proof -
  show s: "set (map fst (io_hashes io m)) = fst ` set m" and l: "length (map fst (io_hashes io m)) = length m"
    using assms(1) by (auto simp: order_ok_def)
  have "card (fst ` set m) = length m" using distinct_card [OF assms(2)] by simp
  with s l show "distinct (map fst (io_hashes io m))" by (metis card_distinct)
qed

lemma with_qc_set:
  "set (concat (map (\<lambda>h. case f h of None \<Rightarrow> [] | Some qc \<Rightarrow> [(h, qc)]) ks)) = {(h, qc). h \<in> set ks \<and> f h = Some qc}"
  by (auto split: option.splits)


subsection \<open>The voting rule\<close>

text \<open>A stored block links its hash to the hash of its parent.\<close>

definition block_link :: "fork_choice \<Rightarrow> hash \<Rightarrow> hash \<Rightarrow> bool" where
  "block_link fc h p \<longleftrightarrow> (\<exists>(_, m) \<in> set (fc_blocks fc). \<exists>b. map_of m h = Some b \<and> bh_prev_hash b = p)"

lemma find_in_tables_Some: "find_in_tables ts h = Some b \<Longrightarrow> \<exists>(_, m) \<in> set ts. map_of m h = Some b"
  by (induction ts h rule: find_in_tables.induct) (auto split: option.splits)

lemma find_in_tables_None: "find_in_tables ts h = None \<Longrightarrow> (i, m) \<in> set ts \<Longrightarrow> map_of m h = None"
  by (induction ts h rule: find_in_tables.induct) (auto split: option.splits)

definition links_ok :: "fork_choice \<Rightarrow> bool" where
  "links_ok fc \<longleftrightarrow> (\<forall>h p q. block_link fc h p \<longrightarrow> block_link fc h q \<longrightarrow> p = q)"

lemma find_block_link:
  assumes "order_ok io" "links_ok fc"
  shows "block_link fc h p \<longleftrightarrow> (\<exists>b. find_block io fc h = Some b \<and> bh_prev_hash b = p)"
proof -
  have s: "set (io_heights io (fc_blocks fc)) = set (fc_blocks fc)" using assms(1) by (simp add: order_ok_def)
  have found: "block_link fc h (bh_prev_hash b)" if "find_block io fc h = Some b" for b
    using find_in_tables_Some [OF that [unfolded find_block_def]] by (auto simp: block_link_def s)
  moreover have "find_block io fc h \<noteq> None" if "block_link fc h p"
    using that find_in_tables_None [of "io_heights io (fc_blocks fc)" h] s by (force simp: block_link_def find_block_def)
  ultimately show ?thesis using assms(2) unfolding links_ok_def by (metis not_None_eq)
qed

lemma walk_back_steps:
  assumes "order_ok io" "links_ok fc"
  shows "walk_back io fc n c a \<longleftrightarrow> (\<exists>k < n. (block_link fc ^^ k) c a)"
proof (induction n arbitrary: c)
  case (Suc n)
  have "walk_back io fc (Suc n) c a \<longleftrightarrow> c = a \<or> (\<exists>p. block_link fc c p \<and> (\<exists>k < n. (block_link fc ^^ k) p a))"
    using Suc by (auto simp: find_block_link [OF assms, of c] split: option.splits)
  also have "\<dots> \<longleftrightarrow> (\<exists>k < Suc n. (block_link fc ^^ k) c a)"
  proof
    assume "\<exists>k < Suc n. (block_link fc ^^ k) c a"
    then obtain k where k: "k < Suc n" "(block_link fc ^^ k) c a" by blast
    then show "c = a \<or> (\<exists>p. block_link fc c p \<and> (\<exists>k < n. (block_link fc ^^ k) p a))"
      using relpowp_Suc_D2 [of _ "block_link fc" c a] by (cases k) (auto simp del: relpowp.simps(2))
  next
    assume "c = a \<or> (\<exists>p. block_link fc c p \<and> (\<exists>k < n. (block_link fc ^^ k) p a))"
    then show "\<exists>k < Suc n. (block_link fc ^^ k) c a"
      by (metis Suc_less_eq relpowp_0_I relpowp_Suc_I2 zero_less_Suc)
  qed
  finally show ?case .
qed simp


subsection \<open>Collecting view changes\<close>

definition view_changes_ok :: "crypto \<Rightarrow> fork_choice \<Rightarrow> bool" where
  "view_changes_ok cr fc \<longleftrightarrow> (\<forall>h r. distinct (map vc_sender (view_changes_at fc h r)) \<and>
     (\<forall>m \<in> set (view_changes_at fc h r). vc_height m = h \<and> vc_new_round m = r \<and> vc_verify cr m = Inr True))"

lemma last_max_bound: "x \<in> set xs \<Longrightarrow> \<exists>y. last_max f xs = Some y \<and> f x \<le> f y"
  by (induction xs) (auto split: option.splits intro: order.trans)

lemma last_max_in: "last_max f xs = Some y \<Longrightarrow> y \<in> set xs"
  by (induction xs) (auto split: option.splits if_splits)

lemma add_qc_view_changes [simp]: "fc_view_changes (add_qc qc fc) = fc_view_changes fc"
  "view_changes_at (add_qc qc fc) h r = view_changes_at fc h r"
  by (simp_all add: add_qc_def view_changes_at_def Let_def)

lemma view_changes_at_update:
  "view_changes_at (fc\<lparr>fc_view_changes := AList.update (h, r) l (fc_view_changes fc)\<rparr>) h' r' =
     (if h' = h \<and> r' = r then l else view_changes_at fc h' r')"
  by (auto simp: view_changes_at_def)

lemma add_view_change_cases:
  assumes "add_view_change cr msg q fc = Inr (fc', res)"
  shows "vc_verify cr msg = Inr True \<and>
    (let msgs = view_changes_at fc (vc_height msg) (vc_new_round msg) in
     (vc_sender msg \<in> vc_sender ` set msgs \<and> res = None \<and> view_changes_at fc' = view_changes_at fc) \<or>
     (vc_sender msg \<notin> vc_sender ` set msgs \<and>
       view_changes_at fc' = (\<lambda>h r. if h = vc_height msg \<and> r = vc_new_round msg then msgs @ [msg] else view_changes_at fc h r) \<and>
       res = (if q \<le> length msgs + 1 then Some (best_high_qc (msgs @ [msg])) else None)))"
  using assms
  by (auto simp: add_view_change_def Let_def view_changes_at_update fun_eq_iff
      split: if_splits option.splits)

lemma add_view_change_ok:
  assumes "view_changes_ok cr fc" "add_view_change cr msg q fc = Inr (fc', res)"
  shows "view_changes_ok cr fc'"
  using assms(1) add_view_change_cases [OF assms(2)] by (auto simp: view_changes_ok_def Let_def split: if_splits)


subsection \<open>The properties at work\<close>

definition reverse_order :: iter_order where
  "reverse_order = \<lparr>io_heights = rev, io_hashes = rev\<rparr>"

lemma reverse_order_ok: "order_ok reverse_order"
  by (simp add: order_ok_def reverse_order_def)



definition demo_view_change :: view_change_msg where
  "demo_view_change = vc_new clear_crypto 0 1 4 4 (Some (demo_qc [1])) demo_keys Scheme_Dilithium"

lemma demo_view_change_verifies: "vc_verify clear_crypto demo_view_change = Inr True"
  by (simp add: vc_verify_def demo_view_change_def vc_new_def verify_signature_def sign_dilithium_def sg_dilithium2_def
      dilithium_public_key_def pk_dilithium2_def demo_keys_def clear_crypto_def)


end
