(* ===== verification/Bft_Engine.thy ===== *)
theory Bft_Engine
  imports Fork_Choice
begin

section \<open>The BFT engine\<close>

text \<open>
  \<open>BftEngine\<close> of \<^verbatim>\<open>crates/ego-consensus-core/src/bft.rs\<close>. The fields behind locks are fields of one
  record; every operation returns the new engine, also when it reports an error, because some
  change state before they fail. \<open>clk i\<close> is the \<open>i\<close>-th reading of the clock during a call. The
  iteration order of the table of votes is the parameter \<open>vo\<close>.
\<close>

datatype round_phase = Phase_Propose | Phase_Vote | Phase_Commit | Phase_Finalized | Phase_View_Change

record round_state =
  rs_height :: u64
  rs_epoch :: u64
  rs_round :: u32
  rs_phase :: round_phase
  rs_proposed_block :: "block_header option"
  rs_votes :: "(address \<times> vote) list"
  rs_qc :: "quorum_certificate option"
  rs_phase_started_at :: timestamp
  rs_voted_for :: "hash option"

definition rs_new :: "timestamp \<Rightarrow> u64 \<Rightarrow> u64 \<Rightarrow> u32 \<Rightarrow> round_state" where
  "rs_new now height epoch round = \<lparr>rs_height = height, rs_epoch = epoch, rs_round = round,
     rs_phase = Phase_Propose, rs_proposed_block = None, rs_votes = [], rs_qc = None,
     rs_phase_started_at = now, rs_voted_for = None\<rparr>"

definition is_phase_timed_out :: "timestamp \<Rightarrow> round_state \<Rightarrow> bool" where
  "is_phase_timed_out now s =
     (let t = (case rs_phase s of Phase_Propose \<Rightarrow> PROPOSE_TIMEOUT_MS | Phase_Vote \<Rightarrow> VOTE_TIMEOUT_MS
                 | Phase_Commit \<Rightarrow> COMMIT_TIMEOUT_MS | _ \<Rightarrow> - 1)
      in t < sat_sub now (rs_phase_started_at s))"

definition advance_phase :: "timestamp \<Rightarrow> round_phase \<Rightarrow> round_state \<Rightarrow> round_state" where
  "advance_phase now p s = s\<lparr>rs_phase := p, rs_phase_started_at := now\<rparr>"

record bft_engine =
  en_keypair :: key_pair
  en_address :: address
  en_weights :: "u64 list"
  en_scheme :: sig_scheme
  en_validators :: "address list"
  en_finalized :: "(block_header \<times> quorum_certificate) list"
  en_round :: round_state
  en_epoch :: u64
  en_height :: u64
  en_vrf_outputs :: "u64 \<rightharpoonup> hash"
  en_fork_choice :: fork_choice
  en_asks :: u64

type_synonym clock = "nat \<Rightarrow> timestamp"
type_synonym vote_order = "(address \<times> vote) list \<Rightarrow> (address \<times> vote) list"

definition engine_new :: "crypto \<Rightarrow> clock \<Rightarrow> key_pair \<Rightarrow> address list \<Rightarrow> sig_scheme \<Rightarrow> bft_engine" where
  "engine_new cr clk kp vset sc = \<lparr>en_keypair = kp, en_address = scheme_address cr sc kp, en_weights = [],
     en_scheme = sc, en_validators = vset, en_finalized = [], en_round = rs_new (clk 0) 0 0 0,
     en_epoch = 0, en_height = 0, en_vrf_outputs = Map.empty, en_fork_choice = fc_new, en_asks = 0\<rparr>"

definition seed_height_round :: "clock \<Rightarrow> u64 \<Rightarrow> u32 \<Rightarrow> bft_engine \<Rightarrow> bft_engine" where
  "seed_height_round clk height round e =
     e\<lparr>en_height := height, en_epoch := height, en_round := rs_new (clk 0) height height round\<rparr>"

definition quorum_size :: "bft_engine \<Rightarrow> nat" where
  "quorum_size e = (2 * length (en_validators e)) div 3 + 1"

definition set_weights :: "u64 list \<Rightarrow> bft_engine \<Rightarrow> bft_engine" where
  "set_weights ws e = e\<lparr>en_weights := (if length ws = length (en_validators e) then ws else [])\<rparr>"

fun position :: "'a \<Rightarrow> 'a list \<Rightarrow> nat option" where
  "position x [] = None"
| "position x (y # ys) = (if y = x then Some 0 else map_option Suc (position x ys))"

definition weight_of :: "bft_engine \<Rightarrow> address \<Rightarrow> u64" where
  "weight_of e a =
     (if en_weights e = [] then 1
      else case position a (en_validators e) of
        None \<Rightarrow> 0
      | Some i \<Rightarrow> if i < length (en_weights e) then en_weights e ! i else 0)"

definition sum_weights :: "u64 list \<Rightarrow> u64" where
  "sum_weights ws = foldl sat_add 0 ws"

definition total_weight :: "bft_engine \<Rightarrow> u64" where
  "total_weight e = (if en_weights e = [] then of_nat (length (en_validators e)) else sum_weights (en_weights e))"

fun gather :: "bft_engine \<Rightarrow> address list \<Rightarrow> address list \<Rightarrow> u64 \<Rightarrow> u64" where
  "gather e [] seen got = got"
| "gather e (v # vs) seen got =
     (if v \<in> set seen then gather e vs seen got
      else gather e vs (seen @ [v]) (sat_add got (weight_of e v)))"

text \<open>The products are taken in \<open>u128\<close>, where they cannot overflow.\<close>

definition is_quorum :: "bft_engine \<Rightarrow> address list \<Rightarrow> bool" where
  "is_quorum e voters =
     (let total = total_weight e in
      if total = 0 then False
      else unat total * 2 < unat (gather e voters [] 0) * 3)"

fun pick_weighted :: "u64 \<Rightarrow> u64 list \<Rightarrow> nat option" where
  "pick_weighted pick [] = None"
| "pick_weighted pick (w # ws) = (if pick < w then Some 0 else map_option Suc (pick_weighted (pick - w) ws))"

definition nth_opt :: "'a list \<Rightarrow> nat \<Rightarrow> 'a option" where
  "nth_opt xs i = (if i < length xs then Some (xs ! i) else None)"

definition proposer_at :: "bft_engine \<Rightarrow> u64 \<Rightarrow> u32 \<Rightarrow> address option" where
  "proposer_at e height round =
     (let vs = en_validators e; ws = en_weights e; turn = height + ucast round in
      if vs = [] then None
      else if length ws \<noteq> length vs then nth_opt vs (unat turn mod length vs)
      else let total = sum_weights ws in
           if total = 0 then nth_opt vs (unat turn mod length vs)
           else case pick_weighted (turn mod total) ws of
             Some i \<Rightarrow> nth_opt vs i
           | None \<Rightarrow> Some (last vs))"

definition is_proposer :: "bft_engine \<Rightarrow> bool" where
  "is_proposer e \<longleftrightarrow> proposer_at e (rs_height (en_round e)) (rs_round (en_round e)) = Some (en_address e)"

definition round_electing :: "bft_engine \<Rightarrow> address \<Rightarrow> u32 \<Rightarrow> u32 option" where
  "round_electing e proposer span =
     (if en_validators e = [] then None
      else let s = en_round e; r = rs_round s
           in find (\<lambda>r. proposer_at e (rs_height s) r = Some proposer)
                (map of_nat [unat r ..< Suc (unat (sat_add r span))]))"

definition prev_hash_of :: "crypto \<Rightarrow> iter_order \<Rightarrow> bft_engine \<Rightarrow> hash" where
  "prev_hash_of cr io e =
     (case get_canonical_head io (en_fork_choice e) of
        Some b \<Rightarrow> block_hash cr b
      | None \<Rightarrow> if en_finalized e = [] then ZERO_HASH else block_hash cr (fst (last (en_finalized e))))"

definition propose_block :: "crypto \<Rightarrow> iter_order \<Rightarrow> clock \<Rightarrow> block_roots \<Rightarrow> bft_engine \<Rightarrow> bft_engine \<times> block_header" where
  "propose_block cr io clk roots e =
     (let epoch = en_epoch e; height = en_height e; slot = clk 0 div MICRO_SLOT_MS;
          prev = prev_hash_of cr io e;
          (out, proof) = compute_vrf_output cr (en_keypair e) epoch slot;
          h0 = header_new (clk 1) height epoch slot prev (en_address e) roots out proof;
          header = header_sign cr (en_keypair e) (en_scheme e) (h0\<lparr>bh_round := rs_round (en_round e)\<rparr>);
          s = (en_round e)\<lparr>rs_proposed_block := Some header\<rparr>
      in (e\<lparr>en_vrf_outputs := (en_vrf_outputs e)(epoch \<mapsto> out),
            en_fork_choice := add_block cr header (en_fork_choice e),
            en_round := advance_phase (clk 2) Phase_Vote s\<rparr>, header))"

text \<open>The round jump of \<open>receive_proposal\<close>, taken before the signature is looked at.\<close>

definition jump_to_round :: "clock \<Rightarrow> block_header \<Rightarrow> bft_engine \<Rightarrow> bft_engine" where
  "jump_to_round clk header e =
     (let s = en_round e in
      if rs_round s < bh_round header \<and> rs_height s = en_height e
      then e\<lparr>en_round := advance_phase (clk 0) Phase_Propose (s\<lparr>rs_round := bh_round header\<rparr>)\<rparr>
      else e)"

definition cast_vote :: "crypto \<Rightarrow> clock \<Rightarrow> block_header \<Rightarrow> bft_engine \<Rightarrow> bft_engine \<times> vote option" where
  "cast_vote cr clk header e =
     (let s = en_round e; bh = block_hash cr header in
      if rs_voted_for s \<noteq> None \<and> rs_voted_for s \<noteq> Some bh then (e, None)
      else let s1 = advance_phase (clk 2) Phase_Vote (s\<lparr>rs_proposed_block := Some header, rs_voted_for := Some bh\<rparr>)
           in (e\<lparr>en_round := s1\<rparr>,
               Some (vote_new cr (clk 3) bh (bh_height header) (bh_epoch header) (rs_round s)
                       (en_keypair e) (en_scheme e))))"

definition receive_proposal :: "crypto \<Rightarrow> iter_order \<Rightarrow> clock \<Rightarrow> block_header \<Rightarrow> bft_engine \<Rightarrow>
    bft_engine \<times> (poc_error + vote option)" where
  "receive_proposal cr io clk header e =
     (if bh_height header \<noteq> en_height e then (e, Inr None)
      else if bh_round header < rs_round (en_round e) then (e, Inr None)
      else if proposer_at e (en_height e) (bh_round header) \<noteq> Some (bh_proposer header) then (e, Inr None)
      else let e1 = jump_to_round clk header e in
        case header_verify_signature cr header of
          Inl err \<Rightarrow> (e1, Inl err)
        | Inr ok \<Rightarrow>
            if \<not> ok then (e1, Inr None)
            else if 30000 < sat_sub (clk 1) (bh_timestamp header) then (e1, Inr None)
            else let e2 = e1\<lparr>en_fork_choice := add_block cr header (en_fork_choice e1)\<rparr> in
              if \<not> is_safe_to_vote cr io (en_fork_choice e2) header then (e2, Inr None)
              else let (e3, v) = cast_vote cr clk header e2 in (e3, Inr v))"

definition receive_vote :: "crypto \<Rightarrow> vote_order \<Rightarrow> clock \<Rightarrow> vote \<Rightarrow> bft_engine \<Rightarrow>
    bft_engine \<times> (poc_error + quorum_certificate option)" where
  "receive_vote cr vo clk vote e =
     (case vote_verify cr vote of
        Inl err \<Rightarrow> (e, Inl err)
      | Inr ok \<Rightarrow>
          if \<not> ok then (e, Inr None)
          else if vt_height vote \<noteq> rs_height (en_round e) then (e, Inr None)
          else let s = (en_round e)\<lparr>rs_votes := AList.update (vt_voter vote) vote (rs_votes (en_round e))\<rparr>;
                   e1 = e\<lparr>en_round := s\<rparr>
               in case rs_proposed_block s of
                    None \<Rightarrow> (e1, Inr None)
                  | Some b \<Rightarrow>
                      if rs_qc s \<noteq> None then (e1, Inr None)
                      else let votes = filter (\<lambda>v. vt_block_hash v = block_hash cr b) (map snd (vo (rs_votes s)))
                           in if is_quorum e1 (map vt_voter votes)
                              then let qc = qc_new cr (clk 0) (block_hash cr b) (vt_height vote) (vt_epoch vote)
                                              (vt_round vote) votes
                                   in (e1\<lparr>en_round := advance_phase (clk 1) Phase_Commit (s\<lparr>rs_qc := Some qc\<rparr>),
                                          en_fork_choice := add_qc qc (en_fork_choice e1)\<rparr>, Inr (Some qc))
                              else (e1, Inr None))"

definition finalize_block :: "crypto \<Rightarrow> clock \<Rightarrow> block_header \<Rightarrow> quorum_certificate \<Rightarrow> bft_engine \<Rightarrow>
    bft_engine \<times> (poc_error + unit)" where
  "finalize_block cr clk header qc e =
     (if qc_block_hash qc \<noteq> block_hash cr header then (e, Inl (Validation_Failed ''QC block_hash mismatch''))
      else if voter_count qc < quorum_size e then (e, Inl (Validation_Failed ''QC insufficient votes''))
      else let new_height = bh_height header + 1; new_epoch = bh_epoch header + 1;
               f = en_finalized e @ [(header, qc)]; f1 = (if 1024 < length f then tl f else f);
               fc = prune_view_changes (bh_height header + 1)
                      (prune_blocks (sat_sub (bh_height header) 64) (update_locked_qc qc (en_fork_choice e)))
           in (e\<lparr>en_finalized := f1, en_fork_choice := fc, en_height := new_height, en_epoch := new_epoch,
                 en_round := rs_new (clk 0) new_height new_epoch 0\<rparr>, Inr ()))"

definition trigger_view_change :: "crypto \<Rightarrow> clock \<Rightarrow> bft_engine \<Rightarrow> bft_engine \<times> view_change_msg" where
  "trigger_view_change cr clk e =
     (let s = en_round e; fc = en_fork_choice e;
          joined = max (rs_round s + 1) (highest_view_change_round fc (rs_height s))
      in (e\<lparr>en_asks := en_asks e + 1\<rparr>,
          vc_new cr (clk 0) joined (rs_height s) (rs_epoch s) (fc_high_qc fc) (en_keypair e) (en_scheme e)))"

definition receive_view_change :: "crypto \<Rightarrow> clock \<Rightarrow> view_change_msg \<Rightarrow> bft_engine \<Rightarrow>
    bft_engine \<times> (poc_error + u32 option)" where
  "receive_view_change cr clk msg e =
     (let s = en_round e in
      if vc_height msg \<noteq> rs_height s \<or> vc_new_round msg \<le> rs_round s then (e, Inr None)
      else case add_view_change cr msg (quorum_size e) (en_fork_choice e) of
        Inl err \<Rightarrow> (e, Inl err)
      | Inr (fc, None) \<Rightarrow> (e\<lparr>en_fork_choice := fc\<rparr>, Inr None)
      | Inr (fc, Some best) \<Rightarrow>
          (e\<lparr>en_fork_choice := (case best of None \<Rightarrow> fc | Some qc \<Rightarrow> add_qc qc fc),
             en_round := rs_new (clk 0) (rs_height s) (rs_epoch s) (vc_new_round msg), en_asks := 0\<rparr>,
           Inr (Some (vc_new_round msg))))"

subsection \<open>Weights and quorums\<close>

definition weight_sum :: "bft_engine \<Rightarrow> address set \<Rightarrow> nat" where
  "weight_sum e A = (\<Sum>a \<in> A. unat (weight_of e a))"

lemma min_u64 [simp]: "min (unat x) (2 ^ 64 - 1) = unat x" "min (unat x) 18446744073709551615 = unat x" for x :: u64
proof -
  have "unat x < 2 ^ 64" using unsigned_less [of x, where 'a = nat] by simp
  then show "min (unat x) (2 ^ 64 - 1) = unat x" "min (unat x) 18446744073709551615 = unat x" by simp_all
qed

lemma unat_gather:
  "unat (gather e vs seen got) = min (unat got + weight_sum e (set vs - set seen)) (2 ^ 64 - 1)"
proof (induction e vs seen got rule: gather.induct)
  case (1 e seen got)
  then show ?case by (simp add: weight_sum_def)
next
  case (2 e v vs seen got)
  show ?case
  proof (cases "v \<in> set seen")
    case True
    with 2 show ?thesis by (simp add: insert_Diff_if)
  next
    case False
    have "set (v # vs) - set seen = insert v (set vs - set (seen @ [v]))" using False by auto
    then have "weight_sum e (set (v # vs) - set seen) = unat (weight_of e v) + weight_sum e (set vs - set (seen @ [v]))"
      by (simp add: weight_sum_def)
    with 2 False show ?thesis by (simp add: unat_sat_add)
  qed
qed

lemma unat_foldl_sat: "unat (foldl sat_add a ws) = min (unat a + sum_list (map unat ws)) (2 ^ 64 - 1)"
  for a :: u64
proof (induction ws arbitrary: a)
  case Nil
  then show ?case by simp
next
  case (Cons w ws)
  then show ?case by (simp add: unat_sat_add)
qed

lemma unat_sum_weights: "sum_list (map unat ws) < 2 ^ 64 \<Longrightarrow> unat (sum_weights ws) = sum_list (map unat ws)"
  by (simp add: sum_weights_def unat_foldl_sat)

lemma position_nth: "distinct xs \<Longrightarrow> i < length xs \<Longrightarrow> position (xs ! i) xs = Some i"
  by (induction xs arbitrary: i) (auto simp: nth_Cons split: nat.splits)

lemma position_None: "position x xs = None \<longleftrightarrow> x \<notin> set xs"
  by (induction xs) auto

lemma weight_sum_all:
  assumes "length (en_weights e) = length (en_validators e)" "distinct (en_validators e)" "en_weights e \<noteq> []"
  shows "weight_sum e (set (en_validators e)) = sum_list (map unat (en_weights e))"
proof -
  have "weight_sum e (set (en_validators e)) = sum_list (map (\<lambda>a. unat (weight_of e a)) (en_validators e))"
    using assms(2) by (simp add: weight_sum_def sum_list_distinct_conv_sum_set)
  also have "map (\<lambda>a. unat (weight_of e a)) (en_validators e) = map unat (en_weights e)"
    by (rule nth_equalityI) (use assms in \<open>auto simp: weight_of_def position_nth\<close>)
  finally show ?thesis .
qed

text \<open>The committee has weights that fit 64 bits, or none and fewer than \<open>2 ^ 64\<close> members.\<close>

definition committee_ok :: "bft_engine \<Rightarrow> bool" where
  "committee_ok e \<longleftrightarrow> distinct (en_validators e) \<and> en_validators e \<noteq> [] \<and> length (en_validators e) < 2 ^ 64 \<and>
     (en_weights e = [] \<or> length (en_weights e) = length (en_validators e) \<and> sum_list (map unat (en_weights e)) < 2 ^ 64)"

lemma total_weight_sum:
  assumes "committee_ok e"
  shows "unat (total_weight e) = weight_sum e (set (en_validators e))"
proof (cases "en_weights e = []")
  case True
  with assms show ?thesis
    by (simp add: committee_ok_def total_weight_def weight_sum_def weight_of_def distinct_card unat_of_nat)
next
  case False
  with assms show ?thesis by (simp add: committee_ok_def total_weight_def unat_sum_weights weight_sum_all)
qed

lemma weight_outside:
  "committee_ok e \<Longrightarrow> en_weights e \<noteq> [] \<Longrightarrow> a \<notin> set (en_validators e) \<Longrightarrow> weight_of e a = 0"
  by (simp add: weight_of_def position_None [THEN iffD2])

lemma is_quorum_weight:
  assumes "committee_ok e" "en_weights e = [] \<longrightarrow> set vs \<subseteq> set (en_validators e)"
  shows "is_quorum e vs \<longleftrightarrow> 2 * weight_sum e (set (en_validators e)) < 3 * weight_sum e (set vs)"
    and "weight_sum e (set vs) \<le> weight_sum e (set (en_validators e))"
proof -
  let ?T = "weight_sum e (set (en_validators e))"
  have "weight_sum e (set vs) = weight_sum e (set vs \<inter> set (en_validators e))"
    unfolding weight_sum_def
  proof (intro sum.mono_neutral_right ballI)
    fix a assume "a \<in> set vs - set vs \<inter> set (en_validators e)"
    then show "unat (weight_of e a) = 0"
      using assms(2) weight_outside [OF assms(1), of a] by (cases "en_weights e = []") auto
  qed auto
  also have "\<dots> \<le> ?T" unfolding weight_sum_def by (intro sum_mono2) auto
  finally show le: "weight_sum e (set vs) \<le> ?T" .
  have T: "unat (total_weight e) = ?T" by (rule total_weight_sum [OF assms(1)])
  then have "?T < 2 ^ 64" using unsigned_less [of "total_weight e", where 'a = nat] by simp
  with le have g: "unat (gather e vs [] 0) = weight_sum e (set vs)" by (simp add: unat_gather)
  have "total_weight e = 0 \<longleftrightarrow> ?T = 0" using T by (simp add: unat_eq_0 [symmetric])
  with T g le show "is_quorum e vs \<longleftrightarrow> 2 * ?T < 3 * weight_sum e (set vs)"
    by (auto simp: is_quorum_def Let_def)
qed


text \<open>
  Without weights the weighted test is the plain one: voters form a quorum exactly when
  there are at least \<open>quorum_size\<close> different ones, for every size of the committee.
\<close>

theorem unweighted_quorum:
  assumes "en_weights e = []" "en_validators e \<noteq> []" "length (en_validators e) < 2 ^ 64" "length vs < 2 ^ 64"
  shows "is_quorum e vs \<longleftrightarrow> quorum_size e \<le> card (set vs)"
proof -
  have "card (set vs) < 2 ^ 64" using card_length [of vs] assms(4) by simp
  then have g: "unat (gather e vs [] 0) = card (set vs)" using assms(1) by (simp add: unat_gather weight_sum_def weight_of_def)
  have t: "unat (total_weight e) = length (en_validators e)" using assms by (simp add: total_weight_def unat_of_nat)
  then have "total_weight e \<noteq> 0" using assms(2) by auto
  with g t show ?thesis by (auto simp: is_quorum_def quorum_size_def Let_def)
qed

subsection \<open>Turns\<close>

lemma pick_weighted_interval:
  assumes "unat p < sum_list (map unat ws)"
  shows "pick_weighted p ws = Some i \<longleftrightarrow> i < length ws \<and>
    sum_list (map unat (take i ws)) \<le> unat p \<and> unat p < sum_list (map unat (take i ws)) + unat (ws ! i)"
  using assms
proof (induction p ws arbitrary: i rule: pick_weighted.induct)
  case (2 p w ws)
  show ?case
  proof (cases "p < w")
    case True
    then have "unat p < unat w" by (simp add: word_less_nat_alt)
    with True show ?thesis by (cases i) auto
  next
    case False
    then have s: "unat (p - w) = unat p - unat w" "unat w \<le> unat p" by (simp_all add: unat_sub word_le_nat_alt not_less)
    with "2.prems" have "unat (p - w) < sum_list (map unat ws)" by simp
    note IH = "2.IH" [OF False this]
    show ?thesis
    proof (cases i)
      case 0
      with False s show ?thesis by (simp add: map_option_case split: option.splits)
    next
      case (Suc j)
      have "pick_weighted p (w # ws) = Some i \<longleftrightarrow> pick_weighted (p - w) ws = Some j" using False Suc by auto
      then show ?thesis using IH [of j] s Suc by auto
    qed
  qed
qed simp

lemma pick_weighted_Some: "unat p < sum_list (map unat ws) \<Longrightarrow> pick_weighted p ws \<noteq> None"
proof (induction p ws rule: pick_weighted.induct)
  case (2 p w ws)
  show ?case
  proof (cases "p < w")
    case False
    then have "unat (p - w) = unat p - unat w" "unat w \<le> unat p" by (simp_all add: unat_sub word_le_nat_alt not_less)
    with 2 False show ?thesis by simp
  qed simp
qed simp

lemma sum_take_le:
  fixes ws :: "nat list"
  assumes "i < length ws"
  shows "sum_list (take i ws) + ws ! i \<le> sum_list ws"
proof -
  have "sum_list ws = sum_list (take i ws) + sum_list (drop i ws)"
    by (metis append_take_drop_id sum_list_append)
  also have "drop i ws = ws ! i # drop (Suc i) ws" using assms by (simp add: Cons_nth_drop_Suc)
  finally show ?thesis by simp
qed

lemma card_pick:
  assumes "i < length ws" "sum_list (map unat ws) < 2 ^ 64"
  shows "card {p. p < sum_list (map unat ws) \<and> pick_weighted (of_nat p) ws = Some i} = unat (ws ! i)"
proof -
  let ?a = "sum_list (map unat (take i ws))"
  have le: "?a + unat (ws ! i) \<le> sum_list (map unat ws)"
    using sum_take_le [of i "map unat ws"] assms(1) by (simp add: take_map)
  have "{p. p < sum_list (map unat ws) \<and> pick_weighted (of_nat p) ws = Some i} = {?a ..< ?a + unat (ws ! i)}"
  proof (rule set_eqI)
    fix p
    show "p \<in> {p. p < sum_list (map unat ws) \<and> pick_weighted (of_nat p) ws = Some i} \<longleftrightarrow> p \<in> {?a ..< ?a + unat (ws ! i)}"
    proof (cases "p < sum_list (map unat ws)")
      case True
      then have u: "unat (of_nat p :: u64) = p" using assms(2) by (simp add: unat_of_nat)
      then show ?thesis using pick_weighted_interval [of "of_nat p" ws i] True assms(1) by simp
    qed (use le in auto)
  qed
  then show ?thesis by simp
qed

text \<open>
  Leadership is shared in proportion to weight: over as many consecutive rounds of a height
  as the total weight, each validator is elected exactly as often as its weight.
\<close>

theorem leadership_proportional:
  assumes "length (en_weights e) = length (en_validators e)" "distinct (en_validators e)"
    "tot = sum_list (map unat (en_weights e))" "0 < tot" "unat h + tot < 2 ^ 64" "tot \<le> 2 ^ 32"
    "i < length (en_validators e)"
  shows "card {k. k < tot \<and> proposer_at e h (of_nat k) = Some (en_validators e ! i)} = unat (en_weights e ! i)"
proof -
  let ?ws = "en_weights e"
  have small: "tot < 2 ^ 64" using assms(5) by simp
  then have tw: "unat (sum_weights ?ws) = tot" using assms(3) by (simp add: unat_sum_weights)
  then have "sum_weights ?ws \<noteq> 0" using assms(4) by auto
  have ne: "en_validators e \<noteq> []" using assms(7) by auto
  have pick: "proposer_at e h (of_nat k) = Some (en_validators e ! i) \<longleftrightarrow>
      pick_weighted (of_nat ((unat h + k) mod tot)) ?ws = Some i" if k: "k < tot" for k
  proof -
    have "unat (of_nat k :: u32) = k" using k assms(6) by (simp add: unat_of_nat)
    then have "unat (ucast (of_nat k :: u32) :: u64) = k"
      using k small by (simp add: unsigned_ucast_eq take_bit_nat_eq_self)
    then have "unat (h + ucast (of_nat k :: u32)) = unat h + k"
      using assms(5) k by (simp add: unat_word_ariths)
    then have "unat ((h + ucast (of_nat k :: u32)) mod sum_weights ?ws) = (unat h + k) mod tot"
      by (simp add: unat_mod tw)
    then have turn: "(h + ucast (of_nat k :: u32)) mod sum_weights ?ws = of_nat ((unat h + k) mod tot)"
      by (metis of_nat_unat ucast_id)
    have lt: "unat (of_nat ((unat h + k) mod tot) :: u64) < sum_list (map unat ?ws)"
      using small assms(3,4) by (simp add: unat_of_nat) (meson mod_less_divisor mod_less_eq_dividend order.strict_trans1)
    have bound: "j < length (en_validators e)" if "pick_weighted (of_nat ((unat h + k) mod tot)) ?ws = Some j" for j
      using pick_weighted_interval [OF lt, of j] that assms(1) by simp
    have some: "pick_weighted (of_nat ((unat h + k) mod tot)) ?ws \<noteq> None"
      by (rule pick_weighted_Some [OF lt])
    show ?thesis
      using \<open>sum_weights ?ws \<noteq> 0\<close> ne turn assms(1,2,7) some bound
      by (auto simp: proposer_at_def Let_def nth_opt_def nth_eq_iff_index_eq split: option.splits)
  qed
  then have "{k. k < tot \<and> proposer_at e h (of_nat k) = Some (en_validators e ! i)} =
      {k. k < tot \<and> pick_weighted (of_nat ((unat h + k) mod tot)) ?ws = Some i}" by auto
  also have "card \<dots> = card {p. p < tot \<and> pick_weighted (of_nat p) ?ws = Some i}"
    by (rule card_turns [OF assms(4)])
  also have "\<dots> = unat (?ws ! i)" using card_pick [of i ?ws] assms small by simp
  finally show ?thesis .
qed

subsection \<open>One vote per round\<close>

text \<open>
  The operations of a running engine. \<open>finalize_block\<close> is called for blocks at or above the
  current height; seeding a height is done before the engine runs and is not a step.
\<close>

inductive engine_step :: "crypto \<Rightarrow> bft_engine \<Rightarrow> vote option \<Rightarrow> bft_engine \<Rightarrow> bool" for cr where
  es_propose: "engine_step cr e None (fst (propose_block cr io clk roots e))"
| es_proposal: "receive_proposal cr io clk header e = (e', Inr v) \<Longrightarrow> engine_step cr e v e'"
| es_proposal_error: "receive_proposal cr io clk header e = (e', Inl err) \<Longrightarrow> engine_step cr e None e'"
| es_vote: "engine_step cr e None (fst (receive_vote cr vo clk vote e))"
| es_ask: "engine_step cr e None (fst (trigger_view_change cr clk e))"
| es_view_change: "engine_step cr e None (fst (receive_view_change cr clk msg e))"
| es_weights: "engine_step cr e None (set_weights ws e)"
| es_finalize: "en_height e \<le> bh_height header \<Longrightarrow> bh_height header \<noteq> - 1 \<Longrightarrow>
    engine_step cr e None (fst (finalize_block cr clk header qc e))"

text \<open>A run, with the votes the engine has cast on the way.\<close>

inductive engine_run :: "crypto \<Rightarrow> bft_engine \<Rightarrow> vote list \<Rightarrow> bft_engine \<Rightarrow> bool" for cr where
  run_nil: "engine_run cr e [] e"
| run_step: "engine_run cr e vs e' \<Longrightarrow> engine_step cr e' v e'' \<Longrightarrow>
    engine_run cr e (case v of None \<Rightarrow> vs | Some w \<Rightarrow> vs @ [w]) e''"

definition at_pos :: "bft_engine \<Rightarrow> u64 \<times> u32" where
  "at_pos e = (rs_height (en_round e), rs_round (en_round e))"

definition vote_pos :: "vote \<Rightarrow> u64 \<times> u32" where
  "vote_pos v = (vt_height v, vt_round v)"

abbreviation voted :: "bft_engine \<Rightarrow> hash option" where
  "voted e \<equiv> rs_voted_for (en_round e)"

definition synced :: "bft_engine \<Rightarrow> bool" where
  "synced e \<longleftrightarrow> rs_height (en_round e) = en_height e"

definition quiet_move :: "bft_engine \<Rightarrow> bft_engine \<Rightarrow> bool" where
  "quiet_move e e' \<longleftrightarrow> synced e' \<and> (at_pos e' = at_pos e \<and> voted e' = voted e \<or> at_pos e < at_pos e')"

lemma quiet_move_refl: "synced e \<Longrightarrow> quiet_move e e"
  by (simp add: quiet_move_def)

lemma quiet_same: "synced e \<Longrightarrow> en_height e' = en_height e \<Longrightarrow> rs_height (en_round e') = rs_height (en_round e) \<Longrightarrow>
    rs_round (en_round e') = rs_round (en_round e) \<Longrightarrow> voted e' = voted e \<Longrightarrow> quiet_move e e'"
  by (simp add: quiet_move_def synced_def at_pos_def)

lemma jump_quiet:
  assumes "synced e"
  shows "quiet_move e (jump_to_round clk h e)" "en_height (jump_to_round clk h e) = en_height e"
    "en_validators (jump_to_round clk h e) = en_validators e" "voted (jump_to_round clk h e) = voted e"
    "at_pos e \<le> at_pos (jump_to_round clk h e)"
  using assms by (auto simp: jump_to_round_def quiet_move_def synced_def at_pos_def advance_phase_def Let_def)

text \<open>A vote is cast at the engine's own height and round, and is the one recorded there.\<close>

definition vote_move :: "bft_engine \<Rightarrow> vote \<Rightarrow> bft_engine \<Rightarrow> bool" where
  "vote_move e w e' \<longleftrightarrow> synced e' \<and> vote_pos w = at_pos e' \<and> voted e' = Some (vt_block_hash w) \<and>
     (at_pos e' = at_pos e \<and> (voted e = None \<or> voted e = Some (vt_block_hash w)) \<or> at_pos e < at_pos e')"

lemma receive_proposal_move:
  assumes "synced e" "receive_proposal cr io clk h e = (e', r)"
  shows "case r of Inr (Some w) \<Rightarrow> vote_move e w e' | _ \<Rightarrow> quiet_move e e'"
proof -
  define e1 where "e1 = jump_to_round clk h e"
  note j = jump_quiet [OF assms(1), of clk h, folded e1_def]
  define e2 where "e2 = e1\<lparr>en_fork_choice := add_block cr h (en_fork_choice e1)\<rparr>"
  have q2: "quiet_move e e2" "synced e2" "en_height e2 = en_height e" "voted e2 = voted e" "at_pos e2 = at_pos e1"
    using j by (auto simp: e2_def quiet_move_def synced_def at_pos_def)
  have cast: "case v of Some w \<Rightarrow> vote_move e w e3 | None \<Rightarrow> quiet_move e e3"
    if c: "cast_vote cr clk h e2 = (e3, v)" and "bh_height h = en_height e" for e3 v
  proof (cases "voted e2 \<noteq> None \<and> voted e2 \<noteq> Some (block_hash cr h)")
    case True
    with c q2(1) show ?thesis by (auto simp: cast_vote_def Let_def)
  next
    case False
    with c that(2) q2 j(5) show ?thesis
      by (auto simp: cast_vote_def Let_def vote_move_def vote_pos_def vote_new_def at_pos_def synced_def
          advance_phase_def order_le_less)
  qed
  show ?thesis
    using assms quiet_move_refl [OF assms(1)] j(1) q2(1) cast
    unfolding receive_proposal_def Let_def e1_def [symmetric] e2_def [symmetric]
    by (auto split: if_splits sum.splits option.splits prod.splits)
qed

lemma receive_vote_quiet:
  assumes "synced e"
  shows "quiet_move e (fst (receive_vote cr vo clk v e))"
  using assms by (auto simp: receive_vote_def Let_def advance_phase_def intro: quiet_same
      split: sum.splits option.splits)

lemma receive_view_change_quiet:
  assumes "synced e"
  shows "quiet_move e (fst (receive_view_change cr clk m e))"
  using assms by (auto simp: receive_view_change_def Let_def quiet_move_def synced_def at_pos_def rs_new_def
      split: sum.splits option.splits prod.splits)

lemma finalize_quiet:
  assumes "synced e" "en_height e \<le> bh_height h" "bh_height h \<noteq> - 1"
  shows "quiet_move e (fst (finalize_block cr clk h qc e))"
proof -
  have "1 + bh_height h \<noteq> 0" using assms(3) by (metis add.commute eq_neg_iff_add_eq_0)
  then have "bh_height h < bh_height h + 1" by (simp add: word_less_nat_alt unatSuc add.commute)
  with assms(1,2) have "en_height e < bh_height h + 1" by simp
  with assms(1) show ?thesis
    by (auto simp: finalize_block_def Let_def quiet_move_def synced_def at_pos_def rs_new_def)
qed

lemma engine_step_move:
  assumes "engine_step cr e v e'" "synced e"
  shows "case v of None \<Rightarrow> quiet_move e e' | Some w \<Rightarrow> vote_move e w e'"
  using assms
proof cases
  case (es_proposal io clk header)
  with receive_proposal_move [OF assms(2)] show ?thesis by fastforce
next
  case (es_proposal_error io clk header err)
  with receive_proposal_move [OF assms(2)] show ?thesis by fastforce
next
  case (es_propose io clk roots)
  with assms(2) show ?thesis
    by (auto simp: propose_block_def Let_def advance_phase_def case_prod_beta intro: quiet_same)
qed (use assms(2) in \<open>auto simp: trigger_view_change_def Let_def set_weights_def intro: quiet_same receive_vote_quiet
      receive_view_change_quiet finalize_quiet\<close>)

definition votes_ok :: "vote list \<Rightarrow> bft_engine \<Rightarrow> bool" where
  "votes_ok vs e \<longleftrightarrow> synced e \<and>
     (\<forall>v \<in> set vs. vote_pos v < at_pos e \<or> vote_pos v = at_pos e \<and> voted e = Some (vt_block_hash v)) \<and>
     (\<forall>v \<in> set vs. \<forall>w \<in> set vs. vote_pos v = vote_pos w \<longrightarrow> vt_block_hash v = vt_block_hash w)"

lemma votes_okD: "votes_ok vs e \<Longrightarrow> v \<in> set vs \<Longrightarrow>
    vote_pos v < at_pos e \<or> vote_pos v = at_pos e \<and> voted e = Some (vt_block_hash v)"
  unfolding votes_ok_def by blast

lemma votes_okI: "synced e \<Longrightarrow>
    (\<And>v. v \<in> set vs \<Longrightarrow> vote_pos v < at_pos e \<or> vote_pos v = at_pos e \<and> voted e = Some (vt_block_hash v)) \<Longrightarrow>
    (\<And>v w. v \<in> set vs \<Longrightarrow> w \<in> set vs \<Longrightarrow> vote_pos v = vote_pos w \<Longrightarrow> vt_block_hash v = vt_block_hash w) \<Longrightarrow>
    votes_ok vs e"
  unfolding votes_ok_def by blast

lemma votes_ok_same: "votes_ok vs e \<Longrightarrow> v \<in> set vs \<Longrightarrow> w \<in> set vs \<Longrightarrow> vote_pos v = vote_pos w \<Longrightarrow>
    vt_block_hash v = vt_block_hash w"
  unfolding votes_ok_def by blast

lemma votes_ok_quiet:
  assumes ok: "votes_ok vs e" and move: "quiet_move e e'"
  shows "votes_ok vs e'"
proof (rule votes_okI)
  show "synced e'" using move unfolding quiet_move_def by blast
next
  fix v assume v: "v \<in> set vs"
  consider "at_pos e' = at_pos e" "voted e' = voted e" | "at_pos e < at_pos e'"
    using move unfolding quiet_move_def by blast
  then show "vote_pos v < at_pos e' \<or> vote_pos v = at_pos e' \<and> voted e' = Some (vt_block_hash v)"
  proof cases
    case 1
    with votes_okD [OF ok v] show ?thesis by presburger
  next
    case 2
    from votes_okD [OF ok v] have "vote_pos v < at_pos e'"
    proof
      assume "vote_pos v < at_pos e"
      then show ?thesis using 2 by (rule order.strict_trans)
    next
      assume "vote_pos v = at_pos e \<and> voted e = Some (vt_block_hash v)"
      with 2 show ?thesis by presburger
    qed
    then show ?thesis ..
  qed
next
  fix v w assume "v \<in> set vs" "w \<in> set vs" "vote_pos v = vote_pos w"
  then show "vt_block_hash v = vt_block_hash w" by (rule votes_ok_same [OF ok])
qed

text \<open>Casting a vote: the older votes are for earlier rounds or for the same block.\<close>

lemma vote_move_old:
  assumes ok: "votes_ok vs e" and move: "vote_move e w e'" and v: "v \<in> set vs"
  shows "vote_pos v < at_pos e' \<or> vote_pos v = at_pos e' \<and> vt_block_hash v = vt_block_hash w"
proof -
  consider "at_pos e' = at_pos e" "voted e = None \<or> voted e = Some (vt_block_hash w)" | "at_pos e < at_pos e'"
    using move unfolding vote_move_def by blast
  then show ?thesis
  proof cases
    case 1
    from votes_okD [OF ok v] show ?thesis
    proof
      assume "vote_pos v < at_pos e"
      with 1(1) show ?thesis by presburger
    next
      assume "vote_pos v = at_pos e \<and> voted e = Some (vt_block_hash v)"
      then have "vote_pos v = at_pos e" "vt_block_hash v = vt_block_hash w" using 1(2) by auto
      with 1(1) show ?thesis by presburger
    qed
  next
    case 2
    from votes_okD [OF ok v] have "vote_pos v < at_pos e'"
    proof
      assume "vote_pos v < at_pos e"
      then show ?thesis using 2 by (rule order.strict_trans)
    next
      assume "vote_pos v = at_pos e \<and> voted e = Some (vt_block_hash v)"
      with 2 show ?thesis by presburger
    qed
    then show ?thesis ..
  qed
qed

lemma votes_ok_vote:
  assumes ok: "votes_ok vs e" and move: "vote_move e w e'"
  shows "votes_ok (vs @ [w]) e'"
proof (rule votes_okI)
  have w: "synced e'" "vote_pos w = at_pos e'" "voted e' = Some (vt_block_hash w)"
    using move unfolding vote_move_def by blast+
  then show "synced e'" by blast
  have split: "v \<in> set vs \<or> v = w" if "v \<in> set (vs @ [w])" for v
    using that by (simp add: disj_commute)
  fix v assume v: "v \<in> set (vs @ [w])"
  from split [OF v] show "vote_pos v < at_pos e' \<or> vote_pos v = at_pos e' \<and> voted e' = Some (vt_block_hash v)"
  proof
    assume "v \<in> set vs"
    from vote_move_old [OF ok move this] w(3) show ?thesis by presburger
  next
    assume "v = w"
    with w(2,3) show ?thesis by blast
  qed
  fix u assume u: "u \<in> set (vs @ [w])" and same: "vote_pos v = vote_pos u"
  have own: "vt_block_hash x = vt_block_hash w" if "x \<in> set vs" "vote_pos x = vote_pos w" for x
    using vote_move_old [OF ok move that(1)] that(2) w(2) by (metis order.irrefl)
  from split [OF v] split [OF u] show "vt_block_hash v = vt_block_hash u"
    using own [of v] own [of u] votes_ok_same [OF ok, of v u] same by metis
qed


subsection \<open>Concrete engines\<close>

definition demo_engine :: bft_engine where
  "demo_engine = engine_new clear_crypto (\<lambda>_. 0) demo_keys [[1], [2], [3]] Scheme_Dilithium"

lemmas demo_engine_simps = demo_engine_def engine_new_def


theorem unweighted_quorum_witness:
  "\<not> is_quorum demo_engine [[1], [2], [1]] \<and> is_quorum demo_engine [[1], [2], [3]]"
  using unweighted_quorum [of demo_engine "[[1], [2], [1]]"] unweighted_quorum [of demo_engine "[[1], [2], [3]]"]
  by (simp add: quorum_size_def demo_engine_simps card_insert_if)

theorem leadership_proportional_witness:
  "card {k. k < 10 \<and> proposer_at (set_weights [5, 4, 1] demo_engine) 7 (of_nat k) = Some [2]} = 4"
  using leadership_proportional [of "set_weights [5, 4, 1] demo_engine" 10 7 1]
  by (simp add: set_weights_def demo_engine_simps)

text \<open>A committee of one, and its proposal for height 0.\<close>

definition solo_engine :: bft_engine where
  "solo_engine = engine_new clear_crypto (\<lambda>_. 0) demo_keys demo_validators Scheme_Dilithium"

definition solo_header :: block_header where
  "solo_header = header_sign clear_crypto demo_keys Scheme_Dilithium
     (header_new 0 0 0 0 ZERO_HASH (scheme_address clear_crypto Scheme_Dilithium demo_keys) roots_empty ZERO_HASH [])"

lemma solo_header_simps: "bh_height solo_header = 0" "bh_round solo_header = 0" "bh_epoch solo_header = 0"
    "bh_timestamp solo_header = 0" "bh_proposer solo_header = scheme_address clear_crypto Scheme_Dilithium demo_keys"
    "header_verify_signature clear_crypto solo_header = Inr True"
  by (simp_all add: solo_header_def header_sign_def header_new_def header_verify_signature_def Let_def
      header_signing_bytes_def header_pieces_def block_hash_def
      scheme_address_def verify_signature_def sign_dilithium_def sg_dilithium2_def dilithium_public_key_def
      pk_dilithium2_def demo_keys_def clear_crypto_def)

lemma solo_proposer: "proposer_at e 0 0 = Some (scheme_address clear_crypto Scheme_Dilithium demo_keys)"
  if "en_validators e = demo_validators" "en_weights e = []"
  using that by (simp add: proposer_at_def nth_opt_def demo_validators_def)

lemma unlocked_safe: "fc_locked_qc fc = None \<Longrightarrow> is_safe_to_vote cr io fc h"
  by (simp add: is_safe_to_vote_def)

lemma solo_proposal:
  assumes "en_validators e = demo_validators" "en_weights e = []" "en_height e = 0" "rs_round (en_round e) = 0"
    "rs_height (en_round e) = 0"
    "fc_locked_qc (en_fork_choice e) = None" "rs_voted_for (en_round e) \<in> {None, Some (block_hash clear_crypto solo_header)}"
    "clk 1 = 0"
  shows "\<exists>e' v. receive_proposal clear_crypto io clk solo_header e = (e', Inr (Some v)) \<and> vt_height v = 0 \<and> vt_round v = 0 \<and>
    vt_block_hash v = block_hash clear_crypto solo_header \<and> vt_timestamp v = clk 3 \<and>
    en_validators e' = demo_validators \<and> en_weights e' = [] \<and> en_height e' = 0 \<and> rs_round (en_round e') = 0 \<and>
    rs_height (en_round e') = 0 \<and> fc_locked_qc (en_fork_choice e') = None \<and>
    rs_voted_for (en_round e') = Some (block_hash clear_crypto solo_header)"
proof -
  have "fc_locked_qc (add_block cr h fc) = fc_locked_qc fc" for cr h fc
    by (simp add: add_block_def Let_def)
  then show ?thesis using assms
    by (auto simp: receive_proposal_def solo_header_simps solo_proposer jump_to_round_def unlocked_safe
        cast_vote_def Let_def advance_phase_def vote_new_def sat_sub_def)
qed


subsection \<open>What the engine does not check\<close>

definition outsider_vote :: vote where
  "outsider_vote = (vote_new clear_crypto 0 (block_hash clear_crypto solo_header) 0 0 0 demo_keys Scheme_Dilithium)\<lparr>vt_voter := [9]\<rparr>"


text \<open>A header whose signature does not verify moves the round all the same.\<close>

lemma unsigned_header_moves_round:
  assumes "bh_height h = en_height e" "rs_height (en_round e) = en_height e" "rs_round (en_round e) < bh_round h"
    "proposer_at e (en_height e) (bh_round h) = Some (bh_proposer h)" "header_verify_signature cr h \<noteq> Inr True"
  shows "rs_round (en_round (fst (receive_proposal cr io clk h e))) = bh_round h"
  using assms by (auto simp: receive_proposal_def jump_to_round_def advance_phase_def Let_def split: sum.splits)

text \<open>The sender of a view change is not covered by its signature: any name gives a message that verifies.\<close>

lemma view_change_sender_free: "vc_verify cr (m\<lparr>vc_sender := a\<rparr>) = vc_verify cr m"
  by (simp add: vc_verify_def vc_signing_bytes_def)

end
