(* ===== verification/F64.thy ===== *)
theory F64
  imports Ego_Prelude Complex_Main
begin

section \<open>Double-precision floating point\<close>

text \<open>
  Rust's \<open>f64\<close> as the source uses it: the finite values are rationals, every operation is the exact
  result rounded to 53 bits (to nearest, ties to even, with the subnormal range), and infinities
  and NaN are values of their own. The sign of zero is not kept: it is observable only through a
  division by a negative zero, which the modelled code does not perform. \<open>min\<close>, \<open>max\<close> and the
  \<open>as\<close> casts follow the standard library: a NaN operand is ignored by \<open>min\<close> and \<open>max\<close>, and a cast
  to an integer truncates and saturates, with NaN going to 0.
\<close>

datatype f64 = Fin rat | PInf | NInf | NaN

function bit_length :: "int \<Rightarrow> int" where
  "bit_length n = (if n \<le> 0 then 0 else 1 + bit_length (n div 2))"
  by auto
termination by (relation "measure nat") auto

declare bit_length.simps [simp del]

definition ilog2 :: "rat \<Rightarrow> int" where
  "ilog2 x = (let (p, q) = quotient_of x; e = bit_length p - bit_length q
              in if 2 powi e \<le> x then e else e - 1)"

definition quantum :: "rat \<Rightarrow> rat" where
  "quantum x = 2 powi max (ilog2 \<bar>x\<bar> - 52) (- 1074)"

definition round_even :: "rat \<Rightarrow> int" where
  "round_even x = (let n = \<lfloor>x\<rfloor>; d = x - of_int n
                   in if d < 1 / 2 then n else if 1 / 2 < d then n + 1 else if even n then n else n + 1)"

definition rnd :: "rat \<Rightarrow> rat" where
  "rnd x = (if x = 0 then 0 else of_int (round_even (x / quantum x)) * quantum x)"

definition fin :: "rat \<Rightarrow> f64" where
  "fin x = (let r = rnd x in if ilog2 \<bar>r\<bar> \<le> 1023 then Fin r else if 0 < r then PInf else NInf)"

fun fneg :: "f64 \<Rightarrow> f64" where
  "fneg (Fin a) = Fin (- a)"
| "fneg PInf = NInf"
| "fneg NInf = PInf"
| "fneg NaN = NaN"

fun fadd :: "f64 \<Rightarrow> f64 \<Rightarrow> f64" where
  "fadd NaN _ = NaN"
| "fadd _ NaN = NaN"
| "fadd (Fin a) (Fin b) = fin (a + b)"
| "fadd PInf NInf = NaN"
| "fadd NInf PInf = NaN"
| "fadd PInf _ = PInf"
| "fadd _ PInf = PInf"
| "fadd NInf _ = NInf"
| "fadd _ NInf = NInf"

definition fsub :: "f64 \<Rightarrow> f64 \<Rightarrow> f64" where
  "fsub a b = fadd a (fneg b)"

definition signed_inf :: "rat \<Rightarrow> f64" where
  "signed_inf s = (if 0 < s then PInf else if s < 0 then NInf else NaN)"

fun fsign :: "f64 \<Rightarrow> rat" where
  "fsign (Fin a) = sgn a"
| "fsign PInf = 1"
| "fsign NInf = - 1"
| "fsign NaN = 0"

fun fmul :: "f64 \<Rightarrow> f64 \<Rightarrow> f64" where
  "fmul NaN _ = NaN"
| "fmul _ NaN = NaN"
| "fmul (Fin a) (Fin b) = fin (a * b)"
| "fmul a b = signed_inf (fsign a * fsign b)"

fun fdiv :: "f64 \<Rightarrow> f64 \<Rightarrow> f64" where
  "fdiv NaN _ = NaN"
| "fdiv _ NaN = NaN"
| "fdiv (Fin a) (Fin b) = (if b = 0 then signed_inf a else fin (a / b))"
| "fdiv (Fin a) _ = Fin 0"
| "fdiv a (Fin b) = signed_inf (fsign a * (if b < 0 then - 1 else 1))"
| "fdiv a b = NaN"

fun fle :: "f64 \<Rightarrow> f64 \<Rightarrow> bool" where
  "fle NaN _ = False"
| "fle _ NaN = False"
| "fle NInf _ = True"
| "fle _ PInf = True"
| "fle (Fin a) (Fin b) = (a \<le> b)"
| "fle _ _ = False"

definition flt :: "f64 \<Rightarrow> f64 \<Rightarrow> bool" where
  "flt a b = (fle a b \<and> \<not> fle b a)"

definition fmin :: "f64 \<Rightarrow> f64 \<Rightarrow> f64" where
  "fmin a b = (if a = NaN then b else if b = NaN then a else if fle a b then a else b)"

definition fmax :: "f64 \<Rightarrow> f64 \<Rightarrow> f64" where
  "fmax a b = (if a = NaN then b else if b = NaN then a else if fle a b then b else a)"

fun f_to_nat :: "nat \<Rightarrow> f64 \<Rightarrow> nat" where
  "f_to_nat m (Fin a) = min m (nat \<lfloor>a\<rfloor>)"
| "f_to_nat m PInf = m"
| "f_to_nat m _ = 0"


subsection \<open>Rounding\<close>

lemma bit_length_bounds:
  "0 < n \<Longrightarrow> 1 \<le> bit_length n \<and> 2 powi (bit_length n - 1) \<le> (of_int n :: rat) \<and> (of_int n :: rat) < 2 powi bit_length n"
proof (induction n rule: bit_length.induct)
  case (1 n)
  show ?case
  proof (cases "n = 1")
    case True
    then show ?thesis by (simp add: bit_length.simps)
  next
    case False
    let ?m = "n div 2" and ?k = "bit_length (n div 2)"
    have m: "0 < ?m" using 1(2) False by auto
    with 1 have IH: "1 \<le> ?k" "2 powi (?k - 1) \<le> (of_int ?m :: rat)" "(of_int ?m :: rat) < 2 powi ?k" by auto
    have k: "bit_length n = 1 + ?k" using 1(2) by (simp add: bit_length.simps [of n])
    have pow: "(2 :: rat) powi ?k = of_int (2 ^ nat ?k)" using IH(1) by (simp add: power_int_def)
    then have "?m + 1 \<le> 2 ^ nat ?k" using IH(3) by (metis of_int_less_iff zless_imp_add1_zle)
    moreover have "n \<le> 2 * ?m + 1" by simp
    ultimately have "n < 2 * 2 ^ nat ?k" by linarith
    then have "(of_int n :: rat) < 2 * 2 powi ?k" unfolding pow by (metis of_int_less_iff of_int_mult of_int_numeral)
    moreover have "2 * 2 powi (?k - 1) \<le> (of_int n :: rat)"
    proof -
      have "2 * ?m \<le> n" by simp
      then have "2 * (of_int ?m :: rat) \<le> of_int n" by (metis of_int_le_iff of_int_mult of_int_numeral)
      with IH(2) show ?thesis by linarith
    qed
    moreover have "2 * (2 :: rat) powi (?k - 1) = 2 powi ?k" by (simp add: power_int_diff)
    ultimately show ?thesis using IH(1) by (simp add: k power_int_add)
  qed
qed

lemma ilog2_bounds:
  assumes "0 < x"
  shows "2 powi ilog2 x \<le> x" "x < 2 powi (ilog2 x + 1)"
proof -
  obtain p q where pq: "quotient_of x = (p, q)" by force
  then have q: "0 < q" and x: "x = of_int p / of_int q"
    using quotient_of_denom_pos quotient_of_div by blast+
  with assms have p: "0 < p" by (simp add: zero_less_divide_iff)
  define e where "e = bit_length p - bit_length q"
  note bp = bit_length_bounds [OF p] and bq = bit_length_bounds [OF q]
  have qr: "(0 :: rat) < of_int q" using q by simp
  have "x < 2 powi bit_length p / 2 powi (bit_length q - 1)"
    unfolding x using bp bq p q by (intro frac_less) auto
  then have up: "x < 2 powi (e + 1)" by (simp add: e_def power_int_diff power_int_add algebra_simps)
  have "2 powi (bit_length p - 1) / 2 powi bit_length q \<le> x"
    unfolding x using bp bq p q by (intro frac_le) auto
  then have lo: "2 powi (e - 1) \<le> x" by (simp add: e_def power_int_diff power_int_add field_simps)
  have "ilog2 x = (if 2 powi e \<le> x then e else e - 1)" by (simp add: ilog2_def pq e_def)
  with up lo show "2 powi ilog2 x \<le> x" "x < 2 powi (ilog2 x + 1)" by (auto simp: not_le)
qed

lemma ilog2_mono: "0 < x \<Longrightarrow> x \<le> y \<Longrightarrow> ilog2 x \<le> ilog2 y"
proof (rule ccontr)
  assume "0 < x" "x \<le> y" "\<not> ilog2 x \<le> ilog2 y"
  then have "(2 :: rat) powi (ilog2 y + 1) \<le> 2 powi ilog2 x" by (intro power_int_increasing) auto
  with ilog2_bounds(1) [of x] ilog2_bounds(2) [of y] \<open>0 < x\<close> \<open>x \<le> y\<close> show False by linarith
qed

lemma round_even_of_int [simp]: "round_even (of_int n) = n"
  by (simp add: round_even_def)

lemma round_even_mono: "x \<le> y \<Longrightarrow> round_even x \<le> round_even y"
proof -
  assume "x \<le> y"
  then have le: "\<lfloor>x\<rfloor> \<le> \<lfloor>y\<rfloor>" by (rule floor_mono)
  show ?thesis
  proof (cases "\<lfloor>x\<rfloor> = \<lfloor>y\<rfloor>")
    case True
    with \<open>x \<le> y\<close> show ?thesis by (auto simp: round_even_def Let_def)
  next
    case False
    with le have "\<lfloor>x\<rfloor> + 1 \<le> \<lfloor>y\<rfloor>" by simp
    then show ?thesis by (auto simp: round_even_def Let_def)
  qed
qed

lemma quantum_pos [simp]: "0 < quantum x" by (simp add: quantum_def)

lemma rnd_exact: "x / quantum x = of_int m \<Longrightarrow> rnd x = x"
proof -
  assume m: "x / quantum x = of_int m"
  then have "x = of_int m * quantum x" using quantum_pos [of x] by (simp add: field_simps)
  with m show "rnd x = x" by (simp add: rnd_def)
qed

lemma rnd_0 [simp]: "rnd 0 = 0" by (simp add: rnd_def)

text \<open>A value at or below a power of two that is a multiple of its quantum rounds to at most that power.\<close>

lemma powi_int: "0 \<le> k \<Longrightarrow> \<exists>m. (2 :: rat) powi k = of_int m"
  by (rule exI [of _ "2 ^ nat k"]) (simp add: power_int_def)

lemma rnd_le_power:
  assumes "0 < x" "x \<le> 2 powi k" "max (ilog2 x - 52) (- 1074) \<le> k"
  shows "rnd x \<le> 2 powi k"
proof -
  let ?q = "quantum x"
  have "(2 :: rat) powi k / ?q = 2 powi (k - max (ilog2 x - 52) (- 1074))"
    using assms(1) by (simp add: quantum_def power_int_diff)
  then obtain m where m: "(2 :: rat) powi k / ?q = of_int m" using powi_int assms(3) by (metis diff_ge_0_iff_ge)
  have "x / ?q \<le> 2 powi k / ?q" using assms(2) by (simp add: divide_right_mono less_imp_le)
  then have "round_even (x / ?q) \<le> m" using round_even_mono [of "x / ?q" "of_int m"] m by simp
  then have "of_int (round_even (x / ?q)) * ?q \<le> of_int m * ?q"
    by (intro mult_right_mono) (simp_all add: less_imp_le)
  also have "\<dots> = 2 powi k" using m quantum_pos [of x] by (metis nonzero_divide_eq_eq less_numeral_extra(3))
  finally show ?thesis using assms(1) by (simp add: rnd_def)
qed

lemma rnd_ge_power:
  assumes "2 powi k \<le> x" "max (ilog2 x - 52) (- 1074) \<le> k"
  shows "2 powi k \<le> rnd x"
proof -
  let ?q = "quantum x"
  have x: "0 < x" using assms(1) by (meson less_le_trans zero_less_numeral zero_less_power_int)
  then have "(2 :: rat) powi k / ?q = 2 powi (k - max (ilog2 x - 52) (- 1074))"
    by (simp add: quantum_def power_int_diff)
  then obtain m where m: "(2 :: rat) powi k / ?q = of_int m" using powi_int assms(2) by (metis diff_ge_0_iff_ge)
  have "2 powi k / ?q \<le> x / ?q" using assms(1) by (simp add: divide_right_mono less_imp_le)
  then have "m \<le> round_even (x / ?q)" using round_even_mono [of "of_int m" "x / ?q"] m by simp
  then have "of_int m * ?q \<le> of_int (round_even (x / ?q)) * ?q"
    by (intro mult_right_mono) (simp_all add: less_imp_le)
  moreover have "of_int m * ?q = 2 powi k" using m quantum_pos [of x] by (metis nonzero_divide_eq_eq less_numeral_extra(3))
  ultimately show ?thesis using x by (simp add: rnd_def)
qed

lemma rnd_nonneg [simp]: "0 \<le> x \<Longrightarrow> 0 \<le> rnd x"
  using round_even_mono [of 0 "x / quantum x"] round_even_of_int [of 0]
  by (simp add: rnd_def less_imp_le)

lemma rnd_mono:
  assumes "0 \<le> x" "x \<le> y"
  shows "rnd x \<le> rnd y"
proof (cases "x = 0")
  case True
  with assms show ?thesis by simp
next
  case False
  with assms have x: "0 < x" and y: "0 < y" by auto
  show ?thesis
  proof (cases "quantum x = quantum y")
    case True
    have "x / quantum y \<le> y / quantum y" using assms(2) by (simp add: divide_right_mono less_imp_le)
    then show ?thesis using x y True by (simp add: rnd_def round_even_mono less_imp_le)
  next
    case False
    then have ne: "max (ilog2 x - 52) (- 1074) \<noteq> max (ilog2 y - 52) (- 1074)" using x y by (auto simp: quantum_def)
    have le: "ilog2 x \<le> ilog2 y" by (rule ilog2_mono [OF x assms(2)])
    with ne have lt: "ilog2 x + 1 \<le> ilog2 y" "- 1022 < ilog2 y" by auto
    have "x < 2 powi (ilog2 x + 1)" by (rule ilog2_bounds(2) [OF x])
    also have "\<dots> \<le> (2 :: rat) powi ilog2 y" using lt(1) by (intro power_int_increasing) auto
    finally have "rnd x \<le> 2 powi ilog2 y" using x lt by (intro rnd_le_power) auto
    also have "\<dots> \<le> rnd y" using ilog2_bounds(1) [OF y] lt by (intro rnd_ge_power) auto
    finally show ?thesis .
  qed
qed

lemma rnd_int:
  assumes "0 \<le> n" "n \<le> 2 ^ 53"
  shows "rnd (of_int n) = of_int n"
proof (cases "n = 0 \<or> n = 2 ^ 53")
  case True
  have "rnd (2 ^ 53) = 2 ^ 53" by code_simp
  with True show ?thesis by auto
next
  case False
  with assms have n: "0 < (of_int n :: rat)" "n < 2 ^ 53" by auto
  then have "(of_int n :: rat) < of_int (2 ^ 53)" by (simp only: of_int_less_iff)
  then have "(2 :: rat) powi ilog2 (of_int n) < 2 powi 53" using ilog2_bounds(1) [OF n(1)] by (simp add: power_int_def)
  then have e: "ilog2 (of_int n) < 53" by (meson not_le power_int_increasing one_le_numeral)
  have "(1 :: rat) \<le> of_int n" using n(1) by simp
  have "(2 :: rat) powi 0 < 2 powi (ilog2 (of_int n) + 1)"
    using ilog2_bounds(2) [OF n(1)] \<open>1 \<le> of_int n\<close> by simp
  then have e0: "0 \<le> ilog2 (of_int n :: rat)"
    using power_int_increasing [of "ilog2 (of_int n) + 1" 0 "2 :: rat"] by force
  have q: "quantum (of_int n) = 2 powi (ilog2 (of_int n) - 52)"
    using e0 n by (simp add: quantum_def max_def)
  have "(of_int n :: rat) / quantum (of_int n) = of_int n * 2 powi (52 - ilog2 (of_int n))"
    unfolding q by (simp add: power_int_diff)
  also obtain m where "(2 :: rat) powi (52 - ilog2 (of_int n)) = of_int m" using powi_int [of "52 - ilog2 (of_int n)"] e by auto
  finally show ?thesis by (intro rnd_exact [of _ "n * m"]) simp
qed

text \<open>\<open>n as f64\<close> for an unsigned integer, and \<open>x as u64\<close>.\<close>

definition f_of_nat :: "nat \<Rightarrow> f64" where
  "f_of_nat n = fin (of_nat n)"

definition f_to_u64 :: "f64 \<Rightarrow> u64" where
  "f_to_u64 x = of_nat (f_to_nat (2 ^ 64 - 1) x)"

text \<open>Values far from the largest one are finite.\<close>

lemma ilog2_le: "0 < x \<Longrightarrow> x \<le> 2 powi k \<Longrightarrow> ilog2 x \<le> k"
proof (rule ccontr)
  assume x: "0 < x" "x \<le> 2 powi k" "\<not> ilog2 x \<le> k"
  then have "(2 :: rat) powi k < 2 powi ilog2 x" by (intro power_int_strict_increasing) auto
  with ilog2_bounds(1) [OF x(1)] x(2) show False by linarith
qed

lemma fin_small:
  assumes "0 \<le> x" "x \<le> 2 powi 1000"
  shows "fin x = Fin (rnd x)"
proof -
  have "ilog2 \<bar>rnd x\<bar> \<le> 1023"
  proof (cases "rnd x = 0")
    case True
    have "ilog2 0 = - 2" by code_simp
    with True show ?thesis by simp
  next
    case False
    with assms(1) have x: "0 < x" "0 < rnd x" using rnd_nonneg [OF assms(1)] by (auto simp: order_le_less)
    then have "ilog2 x \<le> 1000" using assms(2) by (intro ilog2_le)
    then have "rnd x \<le> 2 powi 1000" using x(1) assms(2) by (intro rnd_le_power) auto
    with x(2) show ?thesis using ilog2_le [of "rnd x" 1000] by simp
  qed
  then show ?thesis by (simp add: fin_def Let_def)
qed

lemma small_powi:
  assumes "x \<le> 2 ^ 64"
  shows "x \<le> (2 :: rat) powi 1000"
proof -
  note assms
  also have "(2 :: rat) ^ 64 = 2 powi 64" by simp
  also have "\<dots> \<le> 2 powi 1000" by (intro power_int_increasing) auto
  finally show ?thesis .
qed

lemma f_of_nat_fin: "n \<le> 2 ^ 64 \<Longrightarrow> f_of_nat n = Fin (rnd (of_nat n))"
proof -
  assume "n \<le> 2 ^ 64"
  then have "(of_nat n :: rat) \<le> of_nat (2 ^ 64)" by (simp only: of_nat_le_iff)
  then show ?thesis by (simp add: f_of_nat_def fin_small small_powi)
qed

lemma fin_int: "0 \<le> n \<Longrightarrow> n \<le> 2 ^ 53 \<Longrightarrow> fin (of_int n) = Fin (of_int n)"
proof -
  assume n: "0 \<le> n" "n \<le> 2 ^ 53"
  then have "(of_int n :: rat) \<le> of_int (2 ^ 53)" by (simp only: of_int_le_iff)
  then have "(of_int n :: rat) \<le> 2 ^ 64" by simp
  with n show ?thesis by (simp add: fin_small small_powi rnd_int)
qed

lemma fin_numeral: "numeral k \<le> (2 ^ 53 :: int) \<Longrightarrow> fin (numeral k) = Fin (numeral k)"
  using fin_int [of "numeral k"] by simp

lemma rnd_1 [simp]: "rnd 1 = 1" using rnd_int [of 1] by simp

lemma rnd_pos: "1 \<le> x \<Longrightarrow> 0 < rnd x"
  using rnd_mono [of 1 x] by simp

text \<open>The ratio of two counters, the smaller over the larger.\<close>

lemma fdiv_ratio:
  assumes "a \<le> b" "0 < b" "b \<le> 2 ^ 64"
  obtains r where "fdiv (f_of_nat a) (f_of_nat b) = Fin r" "0 \<le> r" "r \<le> 1"
proof -
  have ab: "f_of_nat a = Fin (rnd (of_nat a))" "f_of_nat b = Fin (rnd (of_nat b))"
    using assms by (simp_all add: f_of_nat_fin)
  have b: "0 < rnd (of_nat b)" using assms(2) by (intro rnd_pos) simp
  have q: "0 \<le> rnd (of_nat a) / rnd (of_nat b)" "rnd (of_nat a) / rnd (of_nat b) \<le> 1"
    using b assms(1) rnd_mono [of "of_nat a" "of_nat b"] by (simp_all add: divide_le_eq)
  then have "rnd (of_nat a) / rnd (of_nat b) \<le> 2 powi 1000" by (intro small_powi) simp
  with q b have "fdiv (f_of_nat a) (f_of_nat b) = Fin (rnd (rnd (of_nat a) / rnd (of_nat b)))"
    by (simp add: ab fin_small)
  moreover have "rnd (rnd (of_nat a) / rnd (of_nat b)) \<le> 1" using rnd_mono [OF q] by simp
  ultimately show ?thesis using that rnd_nonneg [OF q(1)] by blast
qed

lemma fmul_scale:
  assumes "0 \<le> r" "r \<le> 1" "0 \<le> n" "n \<le> 2 ^ 53"
  obtains s where "fmul (Fin r) (Fin (of_int n)) = Fin s" "0 \<le> s" "s \<le> of_int n"
proof -
  have n: "(0 :: rat) \<le> of_int n" using assms(3) by simp
  then have rn: "0 \<le> r * of_int n" "r * of_int n \<le> of_int n"
    using assms by (simp_all add: mult_left_le_one_le)
  have "(of_int n :: rat) \<le> of_int (2 ^ 53)" using assms(4) by (simp only: of_int_le_iff)
  with rn have "r * of_int n \<le> 2 powi 1000" by (intro small_powi) simp
  with rn have "fmul (Fin r) (Fin (of_int n)) = Fin (rnd (r * of_int n))" by (simp add: fin_small)
  moreover have "rnd (r * of_int n) \<le> of_int n" using rnd_mono [OF rn] rnd_int [OF assms(3,4)] by simp
  ultimately show ?thesis using that rnd_nonneg [OF rn(1)] by blast
qed

lemma f_to_nat_le: "f_to_nat m x \<le> m"
  by (cases x) auto

lemma f_to_nat_fmin: "fle (Fin 0) (Fin b) \<Longrightarrow> f_to_nat m (fmax (fmin x (Fin b)) (Fin 0)) \<le> nat \<lfloor>b\<rfloor>"
  by (cases x) (auto simp: fmin_def fmax_def intro!: min.coboundedI2 nat_mono floor_mono)

end
