(* ===== verification/Account_Types.thy ===== *)
theory Account_Types
  imports Ego_Types F64
begin

section \<open>The data of accounts\<close>

text \<open>
  \<^verbatim>\<open>crates/ego-core/src/account.rs\<close>: the account record with everything that hangs on it. A hash map
  that is only looked up is a partial function; optional and variant fields are options and
  datatypes with the constructors of the source.
\<close>

datatype hot_set_mode = Hot_Validator | Hot_Storage_Provider | Hot_Full_Node | Hot_Light_Client

record pruning_config =
  pc_enabled :: bool
  pc_keep_epochs :: u64
  pc_prune_interval_epochs :: u64
  pc_keep_headers_forever :: bool
  pc_keep_state_snapshots :: bool
  pc_snapshot_interval_epochs :: u64

record archival_config =
  ar_store_old_bodies :: bool
  ar_store_contract_blobs :: bool
  ar_store_state_snapshots :: bool
  ar_store_da_blobs :: bool
  ar_store_proof_evidence :: bool
  ar_store_user_data :: bool
  ar_replication_factor :: u8
  ar_erasure_coding_params :: "(u16 \<times> u16) option"

datatype data_type = Block_Bodies | Contract_Code | State_Snapshot | DA_Blob | Proof_Evidence | User_Data | Rollup_Batch

datatype triad_role = Triad_Primary | Triad_Replica_A | Triad_Replica_B

record triad_info =
  td_group_id :: string
  td_role :: triad_role
  td_primary :: address
  td_replica_a :: address
  td_replica_b :: address
  td_placement_epoch :: u64

record sector_info =
  si_sector_id :: hash
  si_size_bytes :: u64
  si_data_type :: data_type
  si_sealed_at :: timestamp
  si_expires_at :: timestamp
  si_replica_id :: hash
  si_comm_d :: hash
  si_comm_r :: hash
  si_triad :: triad_info
  si_params_version :: u32
  si_post_frequency :: u64
  si_last_post_epoch :: u64
  si_miss_count :: u32
  si_integrity_verified :: bool

record post_rep_stats =
  pr_porep_proofs_submitted :: u64
  pr_post_proofs_submitted :: u64
  pr_post_pass_rate :: f64
  pr_avg_post_latency_ms :: u32
  pr_challenges_answered :: u64
  pr_challenges_missed :: u64
  pr_last_challenge_epoch :: u64
  pr_consecutive_misses :: u32
  pr_sectors_sealed :: u64
  pr_sectors_faulty :: u32
  pr_repairs_completed :: u64
  pr_promotions :: u32

record provider_earnings =
  pe_storage_rewards :: balance
  pe_retrieval_fees :: balance
  pe_post_rewards :: balance
  pe_total_earned :: balance
  pe_total_slashed :: balance
  pe_pending_payouts :: balance

datatype slashing_type = Post_Miss | Post_Invalid | PoC_Fraud | Equivocation | Data_Unavailability

record slashing_event =
  se_timestamp :: timestamp
  se_amount :: balance
  se_reason :: string
  se_evidence_hash :: hash
  se_event_type :: slashing_type

record storage_provider_info =
  sp_node_id :: address
  sp_storage_capacity :: u64
  sp_storage_allocated :: u64
  sp_active_sectors :: "sector_info list"
  sp_collateral_locked :: balance
  sp_postrep_stats :: post_rep_stats
  sp_earnings :: provider_earnings
  sp_slashing_history :: "slashing_event list"
  sp_health_score :: u64
  sp_last_audit_epoch :: u64

record pq_transition_info =
  pq_transition_started_epoch :: u64
  pq_only_mode :: bool
  pq_ed25519_disabled_epoch :: "u64 option"
  pq_supported_algorithms :: "u16 list"

datatype code_storage_mode = On_Chain | Post_Audited hash "address list"

datatype upgrade_policy = Immutable | Owner_Only | Governance | Timelock u64

record contract_info =
  ci_code_hash :: hash
  ci_code_stored_by :: code_storage_mode
  ci_upgrade_policy :: upgrade_policy
  ci_pointer_name :: "bytes option"
  ci_state_root :: hash
  ci_state_snapshot_sector :: "hash option"
  ci_last_snapshot_epoch :: u64

datatype node_role = Role_Validator | Role_Storage_Provider | Role_Gateway | Role_Rollup

text \<open>The arguments of a constructor are the fields of the variant, in the order of the source.\<close>

datatype account_type =
    Type_EOA
  | Type_Device string "string option"
  | Type_Contract hash hash
  | Type_System string
  | Type_Validator public_key u16 bool
  | Type_Storage_Provider string string
  | Type_Hybrid "node_role list"

record cost_awareness =
  ca_cellular_safe_mode :: bool
  ca_max_monthly_cost_usd :: f64
  ca_current_month_usage_gb :: u64
  ca_wifi_only_operations :: "string list"
  ca_cellular_throttle_threshold_gb :: u64

record post_stats =
  ps_proofs_submitted :: u64
  ps_success_rate :: u64
  ps_last_proof :: "timestamp option"
  ps_challenges_responded :: u64
  ps_integrity_score :: u8
  ps_proof_frequency_hz :: f64
  ps_batch_enabled :: bool

record device_capabilities =
  dc_bandwidth_capacity :: u64
  dc_storage_capacity :: u64
  dc_supported_slices :: "string list"
  dc_coverage_area :: "string option"
  dc_hardware_specs :: "string \<rightharpoonup> string"
  dc_last_poc :: "timestamp option"
  dc_post_stats :: post_stats
  dc_cellular_safe :: bool
  dc_max_bandwidth_cellular :: u64
  dc_monthly_data_limit_gb :: u64
  dc_cost_awareness :: cost_awareness

record validator_performance =
  vp_blocks_validated :: u64
  vp_uptime_percentage :: u64
  vp_attestation_accuracy :: u64
  vp_last_active_epoch :: u64
  vp_penalties :: u32

record staking_info =
  st_staked_amount :: balance
  st_delegated_stake :: balance
  st_rewards_earned :: balance
  st_slashing_events :: "slashing_event list"
  st_performance :: validator_performance

record jail_info =
  ja_jailed_at :: timestamp
  ja_release_at :: timestamp
  ja_reason :: string

record validator_hot_set_config =
  vh_keep_headers_forever :: bool
  vh_keep_qcs_forever :: bool
  vh_keep_recent_bodies_epochs :: u64
  vh_keep_state_db :: bool
  vh_mempool_enabled :: bool
  vh_fetch_on_demand_enabled :: bool

record validator_info =
  vi_validator_pubkey :: public_key
  vi_commission_rate :: u16
  vi_is_active :: bool
  vi_jail_info :: "jail_info option"
  vi_hot_set_config :: validator_hot_set_config

record account =
  ac_address :: address
  ac_balance :: balance
  ac_nonce :: u64
  ac_per_shard_nonces :: "(u32 \<rightharpoonup> u64) option"
  ac_created_at :: timestamp
  ac_last_activity :: timestamp
  ac_dilithium_pk :: bytes
  ac_ed25519_pk :: "bytes option"
  ac_mlkem_pk :: bytes
  ac_x25519_pk :: "bytes option"
  ac_slh_dsa_pk :: "bytes option"
  ac_storage_quota :: u64
  ac_storage_used :: u64
  ac_storage_credits :: u64
  ac_deploy_credits :: u64
  ac_free_deploys_remaining :: u32
  ac_deploy_bond_locked_until :: "timestamp option"
  ac_staking_info :: "staking_info option"
  ac_validator_info :: "validator_info option"
  ac_storage_provider_info :: "storage_provider_info option"
  ac_last_drs_score :: "u64 option"
  ac_last_drs_epoch :: "u64 option"
  ac_account_type :: account_type
  ac_contract_info :: "contract_info option"
  ac_peer_id :: "string option"
  ac_tmp_attestation :: "bytes option"
  ac_authorized_slices :: "string list"
  ac_device_capabilities :: "device_capabilities option"
  ac_metadata :: "string \<rightharpoonup> string"
  ac_pq_transition_info :: "pq_transition_info option"
  ac_hot_set_mode :: hot_set_mode
  ac_pruning_config :: "pruning_config option"
  ac_archival_config :: "archival_config option"

end
