(* ===== verification/Accounting.thy ===== *)
theory Accounting
  imports Ego_Prelude
begin

section \<open>Conservation over sequences of operations\<close>

text \<open>
  The contract of a component that holds value: each operation changes what the component is worth
  by exactly what flows in and out with it. The locale lifts the law from one operation to every
  sequence of them. It is interpreted on the accounts and on the escrow program.
\<close>

fun runs :: "('op \<Rightarrow> 's \<Rightarrow> 's) \<Rightarrow> 'op list \<Rightarrow> 's \<Rightarrow> 's" where
  "runs step [] s = s"
| "runs step (x # xs) s = runs step xs (step x s)"

text \<open>The sum of a flow along a run.\<close>

fun flow_sum :: "('op \<Rightarrow> 's \<Rightarrow> 's) \<Rightarrow> ('op \<Rightarrow> 's \<Rightarrow> nat) \<Rightarrow> 'op list \<Rightarrow> 's \<Rightarrow> nat" where
  "flow_sum step flow [] s = 0"
| "flow_sum step flow (x # xs) s = flow x s + flow_sum step flow xs (step x s)"

locale accounting =
  fixes step :: "'op \<Rightarrow> 's \<Rightarrow> 's"
    and worth :: "'s \<Rightarrow> nat"
    and inflow outflow :: "'op \<Rightarrow> 's \<Rightarrow> nat"
    and good :: "'s \<Rightarrow> bool"
    and bound :: nat
  assumes step_good: "good s \<Longrightarrow> worth s + inflow x s < bound \<Longrightarrow> good (step x s)"
    and step_worth: "good s \<Longrightarrow> worth s + inflow x s < bound \<Longrightarrow> worth (step x s) + outflow x s = worth s + inflow x s"
begin

lemma runs_conserve:
  assumes "good s" "worth s + flow_sum step inflow xs s < bound"
  shows "good (runs step xs s) \<and>
    worth (runs step xs s) + flow_sum step outflow xs s = worth s + flow_sum step inflow xs s"
  using assms
proof (induction xs arbitrary: s)
  case Nil
  then show ?case by simp
next
  case (Cons x xs)
  then have x: "worth s + inflow x s < bound" by simp
  note g = step_good [OF Cons.prems(1) x] and w = step_worth [OF Cons.prems(1) x]
  have "worth (step x s) + flow_sum step inflow xs (step x s) < bound" using Cons.prems(2) w by simp
  from Cons.IH [OF g this] w show ?case by simp
qed

end

text \<open>An invariant along a run.\<close>

lemma runs_invariant:
  assumes "\<And>x s. x \<in> set xs \<Longrightarrow> keeps s \<Longrightarrow> keeps (step x s)" "keeps s"
  shows "keeps (runs step xs s)"
  using assms by (induction xs arbitrary: s) auto

end
