(* ===== verification/Account.thy ===== *)
theory Account
  imports Account_Types Accounting
begin

section \<open>Accounts\<close>

text \<open>
  The operations of \<^verbatim>\<open>crates/ego-core/src/account.rs\<close>. An operation returns the account as it is left,
  also when it reports an error. \<open>now\<close> is the reading of the clock during the call. Where the code
  can panic (a division by zero) the result is an option. \<open>f64::powi\<close>, whose precision the
  standard library leaves open, is the parameter \<open>pw\<close>.
\<close>

subsection \<open>Defaults and constructors\<close>

definition default_post_rep_stats :: post_rep_stats where
  "default_post_rep_stats = \<lparr>pr_porep_proofs_submitted = 0, pr_post_proofs_submitted = 0, pr_post_pass_rate = fin 100,
     pr_avg_post_latency_ms = 0, pr_challenges_answered = 0, pr_challenges_missed = 0, pr_last_challenge_epoch = 0,
     pr_consecutive_misses = 0, pr_sectors_sealed = 0, pr_sectors_faulty = 0, pr_repairs_completed = 0, pr_promotions = 0\<rparr>"

definition default_earnings :: provider_earnings where
  "default_earnings = \<lparr>pe_storage_rewards = 0, pe_retrieval_fees = 0, pe_post_rewards = 0, pe_total_earned = 0,
     pe_total_slashed = 0, pe_pending_payouts = 0\<rparr>"

definition default_post_stats :: post_stats where
  "default_post_stats = \<lparr>ps_proofs_submitted = 0, ps_success_rate = 100000, ps_last_proof = None,
     ps_challenges_responded = 0, ps_integrity_score = 100, ps_proof_frequency_hz = fin (1 / 2), ps_batch_enabled = True\<rparr>"

text \<open>\<open>PartialEq for PostStats\<close> leaves out the frequency and the batch flag.\<close>

definition post_stats_eq :: "post_stats \<Rightarrow> post_stats \<Rightarrow> bool" where
  "post_stats_eq a b \<longleftrightarrow> ps_proofs_submitted a = ps_proofs_submitted b \<and> ps_success_rate a = ps_success_rate b \<and>
     ps_last_proof a = ps_last_proof b \<and> ps_challenges_responded a = ps_challenges_responded b \<and>
     ps_integrity_score a = ps_integrity_score b"

definition default_cost_awareness :: cost_awareness where
  "default_cost_awareness = \<lparr>ca_cellular_safe_mode = True, ca_max_monthly_cost_usd = fin 50, ca_current_month_usage_gb = 0,
     ca_wifi_only_operations = [''heavy_compute'', ''large_storage'', ''bulk_sync''], ca_cellular_throttle_threshold_gb = 5\<rparr>"

definition initial_pq :: pq_transition_info where
  "initial_pq = \<lparr>pq_transition_started_epoch = 0, pq_only_mode = False, pq_ed25519_disabled_epoch = None,
     pq_supported_algorithms = [alg_as_u16 Alg_MlDsa2, alg_as_u16 Alg_Ed25519, alg_as_u16 Alg_MlKem768]\<rparr>"

definition new_eoa :: "timestamp \<Rightarrow> address \<Rightarrow> bytes \<Rightarrow> bytes \<Rightarrow> account" where
  "new_eoa now address dilithium mlkem = \<lparr>ac_address = address, ac_balance = 0, ac_nonce = 0,
     ac_per_shard_nonces = Some Map.empty, ac_created_at = now, ac_last_activity = now,
     ac_dilithium_pk = dilithium, ac_ed25519_pk = None, ac_mlkem_pk = mlkem, ac_x25519_pk = None, ac_slh_dsa_pk = None,
     ac_storage_quota = 1024 * 1024, ac_storage_used = 0, ac_storage_credits = 0, ac_deploy_credits = 0,
     ac_free_deploys_remaining = 0, ac_deploy_bond_locked_until = None, ac_staking_info = None,
     ac_validator_info = None, ac_storage_provider_info = None, ac_last_drs_score = None, ac_last_drs_epoch = None,
     ac_account_type = Type_EOA, ac_contract_info = None, ac_peer_id = None, ac_tmp_attestation = None,
     ac_authorized_slices = [], ac_device_capabilities = None, ac_metadata = Map.empty,
     ac_pq_transition_info = Some initial_pq, ac_hot_set_mode = Hot_Light_Client, ac_pruning_config = None,
     ac_archival_config = None\<rparr>"

definition initial_pruning :: pruning_config where
  "initial_pruning = \<lparr>pc_enabled = True, pc_keep_epochs = 100, pc_prune_interval_epochs = 10,
     pc_keep_headers_forever = True, pc_keep_state_snapshots = True, pc_snapshot_interval_epochs = 1000\<rparr>"

definition initial_archival :: archival_config where
  "initial_archival = \<lparr>ar_store_old_bodies = True, ar_store_contract_blobs = True, ar_store_state_snapshots = True,
     ar_store_da_blobs = True, ar_store_proof_evidence = True, ar_store_user_data = True, ar_replication_factor = 3,
     ar_erasure_coding_params = Some (64, 32)\<rparr>"

definition initial_staking :: "balance \<Rightarrow> staking_info" where
  "initial_staking stake = \<lparr>st_staked_amount = stake, st_delegated_stake = 0, st_rewards_earned = 0, st_slashing_events = [],
     st_performance = \<lparr>vp_blocks_validated = 0, vp_uptime_percentage = 100000, vp_attestation_accuracy = 100000,
       vp_last_active_epoch = 0, vp_penalties = 0\<rparr>\<rparr>"

definition initial_validator :: "public_key \<Rightarrow> u16 \<Rightarrow> validator_info" where
  "initial_validator pk rate = \<lparr>vi_validator_pubkey = pk, vi_commission_rate = rate, vi_is_active = True, vi_jail_info = None,
     vi_hot_set_config = \<lparr>vh_keep_headers_forever = True, vh_keep_qcs_forever = True, vh_keep_recent_bodies_epochs = 100,
       vh_keep_state_db = True, vh_mempool_enabled = True, vh_fetch_on_demand_enabled = True\<rparr>\<rparr>"

text \<open>The other constructors differ from \<open>new_eoa\<close> in the fields written out.\<close>

definition new_validator :: "timestamp \<Rightarrow> address \<Rightarrow> public_key \<Rightarrow> u16 \<Rightarrow> balance \<Rightarrow> bytes \<Rightarrow> bytes \<Rightarrow> ego_error + account" where
  "new_validator now address pk rate stake dilithium mlkem =
     (if 10000 < rate then Inl (Invalid_Transaction ''Commission rate cannot exceed 100%'')
      else Inr ((new_eoa now address dilithium mlkem)\<lparr>
        ac_storage_quota := 10 * 1024 * 1024, ac_storage_credits := 10000, ac_deploy_credits := 1000,
        ac_free_deploys_remaining := 20, ac_staking_info := Some (initial_staking stake),
        ac_validator_info := Some (initial_validator pk rate), ac_last_drs_score := Some 100000,
        ac_last_drs_epoch := Some 0, ac_account_type := Type_Validator pk rate True,
        ac_hot_set_mode := Hot_Validator, ac_pruning_config := Some initial_pruning\<rparr>))"

definition initial_provider :: "address \<Rightarrow> u64 \<Rightarrow> storage_provider_info" where
  "initial_provider address capacity = \<lparr>sp_node_id = address, sp_storage_capacity = capacity, sp_storage_allocated = 0,
     sp_active_sectors = [], sp_collateral_locked = 0, sp_postrep_stats = default_post_rep_stats,
     sp_earnings = default_earnings, sp_slashing_history = [], sp_health_score = 100000, sp_last_audit_epoch = 0\<rparr>"

definition new_storage_provider ::
  "timestamp \<Rightarrow> address \<Rightarrow> string \<Rightarrow> string \<Rightarrow> u64 \<Rightarrow> bytes \<Rightarrow> bytes \<Rightarrow> string \<Rightarrow> account" where
  "new_storage_provider now address provider_id region capacity dilithium mlkem peer =
     (new_eoa now address dilithium mlkem)\<lparr>
       ac_storage_quota := capacity, ac_storage_credits := 1000, ac_deploy_credits := 100,
       ac_free_deploys_remaining := 5, ac_storage_provider_info := Some (initial_provider address capacity),
       ac_last_drs_score := Some 100000, ac_last_drs_epoch := Some 0,
       ac_account_type := Type_Storage_Provider provider_id region, ac_peer_id := Some peer,
       ac_hot_set_mode := Hot_Storage_Provider, ac_archival_config := Some initial_archival\<rparr>"

definition new_hybrid_node ::
  "timestamp \<Rightarrow> address \<Rightarrow> node_role list \<Rightarrow> u64 \<Rightarrow> bytes \<Rightarrow> bytes \<Rightarrow> string \<Rightarrow> account" where
  "new_hybrid_node now address roles capacity dilithium mlkem peer =
     (let validates = Role_Validator \<in> set roles; stores = Role_Storage_Provider \<in> set roles
      in (new_eoa now address dilithium mlkem)\<lparr>
        ac_storage_quota := capacity, ac_storage_credits := 10000, ac_deploy_credits := 1000,
        ac_free_deploys_remaining := 10,
        ac_storage_provider_info := (if stores then Some (initial_provider address capacity) else None),
        ac_last_drs_score := Some 100000, ac_last_drs_epoch := Some 0, ac_account_type := Type_Hybrid roles,
        ac_peer_id := Some peer, ac_hot_set_mode := Hot_Full_Node,
        ac_pruning_config := (if validates then Some initial_pruning else None),
        ac_archival_config := (if stores then Some initial_archival else None)\<rparr>)"

definition new_device ::
  "timestamp \<Rightarrow> address \<Rightarrow> string \<Rightarrow> device_capabilities \<Rightarrow> bytes \<Rightarrow> bytes \<Rightarrow> string \<Rightarrow> account" where
  "new_device now address device_id caps dilithium mlkem peer =
     (new_eoa now address dilithium mlkem)\<lparr>
       ac_storage_quota := dc_storage_capacity caps, ac_storage_credits := 100, ac_deploy_credits := 10,
       ac_free_deploys_remaining := 5, ac_account_type := Type_Device device_id None, ac_peer_id := Some peer,
       ac_device_capabilities := Some caps\<rparr>"

subsection \<open>Storage providers\<close>

abbreviation not_provider :: ego_error where
  "not_provider \<equiv> Invalid_Transaction ''Account is not a storage provider''"

abbreviation no_sector :: ego_error where
  "no_sector \<equiv> Invalid_Transaction ''Sector not found''"

definition with_provider :: "account \<Rightarrow> (storage_provider_info \<Rightarrow> account \<times> (ego_error + 'a)) \<Rightarrow> account \<times> (ego_error + 'a)" where
  "with_provider a f = (case ac_storage_provider_info a of None \<Rightarrow> (a, Inl not_provider) | Some p \<Rightarrow> f p)"

definition put_provider :: "timestamp \<Rightarrow> storage_provider_info \<Rightarrow> account \<Rightarrow> account" where
  "put_provider now p a = a\<lparr>ac_storage_provider_info := Some p, ac_last_activity := now\<rparr>"

definition add_sector :: "timestamp \<Rightarrow> sector_info \<Rightarrow> account \<Rightarrow> account \<times> (ego_error + unit)" where
  "add_sector now sector a = with_provider a (\<lambda>p.
     if sp_storage_capacity p < sp_storage_allocated p + si_size_bytes sector
     then (a, Inl (Storage_Quota_Exceeded (sp_storage_allocated p + si_size_bytes sector) (sp_storage_capacity p)))
     else (put_provider now (p\<lparr>sp_storage_allocated := sp_storage_allocated p + si_size_bytes sector,
              sp_active_sectors := sp_active_sectors p @ [sector],
              sp_postrep_stats := (sp_postrep_stats p)\<lparr>pr_sectors_sealed := pr_sectors_sealed (sp_postrep_stats p) + 1\<rparr>\<rparr>) a,
           Inr ()))"

fun remove_first :: "hash \<Rightarrow> sector_info list \<Rightarrow> (sector_info \<times> sector_info list) option" where
  "remove_first i [] = None"
| "remove_first i (s # ss) =
     (if si_sector_id s = i then Some (s, ss) else map_option (\<lambda>(r, ss'). (r, s # ss')) (remove_first i ss))"

definition remove_sector :: "timestamp \<Rightarrow> hash \<Rightarrow> account \<Rightarrow> account \<times> (ego_error + unit)" where
  "remove_sector now sid a = with_provider a (\<lambda>p.
     case remove_first sid (sp_active_sectors p) of
       None \<Rightarrow> (a, Inl no_sector)
     | Some (sector, rest) \<Rightarrow>
         (put_provider now (p\<lparr>sp_active_sectors := rest,
            sp_storage_allocated := sat_sub (sp_storage_allocated p) (si_size_bytes sector)\<rparr>) a, Inr ()))"

text \<open>\<open>calculate_health_score_from_info\<close>.\<close>

type_synonym powi_fn = "f64 \<Rightarrow> int \<Rightarrow> f64"

definition latency_factor :: "post_rep_stats \<Rightarrow> f64" where
  "latency_factor s =
     (let penalty = fdiv (fsub (f_of_nat (unat (pr_avg_post_latency_ms s))) (fin 2000)) (fin 1000)
      in fmax (fsub (fin 1) (fmul penalty (fin (1 / 20)))) (fin (1 / 2)))"

definition health_score :: "powi_fn \<Rightarrow> post_rep_stats \<Rightarrow> u64" where
  "health_score pw s =
     (let s0 = fmul (fin 100000) (fdiv (pr_post_pass_rate s) (fin 100));
          s1 = (if 0 < pr_consecutive_misses s then fmul s0 (pw (fin (9 / 10)) (sint (pr_consecutive_misses s))) else s0);
          s2 = (if 2000 < pr_avg_post_latency_ms s then fmul s1 (latency_factor s) else s1);
          faulty = fdiv (f_of_nat (unat (pr_sectors_faulty s))) (f_of_nat (unat (max (pr_sectors_sealed s) 1)));
          s3 = fmul s2 (fmax (fsub (fin 1) faulty) (fin 0))
      in f_to_u64 (fmax (fmin s3 (fin 100000)) (fin 0)))"

definition with_health :: "powi_fn \<Rightarrow> storage_provider_info \<Rightarrow> storage_provider_info" where
  "with_health pw p = p\<lparr>sp_health_score := health_score pw (sp_postrep_stats p)\<rparr>"

definition calculate_health_score :: "powi_fn \<Rightarrow> account \<Rightarrow> u64" where
  "calculate_health_score pw a =
     (case ac_storage_provider_info a of None \<Rightarrow> 0 | Some p \<Rightarrow> health_score pw (sp_postrep_stats p))"

definition with_pass_rate :: "post_rep_stats \<Rightarrow> post_rep_stats" where
  "with_pass_rate s =
     (let total = pr_challenges_answered s + pr_challenges_missed s in
      if 0 < total
      then s\<lparr>pr_post_pass_rate := fmul (fdiv (f_of_nat (unat (pr_challenges_answered s))) (f_of_nat (unat total))) (fin 100)\<rparr>
      else s)"

text \<open>The average is computed in \<open>u64\<close>; a count that has wrapped to zero panics in the division.\<close>

definition new_average :: "u32 \<Rightarrow> u64 \<Rightarrow> u32 \<Rightarrow> u32 option" where
  "new_average avg count latency =
     (if count = 0 then None else Some (ucast ((ucast avg * (count - 1) + ucast latency :: u64) div count)))"

definition stats_after_proof :: "bool \<Rightarrow> u32 \<Rightarrow> post_rep_stats \<Rightarrow> post_rep_stats option" where
  "stats_after_proof success latency s0 =
     (let s1 = s0\<lparr>pr_post_proofs_submitted := pr_post_proofs_submitted s0 + 1\<rparr> in
      if success
      then let s2 = with_pass_rate (s1\<lparr>pr_challenges_answered := pr_challenges_answered s1 + 1, pr_consecutive_misses := 0\<rparr>)
           in map_option (\<lambda>avg. s2\<lparr>pr_avg_post_latency_ms := avg\<rparr>)
                (new_average (pr_avg_post_latency_ms s2) (pr_post_proofs_submitted s2) latency)
      else Some (with_pass_rate (s1\<lparr>pr_challenges_missed := pr_challenges_missed s1 + 1,
                   pr_consecutive_misses := pr_consecutive_misses s1 + 1\<rparr>)))"

definition record_post_proof :: "powi_fn \<Rightarrow> timestamp \<Rightarrow> bool \<Rightarrow> u32 \<Rightarrow> u64 \<Rightarrow> account \<Rightarrow> account option" where
  "record_post_proof pw now success latency epoch a =
     (case ac_storage_provider_info a of
        None \<Rightarrow> Some (a\<lparr>ac_last_activity := now\<rparr>)
      | Some p \<Rightarrow> map_option (\<lambda>s. put_provider now (with_health pw
                    (p\<lparr>sp_postrep_stats := s, sp_last_audit_epoch := epoch\<rparr>)) a)
                   (stats_after_proof success latency (sp_postrep_stats p)))"

text \<open>The mutation of the first sector with a given id.\<close>

fun update_sector :: "hash \<Rightarrow> (sector_info \<Rightarrow> sector_info) \<Rightarrow> sector_info list \<Rightarrow> sector_info list option" where
  "update_sector i f [] = None"
| "update_sector i f (s # ss) = (if si_sector_id s = i then Some (f s # ss) else map_option ((#) s) (update_sector i f ss))"

definition mark_sector_faulty :: "powi_fn \<Rightarrow> timestamp \<Rightarrow> hash \<Rightarrow> account \<Rightarrow> account \<times> (ego_error + unit)" where
  "mark_sector_faulty pw now sid a = with_provider a (\<lambda>p.
     case update_sector sid (\<lambda>s. s\<lparr>si_integrity_verified := False, si_miss_count := si_miss_count s + 1\<rparr>) (sp_active_sectors p) of
       None \<Rightarrow> (a, Inl no_sector)
     | Some ss \<Rightarrow> (put_provider now (with_health pw (p\<lparr>sp_active_sectors := ss,
         sp_postrep_stats := (sp_postrep_stats p)\<lparr>pr_sectors_faulty := pr_sectors_faulty (sp_postrep_stats p) + 1\<rparr>\<rparr>)) a, Inr ()))"

definition promote_replica :: "timestamp \<Rightarrow> hash \<Rightarrow> triad_role \<Rightarrow> account \<Rightarrow> account \<times> (ego_error + unit)" where
  "promote_replica now sid role a = with_provider a (\<lambda>p.
     case update_sector sid (\<lambda>s. s\<lparr>si_triad := (si_triad s)\<lparr>td_role := role\<rparr>\<rparr>) (sp_active_sectors p) of
       None \<Rightarrow> (a, Inl no_sector)
     | Some ss \<Rightarrow> (put_provider now (p\<lparr>sp_active_sectors := ss,
         sp_postrep_stats := (sp_postrep_stats p)\<lparr>pr_promotions := pr_promotions (sp_postrep_stats p) + 1\<rparr>\<rparr>) a, Inr ()))"

definition record_repair :: "powi_fn \<Rightarrow> timestamp \<Rightarrow> hash \<Rightarrow> account \<Rightarrow> account \<times> (ego_error + unit)" where
  "record_repair pw now sid a = with_provider a (\<lambda>p.
     case update_sector sid (\<lambda>s. s\<lparr>si_integrity_verified := True, si_miss_count := 0\<rparr>) (sp_active_sectors p) of
       None \<Rightarrow> (a, Inl no_sector)
     | Some ss \<Rightarrow>
         let st = sp_postrep_stats p;
             st1 = st\<lparr>pr_repairs_completed := pr_repairs_completed st + 1,
                      pr_sectors_faulty := (if 0 < pr_sectors_faulty st then pr_sectors_faulty st - 1 else pr_sectors_faulty st)\<rparr>
         in (put_provider now (with_health pw (p\<lparr>sp_active_sectors := ss, sp_postrep_stats := st1\<rparr>)) a, Inr ()))"

subsection \<open>Funds\<close>

definition can_spend :: "balance \<Rightarrow> account \<Rightarrow> bool" where
  "can_spend amount a \<longleftrightarrow> amount \<le> ac_balance a"

definition debit :: "timestamp \<Rightarrow> balance \<Rightarrow> account \<Rightarrow> account \<times> (ego_error + unit)" where
  "debit now amount a =
     (if \<not> can_spend amount a then (a, Inl (Insufficient_Balance amount (ac_balance a)))
      else case checked_sub (ac_balance a) amount of
        None \<Rightarrow> (a, Inl (Insufficient_Balance amount (ac_balance a)))
      | Some b \<Rightarrow> (a\<lparr>ac_balance := b, ac_last_activity := now\<rparr>, Inr ()))"

definition credit :: "timestamp \<Rightarrow> balance \<Rightarrow> account \<Rightarrow> account \<times> (ego_error + unit)" where
  "credit now amount a =
     (case checked_add (ac_balance a) amount of
        None \<Rightarrow> (a, Inl (Internal_Error ''balance overflow''))
      | Some b \<Rightarrow> (a\<lparr>ac_balance := b, ac_last_activity := now\<rparr>, Inr ()))"

definition add_provider_earnings :: "timestamp \<Rightarrow> balance \<Rightarrow> balance \<Rightarrow> balance \<Rightarrow> account \<Rightarrow> account \<times> (ego_error + unit)" where
  "add_provider_earnings now storage retrieval post a = with_provider a (\<lambda>p.
     let e = sp_earnings p; new = sat_add (sat_add storage retrieval) post
     in (put_provider now (p\<lparr>sp_earnings := e\<lparr>pe_storage_rewards := sat_add (pe_storage_rewards e) storage,
            pe_retrieval_fees := sat_add (pe_retrieval_fees e) retrieval,
            pe_post_rewards := sat_add (pe_post_rewards e) post,
            pe_total_earned := sat_add (pe_total_earned e) new,
            pe_pending_payouts := sat_add (pe_pending_payouts e) new\<rparr>\<rparr>) a, Inr ()))"

definition process_provider_payout :: "timestamp \<Rightarrow> balance \<Rightarrow> account \<Rightarrow> account \<times> (ego_error + unit)" where
  "process_provider_payout now amount a = with_provider a (\<lambda>p.
     let e = sp_earnings p in
     if pe_pending_payouts e < amount then (a, Inl (Insufficient_Balance amount (pe_pending_payouts e)))
     else credit now amount (a\<lparr>ac_storage_provider_info :=
            Some (p\<lparr>sp_earnings := e\<lparr>pe_pending_payouts := sat_sub (pe_pending_payouts e) amount\<rparr>\<rparr>)\<rparr>))"

definition slash_provider :: "powi_fn \<Rightarrow> timestamp \<Rightarrow> timestamp \<Rightarrow> balance \<Rightarrow> string \<Rightarrow> hash \<Rightarrow> slashing_type \<Rightarrow>
    account \<Rightarrow> account \<times> (ego_error + unit)" where
  "slash_provider pw stamp now amount reason evidence kind a = with_provider a (\<lambda>p.
     if sp_collateral_locked p < amount then (a, Inl (Insufficient_Balance amount (sp_collateral_locked p)))
     else let e = sp_earnings p;
              event = \<lparr>se_timestamp = stamp, se_amount = amount, se_reason = reason, se_evidence_hash = evidence, se_event_type = kind\<rparr>
          in (put_provider now (with_health pw (p\<lparr>sp_collateral_locked := sat_sub (sp_collateral_locked p) amount,
                sp_earnings := e\<lparr>pe_total_slashed := sat_add (pe_total_slashed e) amount\<rparr>,
                sp_slashing_history := sp_slashing_history p @ [event]\<rparr>)) a, Inr ()))"

text \<open>The balance is debited before the account is known to be a storage provider.\<close>

definition lock_provider_collateral :: "timestamp \<Rightarrow> balance \<Rightarrow> account \<Rightarrow> account \<times> (ego_error + unit)" where
  "lock_provider_collateral now amount a =
     (if \<not> can_spend amount a then (a, Inl (Insufficient_Balance amount (ac_balance a)))
      else case debit now amount a of
        (a1, Inl err) \<Rightarrow> (a1, Inl err)
      | (a1, Inr _) \<Rightarrow> with_provider a1 (\<lambda>p.
          (put_provider now (p\<lparr>sp_collateral_locked := sat_add (sp_collateral_locked p) amount\<rparr>) a1, Inr ())))"

definition unlock_provider_collateral :: "timestamp \<Rightarrow> balance \<Rightarrow> account \<Rightarrow> account \<times> (ego_error + unit)" where
  "unlock_provider_collateral now amount a = with_provider a (\<lambda>p.
     if sp_collateral_locked p < amount then (a, Inl (Insufficient_Balance amount (sp_collateral_locked p)))
     else credit now amount (a\<lparr>ac_storage_provider_info :=
            Some (p\<lparr>sp_collateral_locked := sat_sub (sp_collateral_locked p) amount\<rparr>)\<rparr>))"

subsection \<open>Queries\<close>

definition get_sector :: "hash \<Rightarrow> account \<Rightarrow> sector_info option" where
  "get_sector sid a = Option.bind (ac_storage_provider_info a) (\<lambda>p. find (\<lambda>s. si_sector_id s = sid) (sp_active_sectors p))"

definition get_sectors_by_data_type :: "data_type \<Rightarrow> account \<Rightarrow> sector_info list" where
  "get_sectors_by_data_type t a =
     (case ac_storage_provider_info a of None \<Rightarrow> [] | Some p \<Rightarrow> filter (\<lambda>s. si_data_type s = t) (sp_active_sectors p))"

definition get_faulty_sectors :: "account \<Rightarrow> sector_info list" where
  "get_faulty_sectors a =
     (case ac_storage_provider_info a of None \<Rightarrow> []
      | Some p \<Rightarrow> filter (\<lambda>s. \<not> si_integrity_verified s \<or> 0 < si_miss_count s) (sp_active_sectors p))"

text \<open>The remainder by a configured interval of zero panics.\<close>

definition checked_rem :: "u64 \<Rightarrow> u64 \<Rightarrow> u64 option" where
  "checked_rem a b = (if b = 0 then None else Some (a mod b))"

definition should_prune_epoch :: "u64 \<Rightarrow> account \<Rightarrow> bool option" where
  "should_prune_epoch epoch a =
     (case ac_pruning_config a of
        None \<Rightarrow> Some False
      | Some c \<Rightarrow> if \<not> pc_enabled c then Some False
                 else map_option (\<lambda>r. r = 0) (checked_rem epoch (pc_prune_interval_epochs c)))"

definition should_create_snapshot :: "u64 \<Rightarrow> account \<Rightarrow> bool option" where
  "should_create_snapshot epoch a =
     (case ac_pruning_config a of
        None \<Rightarrow> Some False
      | Some c \<Rightarrow> if \<not> pc_keep_state_snapshots c then Some False
                 else map_option (\<lambda>r. r = 0) (checked_rem epoch (pc_snapshot_interval_epochs c)))"

definition get_prunable_epoch :: "u64 \<Rightarrow> account \<Rightarrow> u64 option" where
  "get_prunable_epoch epoch a = Option.bind (ac_pruning_config a) (\<lambda>c.
     if pc_enabled c \<and> pc_keep_epochs c < epoch then Some (epoch - pc_keep_epochs c) else None)"

definition can_fetch_on_demand :: "account \<Rightarrow> bool" where
  "can_fetch_on_demand a =
     (case ac_hot_set_mode a of
        Hot_Validator \<Rightarrow> (case ac_validator_info a of None \<Rightarrow> False | Some i \<Rightarrow> vh_fetch_on_demand_enabled (vi_hot_set_config i))
      | _ \<Rightarrow> True)"

definition requires_hot_set_data :: "string \<Rightarrow> account \<Rightarrow> bool" where
  "requires_hot_set_data t a =
     (case ac_hot_set_mode a of
        Hot_Validator \<Rightarrow> t \<in> {''headers'', ''qcs'', ''state_db'', ''recent_bodies'', ''mempool''}
      | Hot_Full_Node \<Rightarrow> t \<in> {''headers'', ''qcs'', ''state_db''}
      | Hot_Storage_Provider \<Rightarrow> False
      | Hot_Light_Client \<Rightarrow> t = ''headers'')"

subsection \<open>Nonces, credits, slices, storage and algorithms\<close>

definition increment_nonce :: "timestamp \<Rightarrow> account \<Rightarrow> account" where
  "increment_nonce now a = a\<lparr>ac_nonce := sat_add (ac_nonce a) 1, ac_last_activity := now\<rparr>"

definition get_shard_nonce :: "u32 \<Rightarrow> account \<Rightarrow> u64" where
  "get_shard_nonce shard a =
     (case Option.bind (ac_per_shard_nonces a) (\<lambda>m. m shard) of None \<Rightarrow> 0 | Some n \<Rightarrow> n)"

definition increment_shard_nonce :: "u32 \<Rightarrow> account \<Rightarrow> account" where
  "increment_shard_nonce shard a =
     (case ac_per_shard_nonces a of
        None \<Rightarrow> a
      | Some m \<Rightarrow> a\<lparr>ac_per_shard_nonces := Some (m(shard \<mapsto> sat_add (case m shard of None \<Rightarrow> 0 | Some n \<Rightarrow> n) 1))\<rparr>)"

definition can_deploy_free :: "account \<Rightarrow> bool" where
  "can_deploy_free a \<longleftrightarrow> 0 < ac_free_deploys_remaining a"

definition use_free_deploy :: "timestamp \<Rightarrow> account \<Rightarrow> account \<times> (ego_error + unit)" where
  "use_free_deploy now a =
     (if ac_free_deploys_remaining a = 0 then (a, Inl (Invalid_Transaction ''No free deploys remaining''))
      else (a\<lparr>ac_free_deploys_remaining := sat_sub (ac_free_deploys_remaining a) 1, ac_last_activity := now\<rparr>, Inr ()))"

definition can_use_deploy_credits :: "u64 \<Rightarrow> account \<Rightarrow> bool" where
  "can_use_deploy_credits needed a \<longleftrightarrow> needed \<le> ac_deploy_credits a"

definition use_deploy_credits :: "timestamp \<Rightarrow> u64 \<Rightarrow> account \<Rightarrow> account \<times> (ego_error + unit)" where
  "use_deploy_credits now credits a =
     (if ac_deploy_credits a < credits then (a, Inl (Insufficient_Balance (ucast credits) (ucast (ac_deploy_credits a))))
      else (a\<lparr>ac_deploy_credits := sat_sub (ac_deploy_credits a) credits, ac_last_activity := now\<rparr>, Inr ()))"

definition add_storage_credits :: "timestamp \<Rightarrow> u64 \<Rightarrow> account \<Rightarrow> account" where
  "add_storage_credits now credits a = a\<lparr>ac_storage_credits := sat_add (ac_storage_credits a) credits, ac_last_activity := now\<rparr>"

definition use_storage_credits :: "timestamp \<Rightarrow> u64 \<Rightarrow> account \<Rightarrow> account \<times> (ego_error + unit)" where
  "use_storage_credits now credits a =
     (if ac_storage_credits a < credits then (a, Inl (Insufficient_Balance (ucast credits) (ucast (ac_storage_credits a))))
      else (a\<lparr>ac_storage_credits := sat_sub (ac_storage_credits a) credits, ac_last_activity := now\<rparr>, Inr ()))"

definition update_drs_score :: "timestamp \<Rightarrow> f64 \<Rightarrow> u64 \<Rightarrow> account \<Rightarrow> account" where
  "update_drs_score now score epoch a =
     a\<lparr>ac_last_drs_score := Some (f_to_u64 (fmul score (fin 1000))), ac_last_drs_epoch := Some epoch, ac_last_activity := now\<rparr>"

definition is_authorized_for_slice :: "string \<Rightarrow> account \<Rightarrow> bool" where
  "is_authorized_for_slice sl a \<longleftrightarrow> sl \<in> set (ac_authorized_slices a)"

definition authorize_slice :: "timestamp \<Rightarrow> string \<Rightarrow> account \<Rightarrow> account" where
  "authorize_slice now sl a =
     a\<lparr>ac_authorized_slices := (if sl \<in> set (ac_authorized_slices a) then ac_authorized_slices a
                                else ac_authorized_slices a @ [sl]), ac_last_activity := now\<rparr>"

definition can_store :: "u64 \<Rightarrow> account \<Rightarrow> bool" where
  "can_store bytes a \<longleftrightarrow> ac_storage_used a + bytes \<le> ac_storage_quota a"

definition update_storage_usage :: "timestamp \<Rightarrow> u64 \<Rightarrow> account \<Rightarrow> account \<times> (ego_error + unit)" where
  "update_storage_usage now bytes a =
     (if \<not> can_store bytes a then (a, Inl (Storage_Quota_Exceeded (ac_storage_used a + bytes) (ac_storage_quota a)))
      else (a\<lparr>ac_storage_used := ac_storage_used a + bytes, ac_last_activity := now\<rparr>, Inr ()))"

definition is_pq_only_mode :: "account \<Rightarrow> bool" where
  "is_pq_only_mode a = (case ac_pq_transition_info a of None \<Rightarrow> False | Some i \<Rightarrow> pq_only_mode i)"

definition supports_algorithm :: "u16 \<Rightarrow> account \<Rightarrow> bool" where
  "supports_algorithm alg a =
     (case ac_pq_transition_info a of None \<Rightarrow> False | Some i \<Rightarrow> alg \<in> set (pq_supported_algorithms i))"

definition enable_pq_only_mode :: "timestamp \<Rightarrow> u64 \<Rightarrow> account \<Rightarrow> account" where
  "enable_pq_only_mode now epoch a =
     a\<lparr>ac_pq_transition_info := map_option (\<lambda>i. i\<lparr>pq_only_mode := True, pq_ed25519_disabled_epoch := Some epoch,
         pq_supported_algorithms := filter (\<lambda>g. g \<noteq> alg_as_u16 Alg_Ed25519) (pq_supported_algorithms i)\<rparr>)
         (ac_pq_transition_info a), ac_last_activity := now\<rparr>"

definition is_cellular_safe :: "account \<Rightarrow> bool" where
  "is_cellular_safe a = (case ac_device_capabilities a of None \<Rightarrow> True | Some c \<Rightarrow> dc_cellular_safe c)"

definition within_data_limits :: "u64 \<Rightarrow> account \<Rightarrow> bool" where
  "within_data_limits gb a =
     (case ac_device_capabilities a of None \<Rightarrow> True
      | Some c \<Rightarrow> ca_current_month_usage_gb (dc_cost_awareness c) + gb \<le> ca_cellular_throttle_threshold_gb (dc_cost_awareness c))"

definition should_use_wifi_only :: "string \<Rightarrow> account \<Rightarrow> bool" where
  "should_use_wifi_only operation a =
     (case ac_device_capabilities a of None \<Rightarrow> False
      | Some c \<Rightarrow> ca_cellular_safe_mode (dc_cost_awareness c) \<and> operation \<in> set (ca_wifi_only_operations (dc_cost_awareness c)))"

definition is_validator :: "account \<Rightarrow> bool" where
  "is_validator a \<longleftrightarrow>
     (case ac_account_type a of Type_Validator _ _ _ \<Rightarrow> True | Type_Hybrid roles \<Rightarrow> Role_Validator \<in> set roles | _ \<Rightarrow> False)
     \<or> ac_validator_info a \<noteq> None"

definition is_storage_provider :: "account \<Rightarrow> bool" where
  "is_storage_provider a \<longleftrightarrow>
     (case ac_account_type a of Type_Storage_Provider _ _ \<Rightarrow> True | Type_Hybrid roles \<Rightarrow> Role_Storage_Provider \<in> set roles
      | _ \<Rightarrow> False) \<or> ac_storage_provider_info a \<noteq> None"

definition is_device :: "account \<Rightarrow> bool" where
  "is_device a = (case ac_account_type a of Type_Device _ _ \<Rightarrow> True | _ \<Rightarrow> False)"

definition get_validator_pubkey :: "account \<Rightarrow> public_key option" where
  "get_validator_pubkey a =
     (case ac_account_type a of Type_Validator pk _ _ \<Rightarrow> Some pk | _ \<Rightarrow> map_option vi_validator_pubkey (ac_validator_info a))"

subsection \<open>Conservation of funds\<close>

datatype fund_op =
    Op_Credit timestamp balance
  | Op_Debit timestamp balance
  | Op_Earn timestamp balance balance balance
  | Op_Payout timestamp balance
  | Op_Slash timestamp timestamp balance string hash slashing_type
  | Op_Lock timestamp balance
  | Op_Unlock timestamp balance

fun fund_step :: "powi_fn \<Rightarrow> fund_op \<Rightarrow> account \<Rightarrow> account" where
  "fund_step pw (Op_Credit now m) a = fst (credit now m a)"
| "fund_step pw (Op_Debit now m) a = fst (debit now m a)"
| "fund_step pw (Op_Earn now s r p) a = fst (add_provider_earnings now s r p a)"
| "fund_step pw (Op_Payout now m) a = fst (process_provider_payout now m a)"
| "fund_step pw (Op_Slash t now m reason ev k) a = fst (slash_provider pw t now m reason ev k a)"
| "fund_step pw (Op_Lock now m) a = fst (lock_provider_collateral now m a)"
| "fund_step pw (Op_Unlock now m) a = fst (unlock_provider_collateral now m a)"

text \<open>What an account holds: its balance, the locked collateral and the earnings not yet paid out.\<close>

definition account_worth :: "account \<Rightarrow> nat" where
  "account_worth a = unat (ac_balance a) +
     (case ac_storage_provider_info a of None \<Rightarrow> 0
      | Some p \<Rightarrow> unat (sp_collateral_locked p) + unat (pe_pending_payouts (sp_earnings p)))"

fun account_inflow :: "fund_op \<Rightarrow> account \<Rightarrow> nat" where
  "account_inflow (Op_Credit now m) a = unat m"
| "account_inflow (Op_Earn now s r p) a = unat s + unat r + unat p"
| "account_inflow _ a = 0"

fun account_outflow :: "fund_op \<Rightarrow> account \<Rightarrow> nat" where
  "account_outflow (Op_Debit now m) a = (if m \<le> ac_balance a then unat m else 0)"
| "account_outflow (Op_Slash t now m reason ev k) a =
     (case ac_storage_provider_info a of None \<Rightarrow> 0
      | Some p \<Rightarrow> if m \<le> sp_collateral_locked p then unat m else 0)"
| "account_outflow _ a = 0"

definition provides_storage :: "account \<Rightarrow> bool" where
  "provides_storage a \<longleftrightarrow> ac_storage_provider_info a \<noteq> None"

lemma debit_ok: "m \<le> ac_balance a \<Longrightarrow> debit now m a = (a\<lparr>ac_balance := ac_balance a - m, ac_last_activity := now\<rparr>, Inr ())"
  by (simp add: debit_def can_spend_def checked_sub_def)

lemma debit_refused: "\<not> m \<le> ac_balance a \<Longrightarrow> debit now m a = (a, Inl (Insufficient_Balance m (ac_balance a)))"
  by (simp add: debit_def can_spend_def)

lemma credit_ok: "unat (ac_balance a) + unat m < 2 ^ 128 \<Longrightarrow>
    credit now m a = (a\<lparr>ac_balance := ac_balance a + m, ac_last_activity := now\<rparr>, Inr ())"
  by (simp add: credit_def checked_add_def)

lemma unat_add_small: "unat a + unat b < 2 ^ 128 \<Longrightarrow> unat (a + b :: u128) = unat a + unat b"
  by (simp add: unat_word_ariths)

lemma unat_sat_add_small: "unat a + unat b < 2 ^ 128 \<Longrightarrow> unat (sat_add a b :: u128) = unat a + unat b"
  by (simp add: unat_sat_add)

lemma fund_step_law:
  assumes "provides_storage a" "account_worth a + account_inflow x a < 2 ^ 128"
  shows "provides_storage (fund_step pw x a) \<and>
    account_worth (fund_step pw x a) + account_outflow x a = account_worth a + account_inflow x a"
proof -
  obtain p where p: "ac_storage_provider_info a = Some p" using assms(1) by (auto simp: provides_storage_def)
  have w: "account_worth a = unat (ac_balance a) + (unat (sp_collateral_locked p) + unat (pe_pending_payouts (sp_earnings p)))"
    by (simp add: account_worth_def p)
  show ?thesis
  proof (cases x)
    case (Op_Credit now m)
    then have "unat (ac_balance a) + unat m < 2 ^ 128" using assms(2) w by simp
    with Op_Credit p show ?thesis by (simp add: credit_ok unat_add_small account_worth_def provides_storage_def)
  next
    case (Op_Debit now m)
    with p show ?thesis
      by (cases "m \<le> ac_balance a") (simp_all add: debit_ok debit_refused unat_sub account_worth_def provides_storage_def word_le_nat_alt)
  next
    case (Op_Earn now s r q)
    define e where "e = sp_earnings p"
    have b: "unat (pe_pending_payouts e) + (unat s + unat r + unat q) < 2 ^ 128" using assms(2) w Op_Earn by (simp add: e_def)
    then have "unat (sat_add s r) = unat s + unat r" by (simp add: unat_sat_add_small)
    with b have "unat (sat_add (sat_add s r) q) = unat s + unat r + unat q" by (simp add: unat_sat_add_small)
    with b have "unat (sat_add (pe_pending_payouts e) (sat_add (sat_add s r) q)) = unat (pe_pending_payouts e) + (unat s + unat r + unat q)"
      by (simp add: unat_sat_add_small)
    with Op_Earn p show ?thesis
      by (simp add: add_provider_earnings_def with_provider_def put_provider_def account_worth_def provides_storage_def e_def Let_def)
  next
    case (Op_Payout now m)
    show ?thesis
    proof (cases "pe_pending_payouts (sp_earnings p) < m")
      case True
      with Op_Payout p show ?thesis by (simp add: process_provider_payout_def with_provider_def Let_def provides_storage_def)
    next
      case False
      then have "unat m \<le> unat (pe_pending_payouts (sp_earnings p))" by (simp add: word_le_nat_alt not_less)
      moreover from this have "unat (ac_balance a) + unat m < 2 ^ 128" using assms(2) w Op_Payout by simp
      ultimately show ?thesis using Op_Payout p False
        by (simp add: process_provider_payout_def with_provider_def Let_def credit_ok unat_add_small account_worth_def
            provides_storage_def unat_sat_sub)
    qed
  next
    case (Op_Slash t now m reason ev k)
    with p show ?thesis
      by (cases "m \<le> sp_collateral_locked p")
        (simp_all add: slash_provider_def with_provider_def put_provider_def with_health_def account_worth_def
          provides_storage_def Let_def unat_sat_sub word_le_nat_alt not_le word_less_nat_alt)
  next
    case (Op_Lock now m)
    show ?thesis
    proof (cases "m \<le> ac_balance a")
      case True
      then have "unat m \<le> unat (ac_balance a)" by (simp add: word_le_nat_alt)
      moreover from this have "unat (sp_collateral_locked p) + unat m < 2 ^ 128" using assms(2) w Op_Lock by simp
      ultimately show ?thesis using Op_Lock p True
        by (simp add: lock_provider_collateral_def can_spend_def debit_ok with_provider_def put_provider_def
            account_worth_def provides_storage_def unat_sat_add_small unat_sub)
    next
      case False
      with Op_Lock p show ?thesis by (simp add: lock_provider_collateral_def can_spend_def provides_storage_def)
    qed
  next
    case (Op_Unlock now m)
    show ?thesis
    proof (cases "sp_collateral_locked p < m")
      case True
      with Op_Unlock p show ?thesis by (simp add: unlock_provider_collateral_def with_provider_def provides_storage_def)
    next
      case False
      then have "unat m \<le> unat (sp_collateral_locked p)" by (simp add: word_le_nat_alt not_less)
      moreover from this have "unat (ac_balance a) + unat m < 2 ^ 128" using assms(2) w Op_Unlock by simp
      ultimately show ?thesis using Op_Unlock p False
        by (simp add: unlock_provider_collateral_def with_provider_def credit_ok unat_add_small account_worth_def
            provides_storage_def unat_sat_sub)
    qed
  qed
qed

interpretation funds: accounting "fund_step pw" account_worth account_inflow account_outflow provides_storage "2 ^ 128"
  for pw
  by unfold_locales (use fund_step_law in blast)+


definition demo_provider :: account where
  "demo_provider = new_storage_provider 0 [] ''p'' ''eu'' 10 [] [] ''peer''"

definition demo_fund_ops :: "fund_op list" where
  "demo_fund_ops = [Op_Credit 1 100, Op_Lock 2 60, Op_Earn 3 5 6 7, Op_Slash 4 4 20 ''miss'' [] Post_Miss, Op_Lock 5 1000, Op_Payout 6 10]"


text \<open>
  C40. Locking collateral on an account that is no storage provider loses the amount: the
  operation reports an error and the balance is debited all the same.
\<close>

theorem lock_collateral_loses_funds:
  assumes "ac_storage_provider_info a = None" "m \<le> ac_balance a"
  shows "snd (lock_provider_collateral now m a) = Inl not_provider \<and>
    account_worth (fst (lock_provider_collateral now m a)) + unat m = account_worth a"
  using assms by (simp add: lock_provider_collateral_def can_spend_def debit_ok with_provider_def account_worth_def
      unat_sub word_le_nat_alt)

theorem lock_collateral_loses_funds_witness:
  "snd (lock_provider_collateral 5 40 ((new_eoa 0 [] [] [])\<lparr>ac_balance := 100\<rparr>)) = Inl not_provider \<and>
   account_worth (fst (lock_provider_collateral 5 40 ((new_eoa 0 [] [] [])\<lparr>ac_balance := 100\<rparr>))) = 60"
proof -
  let ?a = "(new_eoa 0 [] [] [])\<lparr>ac_balance := 100\<rparr>"
  have "ac_storage_provider_info ?a = None" "account_worth ?a = 100" by (simp_all add: new_eoa_def account_worth_def)
  with lock_collateral_loses_funds [of ?a 40 5] show ?thesis by simp
qed

subsection \<open>Sectors and their accounting\<close>

datatype sector_op =
    Op_Add timestamp sector_info
  | Op_Remove timestamp hash
  | Op_Faulty timestamp hash
  | Op_Promote timestamp hash triad_role
  | Op_Repair timestamp hash

fun sector_step :: "powi_fn \<Rightarrow> sector_op \<Rightarrow> account \<Rightarrow> account" where
  "sector_step pw (Op_Add now s) a = fst (add_sector now s a)"
| "sector_step pw (Op_Remove now i) a = fst (remove_sector now i a)"
| "sector_step pw (Op_Faulty now i) a = fst (mark_sector_faulty pw now i a)"
| "sector_step pw (Op_Promote now i r) a = fst (promote_replica now i r a)"
| "sector_step pw (Op_Repair now i) a = fst (record_repair pw now i a)"

definition sectors_size :: "sector_info list \<Rightarrow> nat" where
  "sectors_size ss = sum_list (map (\<lambda>s. unat (si_size_bytes s)) ss)"

definition sectors_ok :: "u64 \<Rightarrow> account \<Rightarrow> bool" where
  "sectors_ok cap a \<longleftrightarrow> (case ac_storage_provider_info a of None \<Rightarrow> False
     | Some p \<Rightarrow> sp_storage_capacity p = cap \<and> unat (sp_storage_allocated p) = sectors_size (sp_active_sectors p) \<and>
         sectors_size (sp_active_sectors p) \<le> unat cap)"

lemma sectors_size_simps [simp]:
  "sectors_size [] = 0" "sectors_size (s # ss) = unat (si_size_bytes s) + sectors_size ss"
  "sectors_size (ss @ ss') = sectors_size ss + sectors_size ss'"
  by (simp_all add: sectors_size_def)

lemma remove_first_size: "remove_first i ss = Some (s, rest) \<Longrightarrow> sectors_size ss = unat (si_size_bytes s) + sectors_size rest"
proof (induction ss arbitrary: rest)
  case (Cons x ss)
  show ?case
  proof (cases "si_sector_id x = i")
    case True
    with Cons.prems show ?thesis by simp
  next
    case False
    with Cons.prems obtain ss' where "remove_first i ss = Some (s, ss')" "rest = x # ss'" by (auto split: prod.splits)
    with Cons.IH [of ss'] show ?thesis by simp
  qed
qed simp

lemma update_sector_size:
  "update_sector i f ss = Some ss' \<Longrightarrow> (\<And>s. si_size_bytes (f s) = si_size_bytes s) \<Longrightarrow> sectors_size ss' = sectors_size ss"
  by (induction ss arbitrary: ss') (auto split: if_splits)

lemma sectors_ok_put:
  "sectors_ok cap (put_provider now p a) \<longleftrightarrow> sp_storage_capacity p = cap \<and>
     unat (sp_storage_allocated p) = sectors_size (sp_active_sectors p) \<and> sectors_size (sp_active_sectors p) \<le> unat cap"
  by (simp add: sectors_ok_def put_provider_def)

lemma sector_step_ok:
  assumes ok: "sectors_ok cap a" and cap: "unat cap < 2 ^ 63"
    and small: "\<And>now s. x = Op_Add now s \<Longrightarrow> unat (si_size_bytes s) < 2 ^ 63"
  shows "sectors_ok cap (sector_step pw x a)"
proof -
  obtain p where p: "ac_storage_provider_info a = Some p" "sp_storage_capacity p = cap"
    "unat (sp_storage_allocated p) = sectors_size (sp_active_sectors p)" "sectors_size (sp_active_sectors p) \<le> unat cap"
    using ok by (auto simp: sectors_ok_def split: option.splits)
  show ?thesis
  proof (cases x)
    case (Op_Add now s)
    have "unat (sp_storage_allocated p + si_size_bytes s) = unat (sp_storage_allocated p) + unat (si_size_bytes s)"
      using p(3,4) cap small [OF Op_Add] by (simp add: unat_word_ariths)
    with p ok Op_Add show ?thesis
      by (auto simp: add_sector_def with_provider_def sectors_ok_put word_le_nat_alt not_less)
  next
    case (Op_Remove now i)
    with p ok show ?thesis
      by (auto simp: remove_sector_def with_provider_def sectors_ok_put unat_sat_sub dest!: remove_first_size split: option.splits)
  next
    case (Op_Faulty now i)
    with p ok show ?thesis
      by (auto simp: mark_sector_faulty_def with_provider_def sectors_ok_put with_health_def dest!: update_sector_size split: option.splits)
  next
    case (Op_Promote now i r)
    with p ok show ?thesis
      by (auto simp: promote_replica_def with_provider_def sectors_ok_put dest!: update_sector_size split: option.splits)
  next
    case (Op_Repair now i)
    with p ok show ?thesis
      by (auto simp: record_repair_def with_provider_def sectors_ok_put with_health_def Let_def dest!: update_sector_size split: option.splits)
  qed
qed

text \<open>
  C18. The storage a new provider has allocated is the sum of the sizes of its sectors and stays
  within its capacity, over any sequence of sector operations, as long as the capacity and the
  sizes asked for are below \<open>2 ^ 63\<close>.
\<close>

theorem storage_accounted:
  assumes "unat cap < 2 ^ 63" "\<forall>x \<in> set xs. \<forall>now s. x = Op_Add now s \<longrightarrow> unat (si_size_bytes s) < 2 ^ 63"
    "a' = runs (sector_step pw) xs (new_storage_provider now addr prov region cap dil kem peer)"
  shows "\<exists>p. ac_storage_provider_info a' = Some p \<and>
    unat (sp_storage_allocated p) = sum_list (map (\<lambda>s. unat (si_size_bytes s)) (sp_active_sectors p)) \<and>
    sp_storage_allocated p \<le> cap"
proof -
  have "sectors_ok cap (new_storage_provider now addr prov region cap dil kem peer)"
    by (simp add: sectors_ok_def new_storage_provider_def new_eoa_def initial_provider_def)
  moreover have "sectors_ok cap (sector_step pw x s)" if "x \<in> set xs" "sectors_ok cap s" for x s
    by (rule sector_step_ok [OF that(2) assms(1)]) (use assms(2) that(1) in blast)
  ultimately have ok: "sectors_ok cap a'"
    unfolding assms(3) by (rule runs_invariant [of xs "sectors_ok cap" "sector_step pw", rotated])
  then obtain p where "ac_storage_provider_info a' = Some p" by (auto simp: sectors_ok_def split: option.splits)
  with ok show ?thesis by (simp add: sectors_ok_def sectors_size_def word_le_nat_alt)
qed

definition demo_sector :: "hash \<Rightarrow> u64 \<Rightarrow> sector_info" where
  "demo_sector i n = \<lparr>si_sector_id = i, si_size_bytes = n, si_data_type = User_Data, si_sealed_at = 0, si_expires_at = 9,
     si_replica_id = [], si_comm_d = [], si_comm_r = [],
     si_triad = \<lparr>td_group_id = [], td_role = Triad_Primary, td_primary = [], td_replica_a = [], td_replica_b = [], td_placement_epoch = 0\<rparr>,
     si_params_version = 1, si_post_frequency = 1, si_last_post_epoch = 0, si_miss_count = 0, si_integrity_verified = True\<rparr>"

theorem storage_accounted_witness:
  "\<exists>p. ac_storage_provider_info (runs (sector_step (\<lambda>x n. x))
      [Op_Add 1 (demo_sector [1] 6), Op_Add 2 (demo_sector [2] 5), Op_Add 3 (demo_sector [3] 4), Op_Remove 4 [1]]
      (new_storage_provider 0 [] ''p'' ''eu'' 10 [] [] ''peer'')) = Some p \<and>
    unat (sp_storage_allocated p) = sum_list (map (\<lambda>s. unat (si_size_bytes s)) (sp_active_sectors p)) \<and>
    sp_storage_allocated p \<le> 10"
proof (rule storage_accounted [OF _ _ refl])
  show "unat (10 :: u64) < 2 ^ 63" by simp
  show "\<forall>x \<in> set [Op_Add 1 (demo_sector [1] 6), Op_Add 2 (demo_sector [2] 5), Op_Add 3 (demo_sector [3] 4), Op_Remove 4 [1]].
      \<forall>now s. x = Op_Add now s \<longrightarrow> unat (si_size_bytes s) < 2 ^ 63"
    by (simp add: demo_sector_def)
qed

text \<open>
  The capacity check of \<open>add_sector\<close> wraps around: a provider with 5 of 10 bytes in use
  accepts a sector of \<open>2 ^ 64 - 1\<close> bytes, and has 4 bytes in use afterwards.
\<close>

theorem add_sector_wraps:
  "\<exists>a p a' p'. ac_storage_provider_info a = Some p \<and> sp_storage_capacity p = 10 \<and> sp_storage_allocated p = 5 \<and>
     add_sector 1 (demo_sector [1] (- 1)) a = (a', Inr ()) \<and> ac_storage_provider_info a' = Some p' \<and>
     unat (si_size_bytes (demo_sector [1] (- 1))) = 2 ^ 64 - 1 \<and> sp_storage_allocated p' = 4"
proof -
  define p where "p = (initial_provider [] 10)\<lparr>sp_storage_allocated := 5\<rparr>"
  define a where "a = (new_eoa 0 [] [] [])\<lparr>ac_storage_provider_info := Some p\<rparr>"
  have p: "sp_storage_capacity p = 10" "sp_storage_allocated p = 5" by (simp_all add: p_def initial_provider_def)
  have a: "ac_storage_provider_info a = Some p" by (simp add: a_def)
  have "unat (- 1 :: u64) = 2 ^ 64 - 1" by (simp add: unsigned_minus_1_eq_mask mask_eq_exp_minus_1)
  then have s: "unat (si_size_bytes (demo_sector [1] (- 1))) = 2 ^ 64 - 1" "si_size_bytes (demo_sector [1] (- 1)) = - 1"
    by (simp_all add: demo_sector_def)
  obtain a' p' where "add_sector 1 (demo_sector [1] (- 1)) a = (a', Inr ())" "ac_storage_provider_info a' = Some p'"
    "sp_storage_allocated p' = 4"
    using a p s(2) by (simp add: add_sector_def with_provider_def put_provider_def)
  with a p s(1) show ?thesis by blast
qed

subsection \<open>Health scores\<close>

lemma fin_100000: "fin 100000 = Fin 100000" "fin 100 = Fin 100"
  by (simp_all add: fin_numeral)

lemma health_score_le: "unat (health_score pw s) \<le> 100000"
proof -
  have f0: "fin 0 = Fin 0" using fin_int [of 0] by simp
  have "f_to_nat (2 ^ 64 - 1) (fmax (fmin x (Fin 100000)) (Fin 0)) \<le> nat \<lfloor>100000 :: rat\<rfloor>" for x
    by (rule f_to_nat_fmin) simp
  then have le: "f_to_nat (2 ^ 64 - 1) (fmax (fmin x (fin 100000)) (fin 0)) \<le> 100000" for x
    by (simp add: f0 fin_100000)
  have "unat (f_to_u64 (fmax (fmin x (fin 100000)) (fin 0))) \<le> 100000" for x
    using le [of x] unfolding f_to_u64_def by (simp add: unat_of_nat order.strict_trans1)
  then show ?thesis by (simp add: health_score_def Let_def)
qed

lemma pass_rate_bounds:
  assumes "unat (pr_challenges_answered s) + unat (pr_challenges_missed s) < 2 ^ 64"
    "0 < unat (pr_challenges_answered s) + unat (pr_challenges_missed s)"
  shows "\<exists>r. pr_post_pass_rate (with_pass_rate s) = Fin r \<and> 0 \<le> r \<and> r \<le> 100"
proof -
  have t: "unat (pr_challenges_answered s + pr_challenges_missed s) = unat (pr_challenges_answered s) + unat (pr_challenges_missed s)"
    using assms(1) by (simp add: unat_word_ariths)
  then have pos: "0 < pr_challenges_answered s + pr_challenges_missed s" using assms(2) by (simp add: word_less_nat_alt)
  obtain r where r: "fdiv (f_of_nat (unat (pr_challenges_answered s))) (f_of_nat (unat (pr_challenges_answered s + pr_challenges_missed s))) = Fin r"
    "0 \<le> r" "r \<le> 1"
    by (rule fdiv_ratio [of "unat (pr_challenges_answered s)" "unat (pr_challenges_answered s + pr_challenges_missed s)"])
      (use t assms in auto)
  obtain q where "fmul (Fin r) (Fin (of_int 100)) = Fin q" "0 \<le> q" "q \<le> of_int 100"
    by (rule fmul_scale [OF r(2,3), of 100]) auto
  then show ?thesis using pos r(1) by (simp add: with_pass_rate_def Let_def fin_100000)
qed

text \<open>
  Recording a proof keeps the statistics in range: the pass rate is a finite number from 0
  to 100 and the health score is at most 100000, whatever the other statistics are, and the
  record succeeds unless a counter is at its end.
\<close>

theorem proof_record_bounds:
  assumes "ac_storage_provider_info a = Some p" "s = sp_postrep_stats p"
    "unat (pr_post_proofs_submitted s) + 1 < 2 ^ 64"
    "unat (pr_challenges_answered s) + unat (pr_challenges_missed s) + 1 < 2 ^ 64"
  shows "\<exists>a' p' r. record_post_proof pw now success latency epoch a = Some a' \<and> ac_storage_provider_info a' = Some p' \<and>
    pr_post_pass_rate (sp_postrep_stats p') = Fin r \<and> 0 \<le> r \<and> r \<le> 100 \<and> unat (sp_health_score p') \<le> 100000"
proof -
  have sub: "unat (pr_post_proofs_submitted s + 1) = unat (pr_post_proofs_submitted s) + 1"
    using assms(3) by (simp add: unat_word_ariths)
  then have nz: "pr_post_proofs_submitted s + 1 \<noteq> 0" by (metis add_is_0 unat_0 zero_neq_one)
  have ans: "unat (pr_challenges_answered s + 1) = unat (pr_challenges_answered s) + 1"
    "unat (pr_challenges_missed s + 1) = unat (pr_challenges_missed s) + 1"
    using assms(4) by (simp_all add: unat_word_ariths)
  have "\<exists>s' r. stats_after_proof success latency s = Some s' \<and> pr_post_pass_rate s' = Fin r \<and> 0 \<le> r \<and> r \<le> 100"
  proof (cases success)
    case True
    let ?s = "s\<lparr>pr_post_proofs_submitted := pr_post_proofs_submitted s + 1,
      pr_challenges_answered := pr_challenges_answered s + 1, pr_consecutive_misses := 0\<rparr>"
    have keep: "pr_post_proofs_submitted (with_pass_rate ?s) = pr_post_proofs_submitted s + 1"
      by (simp add: with_pass_rate_def Let_def)
    have "\<exists>r. pr_post_pass_rate (with_pass_rate ?s) = Fin r \<and> 0 \<le> r \<and> r \<le> 100"
      by (rule pass_rate_bounds) (use assms(4) ans in auto)
    with True keep nz show ?thesis by (auto simp: stats_after_proof_def Let_def new_average_def)
  next
    case False
    let ?s = "s\<lparr>pr_post_proofs_submitted := pr_post_proofs_submitted s + 1,
      pr_challenges_missed := pr_challenges_missed s + 1, pr_consecutive_misses := pr_consecutive_misses s + 1\<rparr>"
    have "\<exists>r. pr_post_pass_rate (with_pass_rate ?s) = Fin r \<and> 0 \<le> r \<and> r \<le> 100"
      by (rule pass_rate_bounds) (use assms(4) ans in auto)
    with False show ?thesis by (simp add: stats_after_proof_def Let_def)
  qed
  then show ?thesis using assms(1,2) health_score_le
    by (auto simp: record_post_proof_def put_provider_def with_health_def)
qed

theorem proof_record_bounds_witness:
  "\<exists>a' p' r. record_post_proof (\<lambda>x n. x) 1 False 2500 7 (new_storage_provider 0 [] ''p'' ''eu'' 10 [] [] ''peer'') = Some a' \<and>
    ac_storage_provider_info a' = Some p' \<and> pr_post_pass_rate (sp_postrep_stats p') = Fin r \<and> 0 \<le> r \<and> r \<le> 100 \<and>
    unat (sp_health_score p') \<le> 100000"
  by (rule proof_record_bounds [OF _ refl, of _ "initial_provider [] 10"])
    (simp_all add: new_storage_provider_def new_eoa_def initial_provider_def default_post_rep_stats_def)

end
