(* ===== verification/Escrow.thy ===== *)
theory Escrow
  imports Codec Accounting
begin

section \<open>The Solana escrow program\<close>

text \<open>
  \<^verbatim>\<open>contracts/p2p-solana/src/lib.rs\<close>. The ledger maps each key to an account; an account info of a
  call is a key with its signer and writable flags, so two infos with one key share one account.
  A call returns an error or the new ledger: the runtime drops every change of a failed call. The
  runtime is a record of parameters: address derivation, rent, the clock, the instructions sysvar
  and the invocation of other programs. A public key is a list of 32 bytes.
\<close>

type_synonym pubkey = bytes

definition NO_KEY :: pubkey where "NO_KEY = replicate 32 0"

definition SYSTEM_PROGRAM_ID :: pubkey where "SYSTEM_PROGRAM_ID = replicate 32 0"

definition TOKEN_PROGRAM_ID :: pubkey where
  "TOKEN_PROGRAM_ID = [6, 221, 246, 225, 215, 101, 161, 147, 217, 203, 225, 70, 206, 235, 121, 172,
     28, 180, 133, 237, 95, 91, 55, 145, 58, 140, 245, 133, 126, 255, 0, 169]"

definition ED25519_PROGRAM_ID :: pubkey where
  "ED25519_PROGRAM_ID = [3, 125, 70, 214, 124, 147, 251, 190, 18, 249, 66, 143, 131, 141, 64, 255,
     5, 112, 116, 73, 39, 244, 138, 100, 252, 202, 112, 68, 128, 0, 0, 0]"

definition INSTRUCTIONS_SYSVAR_ID :: pubkey where
  "INSTRUCTIONS_SYSVAR_ID = [6, 167, 213, 23, 24, 123, 209, 102, 53, 218, 212, 4, 85, 253, 194, 192,
     193, 36, 198, 143, 33, 86, 117, 165, 219, 186, 203, 95, 8, 0, 0, 0]"

definition ESCROW_SEED :: bytes where "ESCROW_SEED = ascii ''escrow''"
definition VAULT_SEED :: bytes where "VAULT_SEED = ascii ''vault''"
definition AUTH_DOMAIN :: bytes where "AUTH_DOMAIN = ascii ''ego-escrow/solana/v1''"
definition ESCROW_LEN :: nat where "ESCROW_LEN = 232"
definition TOKEN_ACCOUNT_LEN :: nat where "TOKEN_ACCOUNT_LEN = 165"
definition MINT_LEN :: nat where "MINT_LEN = 82"
definition ESCROW_VERSION :: u8 where "ESCROW_VERSION = 1"
definition STATE_FUNDED :: u8 where "STATE_FUNDED = 1"
definition MIN_FALLBACK :: i64 where "MIN_FALLBACK = 30 * 24 * 60 * 60"
definition MAX_FALLBACK :: i64 where "MAX_FALLBACK = 365 * 24 * 60 * 60"
definition MAX_FEE_BPS :: nat where "MAX_FEE_BPS = 1000"
definition ACTION_CANCEL :: u8 where "ACTION_CANCEL = 2"
definition ACTION_FREEZE :: u8 where "ACTION_FREEZE = 5"

datatype escrow_error = Unknown_Escrow | Not_Funded | Already_Used | Bad_Party | Bad_Amount | Bad_Fallback
  | Not_Allowed | Too_Early | Bad_Signature | Bad_Account | Bad_Instruction

datatype program_error = Custom escrow_error | Not_Enough_Account_Keys | Runtime_Error nat | Panicked

abbreviation fail :: "escrow_error \<Rightarrow> program_error + 'a" where
  "fail e \<equiv> Inl (Custom e)"

subsection \<open>Accounts, instructions and the runtime\<close>

record ledger_account =
  la_lamports :: u64
  la_owner :: pubkey
  la_data :: bytes

type_synonym ledger = "pubkey \<Rightarrow> ledger_account"

record account_meta =
  am_key :: pubkey
  am_signer :: bool
  am_writable :: bool

record instruction =
  ix_program :: pubkey
  ix_accounts :: "account_meta list"
  ix_data :: bytes

record runtime =
  rt_find_address :: "bytes list \<Rightarrow> pubkey \<Rightarrow> pubkey \<times> u8"
  rt_create_address :: "bytes list \<Rightarrow> pubkey \<Rightarrow> pubkey option"
  rt_rent :: "program_error + (nat \<Rightarrow> u64)"
  rt_now :: "program_error + i64"
  rt_invoke :: "instruction \<Rightarrow> pubkey list \<Rightarrow> bytes list list \<Rightarrow> ledger \<Rightarrow> program_error + ledger"
  rt_current_index :: "program_error + u16"
  rt_instruction_at :: "nat \<Rightarrow> program_error + instruction"

definition lamports :: "ledger \<Rightarrow> pubkey \<Rightarrow> u64" where "lamports s k = la_lamports (s k)"

definition set_lamports :: "pubkey \<Rightarrow> u64 \<Rightarrow> ledger \<Rightarrow> ledger" where
  "set_lamports k v s = s(k := (s k)\<lparr>la_lamports := v\<rparr>)"

definition set_data :: "pubkey \<Rightarrow> bytes \<Rightarrow> ledger \<Rightarrow> ledger" where
  "set_data k d s = s(k := (s k)\<lparr>la_data := d\<rparr>)"

subsection \<open>The escrow record\<close>

record escrow =
  es_state :: u8
  es_frozen :: bool
  es_bump :: u8
  es_vault_bump :: u8
  es_trade_id :: bytes
  es_seller :: pubkey
  es_buyer :: pubkey
  es_arbiter :: pubkey
  es_fee_receiver :: pubkey
  es_mint :: pubkey
  es_total :: u64
  es_fee :: u64
  es_opened_at :: i64
  es_fallback_at :: i64

definition is_native :: "escrow \<Rightarrow> bool" where "is_native e \<longleftrightarrow> es_mint e = NO_KEY"

definition i64_bytes :: "i64 \<Rightarrow> bytes" where "i64_bytes x = le64 (word_of_int x)"

definition pack_bytes :: "escrow \<Rightarrow> bytes" where
  "pack_bytes e = [ESCROW_VERSION, es_state e, if es_frozen e then 1 else 0, es_bump e, es_vault_bump e, 0, 0, 0] @
     es_trade_id e @ es_seller e @ es_buyer e @ es_arbiter e @ es_fee_receiver e @ es_mint e @
     le64 (es_total e) @ le64 (es_fee e) @ i64_bytes (es_opened_at e) @ i64_bytes (es_fallback_at e)"

text \<open>\<open>pack\<close> writes the first 232 bytes of a slice and panics on a shorter one.\<close>

definition pack :: "escrow \<Rightarrow> bytes \<Rightarrow> program_error + bytes" where
  "pack e out = (if length out < ESCROW_LEN then Inl Panicked else Inr (pack_bytes e @ drop ESCROW_LEN out))"

definition bytes_at :: "bytes \<Rightarrow> nat \<Rightarrow> nat \<Rightarrow> bytes" where "bytes_at d i n = take n (drop i d)"

definition u64_at :: "bytes \<Rightarrow> nat \<Rightarrow> u64" where "u64_at d i = of_nat (le_nat (bytes_at d i 8))"

definition unpack :: "bytes \<Rightarrow> program_error + escrow" where
  "unpack d =
     (if length d \<noteq> ESCROW_LEN \<or> d ! 0 \<noteq> ESCROW_VERSION then fail Unknown_Escrow
      else Inr \<lparr>es_state = d ! 1, es_frozen = (d ! 2 \<noteq> 0), es_bump = d ! 3, es_vault_bump = d ! 4,
        es_trade_id = bytes_at d 8 32, es_seller = bytes_at d 40 32, es_buyer = bytes_at d 72 32,
        es_arbiter = bytes_at d 104 32, es_fee_receiver = bytes_at d 136 32, es_mint = bytes_at d 168 32,
        es_total = u64_at d 200, es_fee = u64_at d 208,
        es_opened_at = sint (u64_at d 216), es_fallback_at = sint (u64_at d 224)\<rparr>)"

definition auth_message :: "pubkey \<Rightarrow> pubkey \<Rightarrow> u8 \<Rightarrow> bytes" where
  "auth_message pid ekey action = AUTH_DOMAIN @ pid @ ekey @ [action]"

subsection \<open>Reading instruction data\<close>

text \<open>A reader is the data it has not consumed yet.\<close>

definition rd_take :: "nat \<Rightarrow> bytes \<Rightarrow> program_error + bytes \<times> bytes" where
  "rd_take n r = (if length r < n then fail Bad_Instruction else Inr (take n r, drop n r))"

definition rd_u64 :: "bytes \<Rightarrow> program_error + u64 \<times> bytes" where
  "rd_u64 r = rbind (rd_take 8 r) (\<lambda>(b, r'). Inr (of_nat (le_nat b), r'))"

definition rd_u8 :: "bytes \<Rightarrow> program_error + u8 \<times> bytes" where
  "rd_u8 r = rbind (rd_take 1 r) (\<lambda>(b, r'). Inr (b ! 0, r'))"

definition rd_done :: "bytes \<Rightarrow> program_error + unit" where
  "rd_done r = (if r = [] then Inr () else fail Bad_Instruction)"

fun next_info :: "account_meta list \<Rightarrow> program_error + account_meta \<times> account_meta list" where
  "next_info [] = Inl Not_Enough_Account_Keys"
| "next_info (a # it) = Inr (a, it)"

subsection \<open>Calls of other programs\<close>

definition meta_new :: "pubkey \<Rightarrow> bool \<Rightarrow> account_meta" where
  "meta_new k signs = \<lparr>am_key = k, am_signer = signs, am_writable = True\<rparr>"

definition meta_readonly :: "pubkey \<Rightarrow> bool \<Rightarrow> account_meta" where
  "meta_readonly k signs = \<lparr>am_key = k, am_signer = signs, am_writable = False\<rparr>"

definition system_ix :: "u32 \<Rightarrow> bytes \<Rightarrow> account_meta list \<Rightarrow> instruction" where
  "system_ix tag body metas = \<lparr>ix_program = SYSTEM_PROGRAM_ID, ix_accounts = metas, ix_data = le32 tag @ body\<rparr>"

definition create_pda :: "runtime \<Rightarrow> pubkey \<Rightarrow> pubkey \<Rightarrow> pubkey \<Rightarrow> u64 \<Rightarrow> nat \<Rightarrow> pubkey \<Rightarrow> bytes list \<Rightarrow>
    ledger \<Rightarrow> program_error + ledger" where
  "create_pda rt payer target system amount space owner seeds s =
     (let current = lamports s target in
      if current = 0
      then rt_invoke rt (system_ix 0 (le64 amount @ le64 (of_nat space) @ owner) [meta_new payer True, meta_new target True])
             [payer, target, system] [seeds] s
      else rbind (if current < amount
                  then rt_invoke rt (system_ix 2 (le64 (amount - current)) [meta_new payer True, meta_new target False])
                         [payer, target, system] [] s
                  else Inr s) (\<lambda>s1.
           rbind (rt_invoke rt (system_ix 8 (le64 (of_nat space)) [meta_new target True]) [target, system] [seeds] s1) (\<lambda>s2.
           rt_invoke rt (system_ix 1 owner [meta_new target True]) [target, system] [seeds] s2)))"

definition token_ix :: "bytes \<Rightarrow> account_meta list \<Rightarrow> instruction" where
  "token_ix d metas = \<lparr>ix_program = TOKEN_PROGRAM_ID, ix_accounts = metas, ix_data = d\<rparr>"

definition transfer_checked :: "runtime \<Rightarrow> pubkey \<Rightarrow> pubkey \<Rightarrow> pubkey \<Rightarrow> pubkey \<Rightarrow> pubkey \<Rightarrow> u64 \<Rightarrow> u8 \<Rightarrow>
    bytes list option \<Rightarrow> ledger \<Rightarrow> program_error + ledger" where
  "transfer_checked rt token_program source mint dest authority amount decimals seeds s =
     rt_invoke rt (token_ix ([12] @ le64 amount @ [decimals])
       [meta_new source False, meta_readonly mint False, meta_new dest False, meta_readonly authority True])
       [source, mint, dest, authority, token_program] (case seeds of None \<Rightarrow> [] | Some x \<Rightarrow> [x]) s"

record token_account =
  ta_mint :: pubkey
  ta_owner :: pubkey
  ta_amount :: u64

definition read_token_account :: "ledger \<Rightarrow> pubkey \<Rightarrow> program_error + token_account" where
  "read_token_account s k =
     (let d = la_data (s k) in
      if la_owner (s k) \<noteq> TOKEN_PROGRAM_ID \<or> length d \<noteq> TOKEN_ACCOUNT_LEN then fail Bad_Account
      else if d ! 108 \<noteq> 1 then fail Bad_Account
      else Inr \<lparr>ta_mint = bytes_at d 0 32, ta_owner = bytes_at d 32 32, ta_amount = u64_at d 64\<rparr>)"

definition mint_decimals :: "ledger \<Rightarrow> pubkey \<Rightarrow> program_error + u8" where
  "mint_decimals s k =
     (let d = la_data (s k) in
      if la_owner (s k) \<noteq> TOKEN_PROGRAM_ID \<or> length d \<noteq> MINT_LEN then fail Bad_Account
      else if d ! 45 \<noteq> 1 then fail Bad_Account
      else Inr (d ! 44))"

subsection \<open>Opening an escrow\<close>

record open_args =
  oa_trade_id :: bytes
  oa_buyer :: pubkey
  oa_arbiter :: pubkey
  oa_fee_receiver :: pubkey
  oa_mint :: pubkey
  oa_total :: u64
  oa_fee :: u64
  oa_fallback_delay :: i64

definition read_open_args :: "bytes \<Rightarrow> program_error + open_args" where
  "read_open_args r0 =
     rbind (rd_take 32 r0) (\<lambda>(trade_id, r1).
     rbind (rd_take 32 r1) (\<lambda>(buyer, r2).
     rbind (rd_take 32 r2) (\<lambda>(arbiter, r3).
     rbind (rd_take 32 r3) (\<lambda>(fee_receiver, r4).
     rbind (rd_take 32 r4) (\<lambda>(mint, r5).
     rbind (rd_u64 r5) (\<lambda>(total_amount, r6).
     rbind (rd_u64 r6) (\<lambda>(fee, r7).
     rbind (rd_u64 r7) (\<lambda>(delay, r8).
     rbind (rd_done r8) (\<lambda>_.
       Inr \<lparr>oa_trade_id = trade_id, oa_buyer = buyer, oa_arbiter = arbiter, oa_fee_receiver = fee_receiver,
         oa_mint = mint, oa_total = total_amount, oa_fee = fee, oa_fallback_delay = sint delay\<rparr>)))))))))"

text \<open>The terms of an escrow, checked before anything is created.\<close>

definition check_terms :: "pubkey \<Rightarrow> open_args \<Rightarrow> program_error + unit" where
  "check_terms seller a =
     (if oa_buyer a = NO_KEY \<or> oa_arbiter a = NO_KEY \<or> oa_fee_receiver a = NO_KEY then fail Bad_Party
      else if oa_buyer a = seller \<or> oa_arbiter a = seller \<or> oa_arbiter a = oa_buyer a then fail Bad_Party
      else if oa_total a = 0 \<or> unat (oa_total a) * MAX_FEE_BPS < unat (oa_fee a) * 10000 then fail Bad_Amount
      else if \<not> (MIN_FALLBACK \<le> oa_fallback_delay a \<and> oa_fallback_delay a \<le> MAX_FALLBACK) then fail Bad_Fallback
      else Inr ())"

text \<open>The vault of a token escrow: created, initialised, filled and checked. The result has its bump.\<close>

definition open_vault :: "runtime \<Rightarrow> pubkey \<Rightarrow> account_meta list \<Rightarrow> pubkey \<Rightarrow> pubkey \<Rightarrow> pubkey \<Rightarrow> (nat \<Rightarrow> u64) \<Rightarrow>
    open_args \<Rightarrow> ledger \<Rightarrow> program_error + u8 \<times> ledger" where
  "open_vault rt pid it seller system escrow_key rent a s =
     rbind (next_info it) (\<lambda>(mint_info, it1).
     rbind (next_info it1) (\<lambda>(seller_token, it2).
     rbind (next_info it2) (\<lambda>(vault, it3).
     rbind (next_info it3) (\<lambda>(token_program, _).
     if am_key token_program \<noteq> TOKEN_PROGRAM_ID \<or> am_key mint_info \<noteq> oa_mint a \<or> \<not> am_writable vault then fail Bad_Account
     else rbind (mint_decimals s (am_key mint_info)) (\<lambda>decimals.
     let (vault_key, vb) = rt_find_address rt [VAULT_SEED, escrow_key] pid in
     if am_key vault \<noteq> vault_key then fail Bad_Account
     else if la_owner (s vault_key) \<noteq> SYSTEM_PROGRAM_ID \<or> la_data (s vault_key) \<noteq> [] then fail Already_Used
     else rbind (create_pda rt seller vault_key system (rent TOKEN_ACCOUNT_LEN) TOKEN_ACCOUNT_LEN TOKEN_PROGRAM_ID
                   [VAULT_SEED, escrow_key, [vb]] s) (\<lambda>s1.
     rbind (rt_invoke rt (token_ix ([18] @ escrow_key) [meta_new vault_key False, meta_readonly (oa_mint a) False])
              [vault_key, am_key mint_info, am_key token_program] [] s1) (\<lambda>s2.
     rbind (transfer_checked rt (am_key token_program) (am_key seller_token) (am_key mint_info) vault_key seller
              (oa_total a) decimals None s2) (\<lambda>s3.
     rbind (read_token_account s3 vault_key) (\<lambda>held.
     if ta_amount held \<noteq> oa_total a \<or> ta_mint held \<noteq> oa_mint a \<or> ta_owner held \<noteq> escrow_key then fail Bad_Amount
     else Inr (vb, s3))))))))))"

text \<open>The record of a funded escrow is written last.\<close>

definition record_escrow :: "runtime \<Rightarrow> open_args \<Rightarrow> pubkey \<Rightarrow> pubkey \<Rightarrow> u8 \<Rightarrow> u8 \<Rightarrow> ledger \<Rightarrow> program_error + ledger" where
  "record_escrow rt a seller escrow_key bump vault_bump s =
     rbind (rt_now rt) (\<lambda>now.
     case i64_checked_add now (oa_fallback_delay a) of
       None \<Rightarrow> fail Bad_Fallback
     | Some fallback \<Rightarrow>
         rbind (pack \<lparr>es_state = STATE_FUNDED, es_frozen = False, es_bump = bump, es_vault_bump = vault_bump,
                  es_trade_id = oa_trade_id a, es_seller = seller, es_buyer = oa_buyer a,
                  es_arbiter = oa_arbiter a, es_fee_receiver = oa_fee_receiver a, es_mint = oa_mint a,
                  es_total = oa_total a, es_fee = oa_fee a, es_opened_at = now, es_fallback_at = fallback\<rparr>
                  (la_data (s escrow_key))) (\<lambda>d.
         Inr (set_data escrow_key d s)))"

definition fund_escrow :: "runtime \<Rightarrow> pubkey \<Rightarrow> account_meta list \<Rightarrow> pubkey \<Rightarrow> pubkey \<Rightarrow> pubkey \<Rightarrow> open_args \<Rightarrow>
    ledger \<Rightarrow> program_error + ledger" where
  "fund_escrow rt pid it seller escrow system a s =
     (let (escrow_key, bump) = rt_find_address rt [ESCROW_SEED, oa_trade_id a, seller] pid in
      if escrow \<noteq> escrow_key then fail Bad_Account
      else if la_owner (s escrow) \<noteq> SYSTEM_PROGRAM_ID \<or> la_data (s escrow) \<noteq> [] then fail Already_Used
      else rbind (rt_rent rt) (\<lambda>rent.
        let native = (oa_mint a = NO_KEY) in
        case checked_add (rent ESCROW_LEN) (if native then oa_total a else 0) of
          None \<Rightarrow> fail Bad_Amount
        | Some amount \<Rightarrow>
            rbind (create_pda rt seller escrow system amount ESCROW_LEN pid [ESCROW_SEED, oa_trade_id a, seller, [bump]] s) (\<lambda>s1.
            rbind (if native then Inr (0, s1) else open_vault rt pid it seller system escrow_key rent a s1) (\<lambda>(vault_bump, s2).
            record_escrow rt a seller escrow bump vault_bump s2))))"

definition open_escrow :: "runtime \<Rightarrow> pubkey \<Rightarrow> account_meta list \<Rightarrow> bytes \<Rightarrow> ledger \<Rightarrow> program_error + ledger" where
  "open_escrow rt pid accounts r s =
     rbind (read_open_args r) (\<lambda>a.
     rbind (next_info accounts) (\<lambda>(seller, it1).
     rbind (next_info it1) (\<lambda>(escrow, it2).
     rbind (next_info it2) (\<lambda>(system, it3).
     if \<not> am_signer seller \<or> \<not> am_writable seller \<or> \<not> am_writable escrow then fail Bad_Account
     else if am_key system \<noteq> SYSTEM_PROGRAM_ID then fail Bad_Account
     else rbind (check_terms (am_key seller) a) (\<lambda>_.
          fund_escrow rt pid it3 (am_key seller) (am_key escrow) (am_key system) a s)))))"

subsection \<open>Freezing and settling\<close>

definition load_escrow :: "runtime \<Rightarrow> pubkey \<Rightarrow> account_meta \<Rightarrow> ledger \<Rightarrow> program_error + escrow" where
  "load_escrow rt pid info s =
     (if la_owner (s (am_key info)) \<noteq> pid then fail Unknown_Escrow
      else rbind (unpack (la_data (s (am_key info)))) (\<lambda>e.
        case rt_create_address rt [ESCROW_SEED, es_trade_id e, es_seller e, [es_bump e]] pid of
          None \<Rightarrow> fail Unknown_Escrow
        | Some expected \<Rightarrow>
            if expected \<noteq> am_key info then fail Unknown_Escrow
            else if es_state e \<noteq> STATE_FUNDED then fail Not_Funded
            else if \<not> am_writable info then fail Bad_Account
            else Inr e))"

definition u16_field :: "bytes \<Rightarrow> nat \<Rightarrow> u16" where
  "u16_field d i = of_nat (le_nat [d ! (2 + 2 * i), d ! (3 + 2 * i)])"

definition slice_of :: "bytes \<Rightarrow> u16 \<Rightarrow> nat \<Rightarrow> program_error + bytes" where
  "slice_of d off n = (if unat off + n \<le> length d then Inr (bytes_at d (unat off) n) else fail Bad_Signature)"

text \<open>The instruction before this one has to be the check of the signer's signature on this action.\<close>

definition require_signed_by :: "runtime \<Rightarrow> pubkey \<Rightarrow> account_meta \<Rightarrow> pubkey \<Rightarrow> pubkey \<Rightarrow> u8 \<Rightarrow> program_error + unit" where
  "require_signed_by rt pid sysvar ekey signer action =
     (if am_key sysvar \<noteq> INSTRUCTIONS_SYSVAR_ID then fail Bad_Account
      else rbind (rt_current_index rt) (\<lambda>current.
        if current = 0 then fail Bad_Signature
        else rbind (rt_instruction_at rt (unat current - 1)) (\<lambda>ix.
          let d = ix_data ix in
          if ix_program ix \<noteq> ED25519_PROGRAM_ID then fail Bad_Signature
          else if length d < 16 \<or> d ! 0 \<noteq> 1 then fail Bad_Signature
          else if u16_field d 1 \<noteq> - 1 \<or> u16_field d 3 \<noteq> - 1 \<or> u16_field d 6 \<noteq> - 1 then fail Bad_Signature
          else rbind (slice_of d (u16_field d 2) 32) (\<lambda>pk.
               rbind (slice_of d (u16_field d 4) (unat (u16_field d 5))) (\<lambda>message.
               if pk \<noteq> signer \<or> message \<noteq> auth_message pid ekey action then fail Bad_Signature else Inr ())))))"

definition freeze :: "runtime \<Rightarrow> pubkey \<Rightarrow> account_meta list \<Rightarrow> bool \<Rightarrow> ledger \<Rightarrow> program_error + ledger" where
  "freeze rt pid accounts by_signature s =
     rbind (next_info accounts) (\<lambda>(actor, it1).
     rbind (next_info it1) (\<lambda>(escrow, _).
     rbind (load_escrow rt pid escrow s) (\<lambda>e.
     rbind (if by_signature then require_signed_by rt pid actor (am_key escrow) (es_buyer e) ACTION_FREEZE
            else if \<not> am_signer actor \<or> am_key actor \<noteq> es_buyer e \<and> am_key actor \<noteq> es_arbiter e then fail Not_Allowed
            else Inr ()) (\<lambda>_.
     if es_frozen e then fail Not_Allowed
     else rbind (pack (e\<lparr>es_frozen := True\<rparr>) (la_data (s (am_key escrow)))) (\<lambda>d.
          Inr (set_data (am_key escrow) d s))))))"

datatype act = Release | Cancel | Resolve bool | Reclaim | Cancel_For

text \<open>Whether the money goes to the buyer, if the action is allowed.\<close>

definition act_direction :: "runtime \<Rightarrow> pubkey \<Rightarrow> account_meta \<Rightarrow> pubkey \<Rightarrow> escrow \<Rightarrow> act \<Rightarrow> program_error + bool" where
  "act_direction rt pid actor ekey e action =
     (let signed_by = (\<lambda>who. am_signer actor \<and> am_key actor = who) in
      case action of
        Release \<Rightarrow> if signed_by (es_seller e) then Inr True else fail Not_Allowed
      | Cancel \<Rightarrow> if signed_by (es_buyer e) then Inr False else fail Not_Allowed
      | Resolve to_buyer \<Rightarrow> if signed_by (es_arbiter e) then Inr to_buyer else fail Not_Allowed
      | Reclaim \<Rightarrow>
          if signed_by (es_seller e)
          then if es_frozen e then fail Not_Allowed
               else rbind (rt_now rt) (\<lambda>now. if now < es_fallback_at e then fail Too_Early else Inr False)
          else fail Not_Allowed
      | Cancel_For \<Rightarrow> rbind (require_signed_by rt pid actor ekey (es_buyer e) ACTION_CANCEL) (\<lambda>_. Inr False))"

definition move_lamports :: "pubkey \<Rightarrow> pubkey \<Rightarrow> u64 \<Rightarrow> ledger \<Rightarrow> program_error + ledger" where
  "move_lamports from dest amount s =
     (if amount = 0 \<or> from = dest then Inr s
      else case checked_sub (lamports s from) amount of
        None \<Rightarrow> fail Bad_Amount
      | Some a \<Rightarrow>
          let s1 = set_lamports from a s in
          case checked_add (lamports s1 dest) amount of
            None \<Rightarrow> fail Bad_Amount
          | Some b \<Rightarrow> Inr (set_lamports dest b s1))"

definition settle_native :: "escrow \<Rightarrow> pubkey \<Rightarrow> pubkey \<Rightarrow> account_meta option \<Rightarrow> bool \<Rightarrow> u64 \<Rightarrow> ledger \<Rightarrow> program_error + ledger" where
  "settle_native e ekey payee fee_payee to_buyer fee s =
     (if payee \<noteq> (if to_buyer then es_buyer e else es_seller e) then fail Bad_Account
      else if (case fee_payee of None \<Rightarrow> False | Some f \<Rightarrow> am_key f \<noteq> es_fee_receiver e \<or> \<not> am_writable f) then fail Bad_Account
      else rbind (move_lamports ekey payee (es_total e - fee) s) (\<lambda>s1.
           case fee_payee of
             Some f \<Rightarrow> if 0 < fee then move_lamports ekey (am_key f) fee s1 else Inr s1
           | None \<Rightarrow> Inr s1))"

definition settle_token :: "runtime \<Rightarrow> pubkey \<Rightarrow> escrow \<Rightarrow> pubkey \<Rightarrow> pubkey \<Rightarrow> pubkey \<Rightarrow> account_meta option \<Rightarrow> bool \<Rightarrow> u64 \<Rightarrow>
    account_meta list \<Rightarrow> ledger \<Rightarrow> program_error + ledger" where
  "settle_token rt pid e ekey seller payee fee_payee to_buyer fee it s =
     rbind (next_info it) (\<lambda>(vault, it1).
     rbind (next_info it1) (\<lambda>(mint_info, it2).
     rbind (next_info it2) (\<lambda>(token_program, _).
     if am_key token_program \<noteq> TOKEN_PROGRAM_ID \<or> am_key mint_info \<noteq> es_mint e \<or> \<not> am_writable vault then fail Bad_Account
     else case rt_create_address rt [VAULT_SEED, ekey, [es_vault_bump e]] pid of
       None \<Rightarrow> fail Bad_Account
     | Some vault_key \<Rightarrow>
         if am_key vault \<noteq> vault_key then fail Bad_Account
         else rbind (mint_decimals s (am_key mint_info)) (\<lambda>decimals.
              rbind (read_token_account s vault_key) (\<lambda>held.
              if ta_amount held < es_total e then fail Bad_Amount
              else rbind (read_token_account s payee) (\<lambda>dest.
              if ta_owner dest \<noteq> (if to_buyer then es_buyer e else es_seller e) \<or> ta_mint dest \<noteq> es_mint e then fail Bad_Account
              else rbind (case fee_payee of
                            None \<Rightarrow> Inr None
                          | Some f \<Rightarrow>
                              if 0 < fee
                              then rbind (read_token_account s (am_key f)) (\<lambda>t.
                                     if ta_owner t \<noteq> es_fee_receiver e \<or> ta_mint t \<noteq> es_mint e \<or> \<not> am_writable f
                                     then fail Bad_Account else Inr (Some (am_key f)))
                              else Inr None) (\<lambda>fee_dest.
              let seeds = [ESCROW_SEED, es_trade_id e, es_seller e, [es_bump e]] in
              rbind (transfer_checked rt (am_key token_program) vault_key (am_key mint_info) payee ekey
                       (ta_amount held - fee) decimals (Some seeds) s) (\<lambda>s1.
              rbind (case fee_dest of
                       None \<Rightarrow> Inr s1
                     | Some f \<Rightarrow> transfer_checked rt (am_key token_program) vault_key (am_key mint_info) f ekey fee
                                  decimals (Some seeds) s1) (\<lambda>s2.
              rt_invoke rt (token_ix [9] [meta_new vault_key False, meta_new seller False, meta_readonly ekey True])
                [vault_key, seller, ekey, am_key token_program] [seeds] s2)))))))))"

text \<open>What is left on the escrow account goes to the seller, and the account is closed.\<close>

definition close_escrow :: "pubkey \<Rightarrow> pubkey \<Rightarrow> ledger \<Rightarrow> program_error + ledger" where
  "close_escrow ekey seller s =
     rbind (move_lamports ekey seller (lamports s ekey) s) (\<lambda>s1.
     Inr (s1(ekey := (s1 ekey)\<lparr>la_data := [], la_owner := SYSTEM_PROGRAM_ID\<rparr>)))"

definition act_escrow :: "runtime \<Rightarrow> pubkey \<Rightarrow> account_meta list \<Rightarrow> act \<Rightarrow> ledger \<Rightarrow> program_error + ledger" where
  "act_escrow rt pid accounts action s =
     rbind (next_info accounts) (\<lambda>(actor, it1).
     rbind (next_info it1) (\<lambda>(escrow, it2).
     rbind (load_escrow rt pid escrow s) (\<lambda>e.
     rbind (act_direction rt pid actor (am_key escrow) e action) (\<lambda>to_buyer.
     rbind (next_info it2) (\<lambda>(seller, it3).
     rbind (next_info it3) (\<lambda>(payee, it4).
     rbind (if to_buyer then rbind (next_info it4) (\<lambda>(f, it5). Inr (Some f, it5)) else Inr (None, it4)) (\<lambda>(fee_payee, it5).
     if am_key seller \<noteq> es_seller e \<or> \<not> am_writable seller \<or> \<not> am_writable payee then fail Bad_Account
     else let fee = (if to_buyer then es_fee e else 0) in
       rbind (if is_native e then settle_native e (am_key escrow) (am_key payee) fee_payee to_buyer fee s
              else settle_token rt pid e (am_key escrow) (am_key seller) (am_key payee) fee_payee to_buyer fee it5 s) (\<lambda>s1.
       close_escrow (am_key escrow) (am_key seller) s1))))))))"

definition process_instruction :: "runtime \<Rightarrow> pubkey \<Rightarrow> account_meta list \<Rightarrow> bytes \<Rightarrow> ledger \<Rightarrow> program_error + ledger" where
  "process_instruction rt pid accounts d s =
     (case d of
        [] \<Rightarrow> fail Bad_Instruction
      | tag # r \<Rightarrow>
          if tag = 0 then open_escrow rt pid accounts r s
          else if tag = 1 then rbind (rd_done r) (\<lambda>_. act_escrow rt pid accounts Release s)
          else if tag = 2 then rbind (rd_done r) (\<lambda>_. act_escrow rt pid accounts Cancel s)
          else if tag = 3 then rbind (rd_u8 r) (\<lambda>(b, r').
            if b = 0 then rbind (rd_done r') (\<lambda>_. act_escrow rt pid accounts (Resolve False) s)
            else if b = 1 then rbind (rd_done r') (\<lambda>_. act_escrow rt pid accounts (Resolve True) s)
            else fail Bad_Instruction)
          else if tag = 4 then rbind (rd_done r) (\<lambda>_. freeze rt pid accounts False s)
          else if tag = 5 then rbind (rd_done r) (\<lambda>_. act_escrow rt pid accounts Reclaim s)
          else if tag = 6 then rbind (rd_done r) (\<lambda>_. act_escrow rt pid accounts Cancel_For s)
          else if tag = 7 then rbind (rd_done r) (\<lambda>_. freeze rt pid accounts True s)
          else fail Bad_Instruction)"

subsection \<open>The stored record\<close>

definition escrow_ok :: "escrow \<Rightarrow> bool" where
  "escrow_ok e \<longleftrightarrow> length (es_trade_id e) = 32 \<and> length (es_seller e) = 32 \<and> length (es_buyer e) = 32 \<and>
     length (es_arbiter e) = 32 \<and> length (es_fee_receiver e) = 32 \<and> length (es_mint e) = 32 \<and>
     i64_min \<le> es_opened_at e \<and> es_opened_at e \<le> i64_max \<and> i64_min \<le> es_fallback_at e \<and> es_fallback_at e \<le> i64_max"

lemma sint_of_i64: "i64_min \<le> x \<Longrightarrow> x \<le> i64_max \<Longrightarrow> sint (word_of_int x :: u64) = x"
  by (simp add: i64_min_def i64_max_def signed_of_int signed_take_bit_int_eq_self_iff)

lemma length_i64_bytes [simp]: "length (i64_bytes x) = 8"
  by (simp add: i64_bytes_def)

lemma length_pack_bytes: "escrow_ok e \<Longrightarrow> length (pack_bytes e) = ESCROW_LEN"
  by (simp add: escrow_ok_def pack_bytes_def ESCROW_LEN_def)

lemma unpack_pack:
  assumes "escrow_ok e"
  shows "unpack (pack_bytes e) = Inr e"
proof -
  note l = assms [unfolded escrow_ok_def]
  have "d = pack_bytes e \<Longrightarrow> bytes_at d 8 32 = es_trade_id e \<and> bytes_at d 40 32 = es_seller e \<and> bytes_at d 72 32 = es_buyer e \<and>
     bytes_at d 104 32 = es_arbiter e \<and> bytes_at d 136 32 = es_fee_receiver e \<and> bytes_at d 168 32 = es_mint e \<and>
     bytes_at d 200 8 = le64 (es_total e) \<and> bytes_at d 208 8 = le64 (es_fee e) \<and>
     bytes_at d 216 8 = i64_bytes (es_opened_at e) \<and> bytes_at d 224 8 = i64_bytes (es_fallback_at e)" for d
    using l by (simp add: pack_bytes_def bytes_at_def)
  note b = this [OF refl]
  have h: "pack_bytes e ! 0 = ESCROW_VERSION" "pack_bytes e ! 1 = es_state e" "pack_bytes e ! 2 = (if es_frozen e then 1 else 0)"
    "pack_bytes e ! 3 = es_bump e" "pack_bytes e ! 4 = es_vault_bump e"
    by (simp_all add: pack_bytes_def)
  show ?thesis
    using length_pack_bytes [OF assms] h b l by (simp add: unpack_def u64_at_def i64_bytes_def sint_of_i64)
qed

subsection \<open>Settlement\<close>

lemma move_lamportsD:
  assumes "move_lamports from dest amount s = Inr s'" "from \<noteq> dest"
  shows "unat (lamports s' from) + unat amount = unat (lamports s from)"
    "unat (lamports s' dest) = unat (lamports s dest) + unat amount"
    "k \<noteq> from \<Longrightarrow> k \<noteq> dest \<Longrightarrow> s' k = s k"
    "la_data (s' k) = la_data (s k)" "la_owner (s' k) = la_owner (s k)"
proof -
  have "unat (lamports s' from) + unat amount = unat (lamports s from) \<and>
    unat (lamports s' dest) = unat (lamports s dest) + unat amount \<and>
    (k \<noteq> from \<longrightarrow> k \<noteq> dest \<longrightarrow> s' k = s k) \<and> la_data (s' k) = la_data (s k) \<and> la_owner (s' k) = la_owner (s k)"
  proof (cases "amount = 0")
    case True
    with assms show ?thesis by (simp add: move_lamports_def)
  next
    case False
    with assms obtain a b where "checked_sub (lamports s from) amount = Some a" "checked_add (lamports s dest) amount = Some b"
      "s' = set_lamports dest b (set_lamports from a s)"
      by (auto simp: move_lamports_def Let_def lamports_def set_lamports_def split: option.splits)
    with assms(2) show ?thesis
      by (auto simp: lamports_def set_lamports_def word_le_nat_alt dest!: checked_sub_SomeD checked_add_SomeD)
  qed
  then show "unat (lamports s' from) + unat amount = unat (lamports s from)"
    "unat (lamports s' dest) = unat (lamports s dest) + unat amount"
    "k \<noteq> from \<Longrightarrow> k \<noteq> dest \<Longrightarrow> s' k = s k"
    "la_data (s' k) = la_data (s k)" "la_owner (s' k) = la_owner (s k)" by blast+
qed

lemma act_escrowE:
  assumes "act_escrow rt pid accounts action s = Inr s'"
  obtains actor escrow seller payee rest e tb fp it s1 where
    "accounts = actor # escrow # seller # payee # rest" "load_escrow rt pid escrow s = Inr e"
    "act_direction rt pid actor (am_key escrow) e action = Inr tb" "am_key seller = es_seller e"
    "if tb then \<exists>f. fp = Some f \<and> rest = f # it else fp = None \<and> it = rest"
    "(if is_native e then settle_native e (am_key escrow) (am_key payee) fp tb (if tb then es_fee e else 0) s
      else settle_token rt pid e (am_key escrow) (am_key seller) (am_key payee) fp tb (if tb then es_fee e else 0) it s) = Inr s1"
    "close_escrow (am_key escrow) (am_key seller) s1 = Inr s'"
proof -
  have nxt: "next_info l = Inr (x, xs) \<longleftrightarrow> l = x # xs" for l x xs by (cases l) auto
  from assms obtain actor escrow e tb seller payee rest fp it where
    acc: "accounts = actor # escrow # seller # payee # rest" and e: "load_escrow rt pid escrow s = Inr e"
    and tb: "act_direction rt pid actor (am_key escrow) e action = Inr tb"
    and fp: "(if tb then rbind (next_info rest) (\<lambda>(f, it5). Inr (Some f, it5)) else Inr (None, rest)) = Inr (fp, it)"
    and body: "(if am_key seller \<noteq> es_seller e \<or> \<not> am_writable seller \<or> \<not> am_writable payee then fail Bad_Account
     else let fee = (if tb then es_fee e else 0) in
       rbind (if is_native e then settle_native e (am_key escrow) (am_key payee) fp tb fee s
              else settle_token rt pid e (am_key escrow) (am_key seller) (am_key payee) fp tb fee it s) (\<lambda>s1.
       close_escrow (am_key escrow) (am_key seller) s1)) = Inr s'"
    unfolding act_escrow_def rbind_Inr_iff split_paired_Ex case_prod_conv nxt by blast
  have 5: "if tb then \<exists>f. fp = Some f \<and> rest = f # it else fp = None \<and> it = rest"
    using fp by (cases tb) (auto simp: nxt)
  have ok: "\<not> (am_key seller \<noteq> es_seller e \<or> \<not> am_writable seller \<or> \<not> am_writable payee)"
  proof
    assume "am_key seller \<noteq> es_seller e \<or> \<not> am_writable seller \<or> \<not> am_writable payee"
    from body [unfolded if_P [OF this]] show False by simp
  qed
  then have 4: "am_key seller = es_seller e" by blast
  from body [unfolded if_not_P [OF ok] Let_def rbind_Inr_iff] obtain s1 where
    "(if is_native e then settle_native e (am_key escrow) (am_key payee) fp tb (if tb then es_fee e else 0) s
      else settle_token rt pid e (am_key escrow) (am_key seller) (am_key payee) fp tb (if tb then es_fee e else 0) it s) = Inr s1"
    "close_escrow (am_key escrow) (am_key seller) s1 = Inr s'" by blast
  from that [OF acc e tb 4 5 this] show ?thesis .
qed

lemma move_delta:
  assumes "move_lamports from dest amount s = Inr s'" "from \<noteq> dest" "k \<noteq> from"
  shows "unat (lamports s' k) = unat (lamports s k) + (if k = dest then unat amount else 0)"
  using move_lamportsD(2) [OF assms(1,2)] move_lamportsD(3) [OF assms(1,2,3)] by (cases "k = dest") (simp_all add: lamports_def)

lemma close_delta:
  assumes "close_escrow ekey seller s = Inr s'" "ekey \<noteq> seller"
  shows "lamports s' ekey = 0" "la_data (s' ekey) = []" "la_owner (s' ekey) = SYSTEM_PROGRAM_ID"
    "k \<noteq> ekey \<Longrightarrow> unat (lamports s' k) = unat (lamports s k) + (if k = seller then unat (lamports s ekey) else 0)"
proof -
  from assms(1) obtain s1 where m: "move_lamports ekey seller (lamports s ekey) s = Inr s1"
    and s': "s' = s1(ekey := (s1 ekey)\<lparr>la_data := [], la_owner := SYSTEM_PROGRAM_ID\<rparr>)"
    by (auto simp: close_escrow_def)
  from move_lamportsD(1) [OF m assms(2)] have "lamports s1 ekey = 0" by (simp add: unat_eq_0)
  then show "lamports s' ekey = 0" by (simp add: s' lamports_def)
  show "la_data (s' ekey) = []" "la_owner (s' ekey) = SYSTEM_PROGRAM_ID" by (simp_all add: s')
  show "unat (lamports s' k) = unat (lamports s k) + (if k = seller then unat (lamports s ekey) else 0)" if "k \<noteq> ekey"
    using move_delta [OF m assms(2) that] that by (simp add: s' lamports_def)
qed

lemma settle_native_delta:
  assumes "settle_native e ekey payee fp tb (if tb then es_fee e else 0) s = Inr s1" "es_fee e \<le> es_total e"
    "ekey \<notin> {es_seller e, es_buyer e, es_fee_receiver e}" "tb \<longleftrightarrow> fp \<noteq> None"
  shows "unat (lamports s1 ekey) + unat (es_total e) = unat (lamports s ekey)"
    "k \<noteq> ekey \<Longrightarrow> unat (lamports s1 k) = unat (lamports s k) +
       (if tb then (if k = es_buyer e then unat (es_total e) - unat (es_fee e) else 0) + (if k = es_fee_receiver e then unat (es_fee e) else 0)
        else if k = es_seller e then unat (es_total e) else 0)"
proof -
  have sub: "unat (es_total e - es_fee e) = unat (es_total e) - unat (es_fee e)" "unat (es_fee e) \<le> unat (es_total e)"
    using assms(2) by (simp_all add: unat_sub word_le_nat_alt)
  have "unat (lamports s1 ekey) + unat (es_total e) = unat (lamports s ekey) \<and> (k \<noteq> ekey \<longrightarrow> unat (lamports s1 k) = unat (lamports s k) +
       (if tb then (if k = es_buyer e then unat (es_total e) - unat (es_fee e) else 0) + (if k = es_fee_receiver e then unat (es_fee e) else 0)
        else if k = es_seller e then unat (es_total e) else 0))"
  proof (cases tb)
    case False
    with assms(4) have "fp = None" by simp
    with False assms(1) have "payee = es_seller e" "move_lamports ekey payee (es_total e) s = Inr s1"
      by (auto simp: settle_native_def split: if_splits)
    with move_lamportsD(1) [of ekey payee "es_total e" s s1] move_delta [of ekey payee "es_total e" s s1 k] assms(3) False
    show ?thesis by auto
  next
    case True
    with assms(4) obtain f where f: "fp = Some f" by auto
    from True assms(1) f have pay: "payee = es_buyer e" "am_key f = es_fee_receiver e" by (auto simp: settle_native_def split: if_splits)
    have zero: "move_lamports ekey (es_fee_receiver e) 0 x = Inr x" for x by (simp add: move_lamports_def)
    from True assms(1) f obtain s0 where m: "move_lamports ekey (es_buyer e) (es_total e - es_fee e) s = Inr s0"
      and fee: "move_lamports ekey (es_fee_receiver e) (es_fee e) s0 = Inr s1"
      by (cases "es_fee e = 0") (auto simp: settle_native_def pay zero word_neq_0_conv split: if_splits)
    have ne: "ekey \<noteq> es_buyer e" "ekey \<noteq> es_fee_receiver e" using assms(3) by auto
    show ?thesis
      using move_lamportsD(1) [OF m ne(1)] move_lamportsD(1) [OF fee ne(2)] move_delta [OF m ne(1), of k]
        move_delta [OF fee ne(2), of k] sub True by simp
  qed
  then show "unat (lamports s1 ekey) + unat (es_total e) = unat (lamports s ekey)"
    "k \<noteq> ekey \<Longrightarrow> unat (lamports s1 k) = unat (lamports s k) +
       (if tb then (if k = es_buyer e then unat (es_total e) - unat (es_fee e) else 0) + (if k = es_fee_receiver e then unat (es_fee e) else 0)
        else if k = es_seller e then unat (es_total e) else 0)" by blast+
qed

lemma native_settlement:
  assumes "act_escrow rt pid (actor # esc # rest) action s = Inr s'" "load_escrow rt pid esc s = Inr e" "is_native e"
    "es_fee e \<le> es_total e" "am_key esc \<notin> {es_seller e, es_buyer e, es_fee_receiver e}"
  shows "\<exists>tb. act_direction rt pid actor (am_key esc) e action = Inr tb \<and>
    lamports s' (am_key esc) = 0 \<and> la_data (s' (am_key esc)) = [] \<and> la_owner (s' (am_key esc)) = SYSTEM_PROGRAM_ID \<and>
    (\<forall>k. k \<noteq> am_key esc \<longrightarrow> unat (lamports s' k) = unat (lamports s k) +
       (if tb then (if k = es_buyer e then unat (es_total e) - unat (es_fee e) else 0) + (if k = es_fee_receiver e then unat (es_fee e) else 0)
        else if k = es_seller e then unat (es_total e) else 0) +
       (if k = es_seller e then unat (lamports s (am_key esc)) - unat (es_total e) else 0))"
proof -
  from assms(1) obtain tb fp payee s1 where tb: "act_direction rt pid actor (am_key esc) e action = Inr tb"
    and fp: "tb \<longleftrightarrow> fp \<noteq> None" and set: "settle_native e (am_key esc) payee fp tb (if tb then es_fee e else 0) s = Inr s1"
    and close: "close_escrow (am_key esc) (es_seller e) s1 = Inr s'"
  proof (rule act_escrowE)
    fix actor' escrow seller payee rest' e' tb fp it s1
    assume a: "actor # esc # rest = actor' # escrow # seller # payee # rest'" "load_escrow rt pid escrow s = Inr e'"
      "act_direction rt pid actor' (am_key escrow) e' action = Inr tb" "am_key seller = es_seller e'"
      "if tb then \<exists>f. fp = Some f \<and> rest' = f # it else fp = None \<and> it = rest'"
      "(if is_native e' then settle_native e' (am_key escrow) (am_key payee) fp tb (if tb then es_fee e' else 0) s
        else settle_token rt pid e' (am_key escrow) (am_key seller) (am_key payee) fp tb (if tb then es_fee e' else 0) it s) = Inr s1"
      "close_escrow (am_key escrow) (am_key seller) s1 = Inr s'"
    then have "escrow = esc" "actor' = actor" by simp_all
    moreover from this a(2) assms(2) have "e' = e" by simp
    ultimately have e: "e' = e" "escrow = esc" "actor' = actor" by blast+
    have 1: "act_direction rt pid actor (am_key esc) e action = Inr tb" using a(3) unfolding e .
    have 2: "tb \<longleftrightarrow> fp \<noteq> None" using a(5) by (cases tb) auto
    have 3: "settle_native e (am_key esc) (am_key payee) fp tb (if tb then es_fee e else 0) s = Inr s1"
      using a(6) unfolding e if_P [OF assms(3)] .
    have 4: "close_escrow (am_key esc) (es_seller e) s1 = Inr s'" using a(7) unfolding a(4) e .
    show thesis by (rule that [OF 1 2 3 4])
  qed
  have ne: "am_key esc \<noteq> es_seller e" using assms(5) by simp
  note d = settle_native_delta [OF set assms(4,5) fp]
  show ?thesis
    using tb close_delta [OF close ne] d by auto
qed

text \<open>
  C5. A settlement pays exactly what the escrow says: the buyer gets the total less the fee and
  the fee receiver the fee, or the seller the total; what else the account held goes to the
  seller, the escrow account is emptied and closed, and nobody else's balance changes.
\<close>

theorem settlement_exact:
  assumes "act_escrow rt pid (actor # esc # rest) action s = Inr s'" "load_escrow rt pid esc s = Inr e" "is_native e"
    "es_fee e \<le> es_total e" "am_key esc \<notin> {es_seller e, es_buyer e, es_fee_receiver e}"
  shows "\<exists>tb. act_direction rt pid actor (am_key esc) e action = Inr tb \<and>
    lamports s' (am_key esc) = 0 \<and> la_data (s' (am_key esc)) = [] \<and> la_owner (s' (am_key esc)) = SYSTEM_PROGRAM_ID \<and>
    (\<forall>k. k \<noteq> am_key esc \<longrightarrow> unat (lamports s' k) = unat (lamports s k) +
       (if tb then (if k = es_buyer e then unat (es_total e) - unat (es_fee e) else 0) + (if k = es_fee_receiver e then unat (es_fee e) else 0)
        else if k = es_seller e then unat (es_total e) else 0) +
       (if k = es_seller e then unat (lamports s (am_key esc)) - unat (es_total e) else 0))"
  by (rule native_settlement [OF assms])

lemma act_directionD:
  assumes "act_direction rt pid actor ekey e action = Inr tb"
  shows "if tb then am_signer actor \<and> (action = Release \<and> am_key actor = es_seller e \<or> action = Resolve True \<and> am_key actor = es_arbiter e)
    else am_signer actor \<and> (action = Cancel \<and> am_key actor = es_buyer e \<or> action = Resolve False \<and> am_key actor = es_arbiter e \<or>
           action = Reclaim \<and> am_key actor = es_seller e \<and> \<not> es_frozen e \<and> (\<exists>now. rt_now rt = Inr now \<and> es_fallback_at e \<le> now)) \<or>
         action = Cancel_For \<and> require_signed_by rt pid actor ekey (es_buyer e) ACTION_CANCEL = Inr ()"
  using assms by (cases action) (auto simp: act_direction_def Let_def split: if_splits)


text \<open>
  C9. An escrow is settled once: after a settlement every further action on the account, and
  every freeze, is refused as an unknown escrow, whoever signs it.
\<close>

theorem settled_once:
  assumes "act_escrow rt pid (actor # esc # rest) action s = Inr s'" "pid \<noteq> SYSTEM_PROGRAM_ID" "am_key esc' = am_key esc"
  shows "act_escrow rt' pid (actor' # esc' # rest') action' s' = fail Unknown_Escrow \<and>
    freeze rt' pid (actor' # esc' # rest') b s' = fail Unknown_Escrow"
proof -
  have "la_owner (s' (am_key esc)) = SYSTEM_PROGRAM_ID"
    using assms(1) by (rule act_escrowE) (auto simp: close_escrow_def)
  then have "load_escrow rt' pid esc' s' = fail Unknown_Escrow" using assms(2,3) by (simp add: load_escrow_def)
  then show ?thesis by (simp add: act_escrow_def freeze_def)
qed

subsection \<open>Opening and freezing\<close>

lemma rd_take_length: "rd_take n r = Inr (b, r') \<Longrightarrow> length b = n"
  by (auto simp: rd_take_def split: if_splits)

lemma sint_i64: "i64_min \<le> sint (x :: u64)" "sint (x :: u64) \<le> i64_max"
  using sint_greater_eq [of x] sint_less [of x] by (simp_all add: i64_min_def i64_max_def)

lemma read_open_args_ok:
  assumes "read_open_args r = Inr a"
  shows "length (oa_trade_id a) = 32" "length (oa_buyer a) = 32" "length (oa_arbiter a) = 32"
    "length (oa_fee_receiver a) = 32" "length (oa_mint a) = 32"
  using assms by (auto simp: read_open_args_def dest!: rd_take_length)

lemma check_termsD:
  assumes "check_terms seller a = Inr ()"
  shows "oa_buyer a \<noteq> seller" "oa_arbiter a \<noteq> seller" "oa_arbiter a \<noteq> oa_buyer a" "0 < oa_total a"
    "10 * unat (oa_fee a) \<le> unat (oa_total a)" "MIN_FALLBACK \<le> oa_fallback_delay a" "oa_fallback_delay a \<le> MAX_FALLBACK"
  using assms by (auto simp: check_terms_def MAX_FEE_BPS_def word_neq_0_conv split: if_splits)

lemma fund_escrowD:
  assumes "fund_escrow rt pid it seller ekey system a s = Inr s'"
  shows "\<exists>bump vb s2. record_escrow rt a seller ekey bump vb s2 = Inr s'"
proof -
  obtain key bump where f: "rt_find_address rt [ESCROW_SEED, oa_trade_id a, seller] pid = (key, bump)" by force
  with assms show ?thesis by (auto simp: fund_escrow_def Let_def split: if_splits option.splits) blast+
qed

lemma open_escrowE:
  assumes "open_escrow rt pid (seller # esc # it) r s = Inr s'"
  obtains a bump vb s2 where "read_open_args r = Inr a" "am_signer seller" "check_terms (am_key seller) a = Inr ()"
    "record_escrow rt a (am_key seller) (am_key esc) bump vb s2 = Inr s'"
proof -
  from assms obtain a sys it3 where a: "read_open_args r = Inr a" "am_signer seller" "check_terms (am_key seller) a = Inr ()"
    "fund_escrow rt pid it3 (am_key seller) (am_key esc) sys a s = Inr s'"
    unfolding open_escrow_def by (auto split: if_splits)
  from fund_escrowD [OF a(4)] that [OF a(1-3)] show ?thesis by blast
qed

text \<open>
  C27. Every opened escrow is on fair terms: the seller signed, the record stored reads back as an
  unfrozen, funded escrow of a positive amount with three different parties, a fee of at most a
  tenth, and a fallback between 30 and 365 days away.
\<close>

theorem open_escrow_terms:
  assumes "open_escrow rt pid (seller # esc # it) r s = Inr s'" "length (am_key seller) = 32"
    "rt_now rt = Inr now" "i64_min \<le> now" "now \<le> i64_max"
  shows "\<exists>e. take ESCROW_LEN (la_data (s' (am_key esc))) = pack_bytes e \<and> unpack (pack_bytes e) = Inr e \<and>
    am_signer seller \<and> es_seller e = am_key seller \<and> es_state e = STATE_FUNDED \<and> \<not> es_frozen e \<and> 0 < es_total e \<and>
    10 * unat (es_fee e) \<le> unat (es_total e) \<and> distinct [es_seller e, es_buyer e, es_arbiter e] \<and>
    now + 30 * 86400 \<le> es_fallback_at e \<and> es_fallback_at e \<le> now + 365 * 86400"
  using assms(1)
proof (rule open_escrowE)
  fix a :: open_args and bump vb s2
  assume a: "read_open_args r = Inr a" and signed: "am_signer seller" and terms: "check_terms (am_key seller) a = Inr ()"
    and rec: "record_escrow rt a (am_key seller) (am_key esc) bump vb s2 = Inr s'"
  define e where "e fb = \<lparr>es_state = STATE_FUNDED, es_frozen = False, es_bump = bump, es_vault_bump = vb,
        es_trade_id = oa_trade_id a, es_seller = am_key seller, es_buyer = oa_buyer a,
        es_arbiter = oa_arbiter a, es_fee_receiver = oa_fee_receiver a, es_mint = oa_mint a,
        es_total = oa_total a, es_fee = oa_fee a, es_opened_at = now, es_fallback_at = fb\<rparr>" for fb
  from rec assms(3) obtain fb d where fb: "i64_checked_add now (oa_fallback_delay a) = Some fb"
    and d: "pack (e fb) (la_data (s2 (am_key esc))) = Inr d" and s': "s' = set_data (am_key esc) d s2"
    by (auto simp: record_escrow_def e_def split: option.splits)
  have f: "fb = now + oa_fallback_delay a" "i64_min \<le> fb" "fb \<le> i64_max"
    using fb by (auto simp: i64_checked_add_def split: if_splits)
  have ok: "escrow_ok (e fb)" using read_open_args_ok [OF a] assms(2,4,5) f by (simp add: escrow_ok_def e_def)
  have st: "take ESCROW_LEN (la_data (s' (am_key esc))) = pack_bytes (e fb)"
    using d length_pack_bytes [OF ok] by (auto simp: s' set_data_def pack_def split: if_splits)
  show ?thesis
    using st unpack_pack [OF ok] check_termsD [OF terms] signed f
    by (intro exI [of _ "e fb"]) (auto simp: e_def MIN_FALLBACK_def MAX_FALLBACK_def)
qed

lemma unpack_ok: "unpack d = Inr e \<Longrightarrow> escrow_ok e \<and> length d = ESCROW_LEN"
  by (auto simp: unpack_def escrow_ok_def bytes_at_def ESCROW_LEN_def sint_i64 split: if_splits)

lemma freezeE:
  assumes "freeze rt pid (actor # esc # rest) b s = Inr s'"
  obtains e where "load_escrow rt pid esc s = Inr e" "\<not> es_frozen e"
    "s' = set_data (am_key esc) (pack_bytes (e\<lparr>es_frozen := True\<rparr>)) s"
    "if b then require_signed_by rt pid actor (am_key esc) (es_buyer e) ACTION_FREEZE = Inr ()
     else am_signer actor \<and> am_key actor \<in> {es_buyer e, es_arbiter e}"
proof -
  from assms obtain e d where e: "load_escrow rt pid esc s = Inr e"
    and g: "(if b then require_signed_by rt pid actor (am_key esc) (es_buyer e) ACTION_FREEZE
            else if \<not> am_signer actor \<or> am_key actor \<noteq> es_buyer e \<and> am_key actor \<noteq> es_arbiter e then fail Not_Allowed
            else Inr ()) = Inr ()"
    and nf: "\<not> es_frozen e" and d: "pack (e\<lparr>es_frozen := True\<rparr>) (la_data (s (am_key esc))) = Inr d"
    and s': "s' = set_data (am_key esc) d s"
    by (auto simp: freeze_def split: if_splits)
  from e obtain "unpack (la_data (s (am_key esc))) = Inr e"
    by (auto simp: load_escrow_def split: if_splits option.splits)
  from unpack_ok [OF this] d have "d = pack_bytes (e\<lparr>es_frozen := True\<rparr>)"
    by (auto simp: pack_def split: if_splits)
  with that e nf s' g show ?thesis by (auto split: if_splits)
qed


subsection \<open>Conservation\<close>

datatype native_op = Native_Act "account_meta list" act | Native_Freeze "account_meta list" bool

fun native_call :: "runtime \<Rightarrow> pubkey \<Rightarrow> native_op \<Rightarrow> ledger \<Rightarrow> program_error + ledger" where
  "native_call rt pid (Native_Act accounts action) s = act_escrow rt pid accounts action s"
| "native_call rt pid (Native_Freeze accounts b) s = freeze rt pid accounts b s"

text \<open>The runtime keeps the ledger as it was when a call fails.\<close>

definition native_step :: "runtime \<Rightarrow> pubkey \<Rightarrow> native_op \<Rightarrow> ledger \<Rightarrow> ledger" where
  "native_step rt pid x s = (case native_call rt pid x s of Inl _ \<Rightarrow> s | Inr s' \<Rightarrow> s')"

definition funded_keys :: "ledger \<Rightarrow> pubkey set" where
  "funded_keys s = {k. lamports s k \<noteq> 0}"

definition ledger_worth :: "ledger \<Rightarrow> nat" where
  "ledger_worth s = (\<Sum>k \<in> funded_keys s. unat (lamports s k))"

definition native_ledger :: "pubkey \<Rightarrow> ledger \<Rightarrow> bool" where
  "native_ledger pid s \<longleftrightarrow> finite (funded_keys s) \<and>
     (\<forall>k e. la_owner (s k) = pid \<longrightarrow> unpack (la_data (s k)) = Inr e \<longrightarrow> is_native e)"

lemma ledger_worth_on:
  assumes "finite K" "funded_keys s \<subseteq> K"
  shows "ledger_worth s = (\<Sum>k \<in> K. unat (lamports s k))"
  unfolding ledger_worth_def by (rule sum.mono_neutral_left) (use assms in \<open>auto simp: funded_keys_def\<close>)

lemma move_worth:
  assumes m: "move_lamports src dest amount s = Inr s'" and fin: "finite (funded_keys s)"
  shows "finite (funded_keys s') \<and> ledger_worth s' = ledger_worth s"
proof (cases "src = dest")
  case True
  with m fin show ?thesis by (simp add: move_lamports_def)
next
  case False
  let ?K = "insert src (insert dest (funded_keys s))"
  have K: "finite ?K" "funded_keys s \<subseteq> ?K" using fin by auto
  have sub: "funded_keys s' \<subseteq> ?K"
    using move_lamportsD(3) [OF m False] by (auto simp: funded_keys_def lamports_def)
  then have "finite (funded_keys s')" using K(1) by (rule finite_subset)
  let ?R = "?K - {src} - {dest}"
  have split: "sum f ?K = f src + f dest + sum f ?R" for f :: "pubkey \<Rightarrow> nat"
  proof -
    have "sum f ?K = f src + sum f (?K - {src})" using K(1) by (intro sum.remove) auto
    moreover have "sum f (?K - {src}) = f dest + sum f ?R" using K(1) False by (intro sum.remove) auto
    ultimately show ?thesis by simp
  qed
  have "(\<Sum>k \<in> ?R. unat (lamports s' k)) = (\<Sum>k \<in> ?R. unat (lamports s k))"
    using move_lamportsD(3) [OF m False] by (intro sum.cong) (auto simp: lamports_def)
  then have "(\<Sum>k \<in> ?K. unat (lamports s' k)) = (\<Sum>k \<in> ?K. unat (lamports s k))"
    unfolding split using move_lamportsD(1,2) [OF m False] by simp
  with \<open>finite (funded_keys s')\<close> show ?thesis using ledger_worth_on [OF K(1) sub] ledger_worth_on [OF K] by simp
qed

lemma move_frame:
  assumes "move_lamports src dest amount s = Inr s'"
  shows "la_data (s' k) = la_data (s k) \<and> la_owner (s' k) = la_owner (s k)"
  using assms move_lamportsD(4,5) [OF assms] by (cases "src = dest") (auto simp: move_lamports_def)

text \<open>What a native settlement keeps: the sum of the balances, and the data of the accounts.\<close>

definition same_books :: "ledger \<Rightarrow> ledger \<Rightarrow> bool" where
  "same_books s s' \<longleftrightarrow> (finite (funded_keys s) \<longrightarrow> finite (funded_keys s') \<and> ledger_worth s' = ledger_worth s) \<and>
     (\<forall>k. la_data (s' k) = la_data (s k) \<and> la_owner (s' k) = la_owner (s k))"

lemma same_books_move: "move_lamports from dest amount s = Inr s' \<Longrightarrow> same_books s s'"
  using move_worth move_frame by (simp add: same_books_def)

lemma same_books_trans: "same_books s s1 \<Longrightarrow> same_books s1 s2 \<Longrightarrow> same_books s s2"
  by (simp add: same_books_def)

lemma same_books_refl: "same_books s s"
  by (simp add: same_books_def)

lemma settle_native_books:
  assumes "settle_native e ekey payee fp tb fee s = Inr s1"
  shows "same_books s s1"
proof -
  from assms obtain s0 where m: "move_lamports ekey payee (es_total e - fee) s = Inr s0"
    and r: "(case fp of Some f \<Rightarrow> if 0 < fee then move_lamports ekey (am_key f) fee s0 else Inr s0 | None \<Rightarrow> Inr s0) = Inr s1"
    unfolding settle_native_def by (auto split: if_splits)
  from r have "same_books s0 s1"
    by (auto intro: same_books_move same_books_refl split: option.splits if_splits)
  with same_books_move [OF m] show ?thesis by (rule same_books_trans)
qed

lemma update_books:
  assumes "\<And>k. lamports s' k = lamports s k"
  shows "funded_keys s' = funded_keys s" "ledger_worth s' = ledger_worth s"
  using assms by (simp_all add: funded_keys_def ledger_worth_def)

lemma loaded: "load_escrow rt pid info s = Inr e \<Longrightarrow> la_owner (s (am_key info)) = pid \<and> unpack (la_data (s (am_key info))) = Inr e"
  by (auto simp: load_escrow_def split: if_splits option.splits)

lemma native_act_law:
  assumes "native_ledger pid s" "act_escrow rt pid accounts action s = Inr s'" "pid \<noteq> SYSTEM_PROGRAM_ID"
  shows "native_ledger pid s' \<and> ledger_worth s' = ledger_worth s"
  using assms(2)
proof (rule act_escrowE)
  fix actor escrow seller payee rest e tb fp it s1
  assume l: "load_escrow rt pid escrow s = Inr e"
    and set: "(if is_native e then settle_native e (am_key escrow) (am_key payee) fp tb (if tb then es_fee e else 0) s
      else settle_token rt pid e (am_key escrow) (am_key seller) (am_key payee) fp tb (if tb then es_fee e else 0) it s) = Inr s1"
    and close: "close_escrow (am_key escrow) (am_key seller) s1 = Inr s'"
  have nat: "is_native e" using loaded [OF l] assms(1) by (auto simp: native_ledger_def)
  from settle_native_books [OF set [unfolded if_P [OF nat]]] have b1: "same_books s s1" .
  from close obtain s2 where m: "move_lamports (am_key escrow) (am_key seller) (lamports s1 (am_key escrow)) s1 = Inr s2"
    and s': "s' = s2(am_key escrow := (s2 (am_key escrow))\<lparr>la_data := [], la_owner := SYSTEM_PROGRAM_ID\<rparr>)"
    by (auto simp: close_escrow_def)
  have b: "same_books s s2" by (rule same_books_trans [OF b1 same_books_move [OF m]])
  have u: "funded_keys s' = funded_keys s2" "ledger_worth s' = ledger_worth s2"
    by (rule update_books, simp add: s' lamports_def)+
  have "is_native e'" if "la_owner (s' k) = pid" "unpack (la_data (s' k)) = Inr e'" for k e'
  proof (cases "k = am_key escrow")
    case True
    with that(1) assms(3) show ?thesis by (simp add: s')
  next
    case False
    then have "la_owner (s k) = pid" "unpack (la_data (s k)) = Inr e'" using that b by (simp_all add: s' same_books_def)
    with assms(1) show ?thesis by (auto simp: native_ledger_def)
  qed
  with b u assms(1) show ?thesis by (auto simp: native_ledger_def same_books_def)
qed

lemma native_freeze_law:
  assumes "native_ledger pid s" "freeze rt pid accounts b s = Inr s'"
  shows "native_ledger pid s' \<and> ledger_worth s' = ledger_worth s"
proof -
  obtain actor esc rest where acc: "accounts = actor # esc # rest"
    using assms(2) by (cases accounts; cases "tl accounts") (auto simp: freeze_def)
  from assms(2) [unfolded acc] show ?thesis
  proof (rule freezeE)
    fix e assume l: "load_escrow rt pid esc s = Inr e"
      and s': "s' = set_data (am_key esc) (pack_bytes (e\<lparr>es_frozen := True\<rparr>)) s"
    have n: "is_native e" and ok: "escrow_ok (e\<lparr>es_frozen := True\<rparr>)"
      using loaded [OF l] assms(1) unpack_ok [of _ e] by (auto simp: native_ledger_def escrow_ok_def)
    have u: "funded_keys s' = funded_keys s" "ledger_worth s' = ledger_worth s"
      by (rule update_books, simp add: s' set_data_def lamports_def)+
    have "is_native e'" if "la_owner (s' k) = pid" "unpack (la_data (s' k)) = Inr e'" for k e'
    proof (cases "k = am_key esc")
      case True
      with that(2) have "e' = e\<lparr>es_frozen := True\<rparr>" by (simp add: s' set_data_def unpack_pack [OF ok])
      with n show ?thesis by (simp add: is_native_def)
    next
      case False
      then have "la_owner (s k) = pid" "unpack (la_data (s k)) = Inr e'" using that by (simp_all add: s' set_data_def)
      with assms(1) show ?thesis by (auto simp: native_ledger_def)
    qed
    with u assms(1) show ?thesis by (auto simp: native_ledger_def)
  qed
qed

lemma native_step_law:
  assumes "pid \<noteq> SYSTEM_PROGRAM_ID" "native_ledger pid s"
  shows "native_ledger pid (native_step rt pid x s) \<and> ledger_worth (native_step rt pid x s) = ledger_worth s"
  using assms native_act_law [OF assms(2)] native_freeze_law [OF assms(2)]
  by (cases x) (auto simp: native_step_def split: sum.splits)

interpretation escrows: accounting "native_step rt pid" ledger_worth "\<lambda>_ _. 0" "\<lambda>_ _. 0"
    "\<lambda>s. pid \<noteq> SYSTEM_PROGRAM_ID \<and> native_ledger pid s" "2 ^ 64"
  for rt pid
  by unfold_locales (simp_all add: native_step_law)

text \<open>
  C19. Settling and freezing native escrows neither creates nor destroys lamports: over any
  sequence of calls, with whatever accounts and signers, the sum of all balances stays the same.
\<close>

theorem escrow_lamports_conserved:
  assumes "pid \<noteq> SYSTEM_PROGRAM_ID" "native_ledger pid s" "ledger_worth s < 2 ^ 64"
  shows "ledger_worth (runs (native_step rt pid) xs s) = ledger_worth s"
proof -
  have z: "flow_sum (native_step rt pid) (\<lambda>_ _. 0) ys u = 0" for ys u by (induction ys arbitrary: u) auto
  show ?thesis using escrows.runs_conserve [of pid s rt xs] assms by (simp add: z)
qed

subsection \<open>A concrete escrow\<close>

definition demo_key :: "u8 \<Rightarrow> pubkey" where "demo_key n = replicate 32 n"

definition demo_meta :: "u8 \<Rightarrow> account_meta" where
  "demo_meta n = \<lparr>am_key = demo_key n, am_signer = True, am_writable = True\<rparr>"

text \<open>Program 9, escrow account 1, seller 2, buyer 3, arbiter 4, fee receiver 5.\<close>

definition demo_runtime :: runtime where
  "demo_runtime = \<lparr>rt_find_address = (\<lambda>_ _. (demo_key 1, 7)), rt_create_address = (\<lambda>_ _. Some (demo_key 1)),
     rt_rent = Inr (\<lambda>_. 10), rt_now = Inr 1000,
     rt_invoke = (\<lambda>_ _ _ s. Inr (s(demo_key 1 := \<lparr>la_lamports = 110, la_owner = demo_key 9, la_data = replicate 232 0\<rparr>))),
     rt_current_index = Inr 0, rt_instruction_at = (\<lambda>_. Inl (Runtime_Error 0))\<rparr>"

definition demo_escrow :: escrow where
  "demo_escrow = \<lparr>es_state = STATE_FUNDED, es_frozen = False, es_bump = 7, es_vault_bump = 0, es_trade_id = demo_key 8,
     es_seller = demo_key 2, es_buyer = demo_key 3, es_arbiter = demo_key 4, es_fee_receiver = demo_key 5, es_mint = NO_KEY,
     es_total = 100, es_fee = 5, es_opened_at = 0, es_fallback_at = 3000\<rparr>"

definition demo_ledger :: ledger where
  "demo_ledger = (\<lambda>k. if k = demo_key 1 then \<lparr>la_lamports = 110, la_owner = demo_key 9, la_data = pack_bytes demo_escrow\<rparr>
     else \<lparr>la_lamports = (if k = demo_key 2 then 50 else 0), la_owner = SYSTEM_PROGRAM_ID, la_data = []\<rparr>)"

lemma demo_key_eq [simp]: "demo_key a = demo_key b \<longleftrightarrow> a = b"
proof -
  have "hd (demo_key n) = n" for n by (simp add: demo_key_def)
  then show ?thesis by metis
qed

lemma demo_key_zero [simp]: "demo_key a = NO_KEY \<longleftrightarrow> a = 0" "demo_key a = SYSTEM_PROGRAM_ID \<longleftrightarrow> a = 0"
  using demo_key_eq [of a 0] by (simp_all add: NO_KEY_def SYSTEM_PROGRAM_ID_def demo_key_def)

lemma demo_escrow_ok: "escrow_ok demo_escrow"
  by (simp add: escrow_ok_def demo_escrow_def demo_key_def NO_KEY_def i64_min_def i64_max_def)

lemma demo_loads: "load_escrow demo_runtime (demo_key 9) (demo_meta 1) demo_ledger = Inr demo_escrow"
  by (simp add: load_escrow_def demo_ledger_def demo_meta_def demo_runtime_def unpack_pack [OF demo_escrow_ok])
    (simp add: demo_escrow_def)

definition demo_release :: "program_error + ledger" where
  "demo_release = act_escrow demo_runtime (demo_key 9)
     [demo_meta 2, demo_meta 1, demo_meta 2, demo_meta 3, demo_meta 5] Release demo_ledger"

lemma demo_release_ok: "\<exists>s. demo_release = Inr s"
  by (simp add: demo_release_def act_escrow_def demo_loads act_direction_def Let_def)
    (simp add: demo_escrow_def demo_meta_def is_native_def settle_native_def move_lamports_def close_escrow_def
      lamports_def set_lamports_def demo_ledger_def checked_sub_def checked_add_def Let_def, blast)

theorem settlement_exact_witness:
  "\<exists>s'. demo_release = Inr s' \<and> unat (lamports s' (demo_key 3)) = 95 \<and> unat (lamports s' (demo_key 5)) = 5 \<and>
     unat (lamports s' (demo_key 2)) = 60 \<and> lamports s' (demo_key 1) = 0"
proof -
  obtain s' where s': "demo_release = Inr s'" using demo_release_ok by blast
  have "is_native demo_escrow" "es_fee demo_escrow \<le> es_total demo_escrow"
    "am_key (demo_meta 1) \<notin> {es_seller demo_escrow, es_buyer demo_escrow, es_fee_receiver demo_escrow}"
    by (simp_all add: demo_escrow_def demo_meta_def is_native_def)
  from settlement_exact [OF s' [unfolded demo_release_def] demo_loads this]
  obtain tb where tb: "act_direction demo_runtime (demo_key 9) (demo_meta 2) (am_key (demo_meta 1)) demo_escrow Release = Inr tb"
    and z: "lamports s' (am_key (demo_meta 1)) = 0"
    and d: "\<And>k. k \<noteq> am_key (demo_meta 1) \<Longrightarrow> unat (lamports s' k) = unat (lamports demo_ledger k) +
       (if tb then (if k = es_buyer demo_escrow then unat (es_total demo_escrow) - unat (es_fee demo_escrow) else 0) +
          (if k = es_fee_receiver demo_escrow then unat (es_fee demo_escrow) else 0)
        else if k = es_seller demo_escrow then unat (es_total demo_escrow) else 0) +
       (if k = es_seller demo_escrow then unat (lamports demo_ledger (am_key (demo_meta 1))) - unat (es_total demo_escrow) else 0)"
    by blast
  have "tb" using tb by (simp add: act_direction_def Let_def demo_escrow_def demo_meta_def)
  with s' z d [of "demo_key 2"] d [of "demo_key 3"] d [of "demo_key 5"] show ?thesis
    by (intro exI [of _ s']) (simp add: demo_meta_def demo_escrow_def demo_ledger_def lamports_def)
qed


theorem settled_once_witness:
  "\<exists>s'. demo_release = Inr s' \<and>
     act_escrow demo_runtime (demo_key 9) [demo_meta 4, demo_meta 1, demo_meta 2, demo_meta 2] (Resolve False) s' = fail Unknown_Escrow"
proof -
  obtain s' where s': "demo_release = Inr s'" using demo_release_ok by blast
  have "demo_key 9 \<noteq> SYSTEM_PROGRAM_ID" by simp
  from settled_once [OF s' [unfolded demo_release_def] this refl] s' show ?thesis by blast
qed

definition demo_open_data :: bytes where
  "demo_open_data = demo_key 8 @ demo_key 3 @ demo_key 4 @ demo_key 5 @ NO_KEY @ le64 100 @ le64 5 @ le64 3000000"

lemma demo_open_ok:
  "\<exists>s'. open_escrow demo_runtime (demo_key 9) [demo_meta 2, demo_meta 1, demo_meta 0] demo_open_data
     (\<lambda>k. \<lparr>la_lamports = 0, la_owner = SYSTEM_PROGRAM_ID, la_data = []\<rparr>) = Inr s'"
proof -
  have r: "read_open_args demo_open_data = Inr \<lparr>oa_trade_id = demo_key 8, oa_buyer = demo_key 3, oa_arbiter = demo_key 4,
      oa_fee_receiver = demo_key 5, oa_mint = NO_KEY, oa_total = 100, oa_fee = 5, oa_fallback_delay = 3000000\<rparr>"
    by (simp add: read_open_args_def demo_open_data_def rd_take_def rd_u64_def rd_done_def demo_key_def NO_KEY_def)
  show ?thesis
    by (simp add: open_escrow_def r demo_meta_def check_terms_def MAX_FEE_BPS_def MIN_FALLBACK_def MAX_FALLBACK_def
        fund_escrow_def demo_runtime_def checked_add_def create_pda_def lamports_def record_escrow_def i64_checked_add_def
        i64_min_def i64_max_def pack_def ESCROW_LEN_def Let_def)
qed

theorem open_escrow_terms_witness:
  "\<exists>s' e. open_escrow demo_runtime (demo_key 9) [demo_meta 2, demo_meta 1, demo_meta 0] demo_open_data
     (\<lambda>k. \<lparr>la_lamports = 0, la_owner = SYSTEM_PROGRAM_ID, la_data = []\<rparr>) = Inr s' \<and>
     take ESCROW_LEN (la_data (s' (demo_key 1))) = pack_bytes e \<and> unpack (pack_bytes e) = Inr e \<and> 10 * unat (es_fee e) \<le> unat (es_total e)"
proof -
  obtain s' where s': "open_escrow demo_runtime (demo_key 9) [demo_meta 2, demo_meta 1, demo_meta 0] demo_open_data
     (\<lambda>k. \<lparr>la_lamports = 0, la_owner = SYSTEM_PROGRAM_ID, la_data = []\<rparr>) = Inr s'" using demo_open_ok by blast
  have "length (am_key (demo_meta 2)) = 32" "rt_now demo_runtime = Inr 1000" "i64_min \<le> 1000" "1000 \<le> i64_max"
    by (simp_all add: demo_meta_def demo_key_def demo_runtime_def i64_min_def i64_max_def)
  from open_escrow_terms [OF s' this] s' show ?thesis by (auto simp: demo_meta_def)
qed


theorem escrow_lamports_conserved_witness:
  "ledger_worth (runs (native_step demo_runtime (demo_key 9))
     [Native_Freeze [demo_meta 3, demo_meta 1] False,
      Native_Act [demo_meta 2, demo_meta 1, demo_meta 2, demo_meta 3, demo_meta 5] Release] demo_ledger) = 160"
proof -
  have f: "funded_keys demo_ledger = {demo_key 1, demo_key 2}"
    by (auto simp: funded_keys_def lamports_def demo_ledger_def)
  then have w: "ledger_worth demo_ledger = 160"
    by (simp add: ledger_worth_def lamports_def demo_ledger_def)
  have "is_native e" if "la_owner (demo_ledger k) = demo_key 9" "unpack (la_data (demo_ledger k)) = Inr e" for k e
  proof -
    have "k = demo_key 1" using that(1) demo_key_zero(2) [of 9, symmetric] by (auto simp: demo_ledger_def dest: sym split: if_splits)
    with that(2) have "e = demo_escrow" by (simp add: demo_ledger_def unpack_pack [OF demo_escrow_ok])
    then show ?thesis by (simp add: demo_escrow_def is_native_def)
  qed
  then have "native_ledger (demo_key 9) demo_ledger" using f by (auto simp: native_ledger_def)
  with w escrow_lamports_conserved [of "demo_key 9" demo_ledger demo_runtime] show ?thesis
    by (simp del: runs.simps)
qed

end
