(* ===== verification/Sparse_Merkle.thy ===== *)
theory Sparse_Merkle
  imports Ego_Types
begin

section \<open>The sparse Merkle trie\<close>

text \<open>
  \<^verbatim>\<open>crates/ego-core/src/sparse_merkle.rs\<close>: a trie over keys of 32 bytes, one leaf for every key, 256
  levels deep. The leaves are a hash map, here an association list with distinct keys in some
  order of iteration. Shown are completeness and soundness of proofs of presence and absence,
  and that the root depends on the content and on nothing else.
\<close>

unbundle bit_operations_syntax

subsection \<open>Hashes\<close>

definition TAG_EMPTY :: bytes where "TAG_EMPTY = ascii ''ego/smt/empty/v1''"
definition TAG_NODE :: bytes where "TAG_NODE = ascii ''ego/smt/node/v1''"
definition TAG_LEAF :: bytes where "TAG_LEAF = ascii ''ego/smt/leaf/v1''"

definition empty_leaf_hash :: "crypto \<Rightarrow> hash" where
  "empty_leaf_hash cr = hash_data cr TAG_EMPTY"

definition node_hash :: "crypto \<Rightarrow> hash \<Rightarrow> hash \<Rightarrow> hash" where
  "node_hash cr l r = hash_multiple cr [TAG_NODE, l, r]"

definition leaf_hash :: "crypto \<Rightarrow> bytes \<Rightarrow> bytes \<Rightarrow> hash" where
  "leaf_hash cr key v = hash_multiple cr [TAG_LEAF, key, v]"

text \<open>Entry \<open>i\<close> of the table of 257 hashes of empty subtrees.\<close>

primrec empty_tower :: "crypto \<Rightarrow> nat \<Rightarrow> hash" where
  "empty_tower cr 0 = empty_leaf_hash cr"
| "empty_tower cr (Suc i) = node_hash cr (empty_tower cr i) (empty_tower cr i)"

definition bit_at :: "bytes \<Rightarrow> nat \<Rightarrow> u8" where
  "bit_at key depth = drop_bit (7 - depth mod 8) (key ! (depth div 8)) AND 1"

subsection \<open>The trie\<close>

type_synonym trie = "(bytes \<times> bytes) list"

definition smt_new :: trie where "smt_new = []"

definition smt_get :: "trie \<Rightarrow> bytes \<Rightarrow> bytes option" where
  "smt_get t key = map_of t key"

definition smt_insert :: "bytes \<Rightarrow> bytes \<Rightarrow> trie \<Rightarrow> trie" where
  "smt_insert key v t = AList.update key v t"

definition smt_delete :: "bytes \<Rightarrow> trie \<Rightarrow> trie" where
  "smt_delete key t = AList.delete key t"

definition DEPTH :: nat where "DEPTH = 256"

text \<open>
  The hash of the subtree of height \<open>n\<close>, whose depth is \<open>DEPTH - n\<close>. At depth \<open>DEPTH\<close> the code
  takes the first entry of the map.
\<close>

fun subtree_hash :: "crypto \<Rightarrow> nat \<Rightarrow> trie \<Rightarrow> hash" where
  "subtree_hash cr n [] = empty_tower cr n"
| "subtree_hash cr 0 (e # t) = leaf_hash cr (fst e) (snd e)"
| "subtree_hash cr (Suc n) (e # t) =
     node_hash cr (subtree_hash cr n (filter (\<lambda>(k, _). bit_at k (DEPTH - Suc n) = 0) (e # t)))
                  (subtree_hash cr n (filter (\<lambda>(k, _). bit_at k (DEPTH - Suc n) \<noteq> 0) (e # t)))"

definition smt_root :: "crypto \<Rightarrow> trie \<Rightarrow> hash" where
  "smt_root cr t = subtree_hash cr DEPTH t"

primrec collect_siblings :: "crypto \<Rightarrow> bytes \<Rightarrow> nat \<Rightarrow> trie \<Rightarrow> hash list" where
  "collect_siblings cr key 0 cur = []"
| "collect_siblings cr key (Suc n) cur =
     (let b = bit_at key (DEPTH - Suc n)
      in subtree_hash cr n (filter (\<lambda>(k, _). bit_at k (DEPTH - Suc n) \<noteq> b) cur)
         # collect_siblings cr key n (filter (\<lambda>(k, _). bit_at k (DEPTH - Suc n) = b) cur))"

record smt_proof =
  sm_key :: bytes
  sm_value :: "bytes option"
  sm_siblings :: "hash list"

definition generate_proof :: "crypto \<Rightarrow> trie \<Rightarrow> bytes \<Rightarrow> smt_proof" where
  "generate_proof cr t key = \<lparr>sm_key = key, sm_value = map_of t key, sm_siblings = collect_siblings cr key DEPTH t\<rparr>"

definition bottom_hash :: "crypto \<Rightarrow> bytes \<Rightarrow> bytes option \<Rightarrow> hash" where
  "bottom_hash cr key v = (case v of Some x \<Rightarrow> leaf_hash cr key x | None \<Rightarrow> empty_leaf_hash cr)"

text \<open>The walk from depth \<open>DEPTH - 1\<close> up to the root.\<close>

definition climb :: "crypto \<Rightarrow> bytes \<Rightarrow> hash list \<Rightarrow> nat list \<Rightarrow> hash \<Rightarrow> hash" where
  "climb cr key sibs = foldr (\<lambda>depth cur.
     if bit_at key depth = 0 then node_hash cr cur (sibs ! depth) else node_hash cr (sibs ! depth) cur)"

definition smt_verify :: "crypto \<Rightarrow> smt_proof \<Rightarrow> hash \<Rightarrow> bytes \<Rightarrow> bytes option \<Rightarrow> bool" where
  "smt_verify cr p root key v =
     (if sm_key p \<noteq> key \<or> sm_value p \<noteq> v \<or> length (sm_siblings p) \<noteq> DEPTH then False
      else climb cr key (sm_siblings p) [0..<DEPTH] (bottom_hash cr key v) = root)"

subsection \<open>Keys and their bits\<close>

lemma bit_at_values: "bit_at k d = 0 \<or> bit_at k d = 1"
  by (simp add: bit_at_def and_one_eq mod_2_eq_odd)

lemma bit_at_eq_0: "bit_at k d = 0 \<longleftrightarrow> \<not> bit (k ! (d div 8)) (7 - d mod 8)"
  by (simp add: bit_at_def and_one_eq mod_2_eq_odd bit_iff_odd_drop_bit)

lemma keys_eq:
  assumes "length a = 32" "length b = 32" "\<forall>d < DEPTH. bit_at a d = bit_at b d"
  shows "a = b"
proof (rule nth_equalityI)
  fix i assume i: "i < length a"
  show "a ! i = b ! i"
  proof (rule bit_word_eqI)
    fix n assume n: "n < LENGTH(8)"
    let ?d = "8 * i + (7 - n)"
    have "(8 * i + m) div 8 = i" "(8 * i + m) mod 8 = m" if "m < 8" for m :: nat using that by simp_all
    note dm = this
    have d1: "?d div 8 = i" by (rule dm(1)) simp
    have "?d mod 8 = 7 - n" by (rule dm(2)) simp
    then have d2: "7 - ?d mod 8 = n" using n by (simp only: len_num0 len_num1 len_bit0 len_bit1)
    have "?d < DEPTH" using i assms(1) n by (simp add: DEPTH_def)
    with assms(3) have "bit_at a ?d = bit_at b ?d" by blast
    then have "(bit_at a ?d = 0) = (bit_at b ?d = 0)" by simp
    then show "bit (a ! i) n \<longleftrightarrow> bit (b ! i) n" unfolding bit_at_eq_0 d1 d2 by simp
  qed
qed (simp add: assms)

definition trie_ok :: "trie \<Rightarrow> bool" where
  "trie_ok t \<longleftrightarrow> distinct (map fst t) \<and> (\<forall>k \<in> fst ` set t. length k = 32)"

lemma trie_ok_new: "trie_ok smt_new"
  by (simp add: trie_ok_def smt_new_def)

lemma trie_ok_insert: "trie_ok t \<Longrightarrow> length k = 32 \<Longrightarrow> trie_ok (smt_insert k v t)"
  by (auto simp: trie_ok_def smt_insert_def distinct_update dom_update)

lemma trie_ok_filter: "trie_ok t \<Longrightarrow> trie_ok (filter P t)"
  by (auto simp: trie_ok_def distinct_map_filter)

lemma trie_ok_delete: "trie_ok t \<Longrightarrow> trie_ok (smt_delete k t)"
  by (simp add: smt_delete_def AList.delete_eq trie_ok_filter)

subsection \<open>Proofs that are generated verify\<close>

lemma subtree_hash_Suc:
  "subtree_hash cr (Suc n) t =
     node_hash cr (subtree_hash cr n (filter (\<lambda>(k, _). bit_at k (DEPTH - Suc n) = 0) t))
                  (subtree_hash cr n (filter (\<lambda>(k, _). bit_at k (DEPTH - Suc n) \<noteq> 0) t))"
  by (cases t) simp_all

lemma map_of_filter_key: "P k \<Longrightarrow> map_of (filter (\<lambda>(x, _). P x) t) k = map_of t k"
  by (induction t) auto

lemma subtree_hash_step:
  "subtree_hash cr (Suc n) t =
     (let b = bit_at key (DEPTH - Suc n);
          same = subtree_hash cr n (filter (\<lambda>(k, _). bit_at k (DEPTH - Suc n) = b) t);
          other = subtree_hash cr n (filter (\<lambda>(k, _). bit_at k (DEPTH - Suc n) \<noteq> b) t)
      in if b = 0 then node_hash cr same other else node_hash cr other same)"
proof (cases "bit_at key (DEPTH - Suc n) = 0")
  case False
  then have b: "bit_at key (DEPTH - Suc n) = 1" using bit_at_values by blast
  have "bit_at x (DEPTH - Suc n) = 0 \<longleftrightarrow> bit_at x (DEPTH - Suc n) \<noteq> 1" for x
    using bit_at_values [of x "DEPTH - Suc n"] by auto
  with b show ?thesis by (simp add: subtree_hash_Suc)
qed (simp add: subtree_hash_Suc)

lemma agreeing_leaves:
  assumes "trie_ok t" "length key = 32" "\<forall>k \<in> fst ` set t. \<forall>d < DEPTH. bit_at k d = bit_at key d"
  shows "subtree_hash cr 0 t = bottom_hash cr key (map_of t key)"
proof -
  have "\<forall>k \<in> fst ` set t. k = key"
    using assms keys_eq unfolding trie_ok_def by blast
  then show ?thesis by (cases t) (auto simp: bottom_hash_def)
qed

lemma climb_siblings:
  assumes "trie_ok t" "length key = 32" "n \<le> DEPTH"
    and "\<forall>k \<in> fst ` set t. \<forall>d < DEPTH - n. bit_at k d = bit_at key d"
    and "drop (DEPTH - n) sibs = collect_siblings cr key n t"
  shows "climb cr key sibs [DEPTH - n..<DEPTH] (bottom_hash cr key (map_of t key)) = subtree_hash cr n t"
  using assms(1,3,4,5)
proof (induction n arbitrary: t)
  case 0
  then show ?case using agreeing_leaves [OF 0(1) assms(2)] by (simp add: climb_def)
next
  case (Suc n)
  let ?d = "DEPTH - Suc n"
  let ?b = "bit_at key ?d"
  let ?same = "filter (\<lambda>(k, _). bit_at k ?d = ?b) t"
  have d: "DEPTH - n = Suc ?d" "?d < DEPTH" using Suc.prems(2) by simp_all
  have cons: "drop ?d sibs = subtree_hash cr n (filter (\<lambda>(k, _). bit_at k ?d \<noteq> ?b) t) # collect_siblings cr key n ?same"
    using Suc.prems(4) by (simp add: Let_def)
  then have sib: "sibs ! ?d = subtree_hash cr n (filter (\<lambda>(k, _). bit_at k ?d \<noteq> ?b) t)"
    by (rule nth_via_drop)
  have rest: "drop (DEPTH - n) sibs = collect_siblings cr key n ?same"
    using arg_cong [OF cons, of tl] unfolding d(1) by (simp add: drop_Suc tl_drop)
  have agree: "\<forall>k \<in> fst ` set ?same. \<forall>e < DEPTH - n. bit_at k e = bit_at key e"
    using Suc.prems(3) unfolding d(1) less_Suc_eq by auto
  have ih: "climb cr key sibs [DEPTH - n..<DEPTH] (bottom_hash cr key (map_of ?same key)) = subtree_hash cr n ?same"
    by (rule Suc.IH [OF trie_ok_filter [OF Suc.prems(1)] Suc_leD [OF Suc.prems(2)] agree rest])
  have "map_of ?same key = map_of t key" by (rule map_of_filter_key) simp
  moreover have "[?d..<DEPTH] = ?d # [DEPTH - n..<DEPTH]" using upt_conv_Cons [OF d(2)] d(1) by simp
  ultimately show ?case
    unfolding subtree_hash_step [of cr n t key] Let_def using ih sib by (simp add: climb_def)
qed

lemma length_collect_siblings [simp]: "length (collect_siblings cr key n t) = n"
  by (induction n arbitrary: t) (simp_all add: Let_def)

lemma generated_proof_verifies:
  assumes "trie_ok t" "length key = 32"
  shows "smt_verify cr (generate_proof cr t key) (smt_root cr t) key (map_of t key)"
  using climb_siblings [of t key DEPTH "collect_siblings cr key DEPTH t" cr] assms
  by (simp add: smt_verify_def generate_proof_def smt_root_def)

subsection \<open>Proofs that verify are true\<close>

text \<open>The byte strings hashed when a proof is checked, from the root down.\<close>

definition step_input :: "bytes \<Rightarrow> hash list \<Rightarrow> nat \<Rightarrow> hash \<Rightarrow> bytes" where
  "step_input key sibs d cur = TAG_NODE @ (if bit_at key d = 0 then cur @ sibs ! d else sibs ! d @ cur)"

definition bottom_input :: "bytes \<Rightarrow> bytes option \<Rightarrow> bytes" where
  "bottom_input key v = (case v of None \<Rightarrow> TAG_EMPTY | Some x \<Rightarrow> TAG_LEAF @ key @ x)"

definition proof_inputs :: "crypto \<Rightarrow> smt_proof \<Rightarrow> bytes set" where
  "proof_inputs cr p = insert (bottom_input (sm_key p) (sm_value p))
     ((\<lambda>d. step_input (sm_key p) (sm_siblings p) d
            (climb cr (sm_key p) (sm_siblings p) [Suc d..<DEPTH] (bottom_hash cr (sm_key p) (sm_value p)))) ` {..<DEPTH})"

lemma bottom_hash_input: "bottom_hash cr key v = cr_blake2s cr (bottom_input key v)"
  by (cases v) (simp_all add: bottom_hash_def bottom_input_def leaf_hash_def empty_leaf_hash_def hash_multiple_def hash_data_def)

lemma climb_input:
  "d < DEPTH \<Longrightarrow> climb cr key sibs [d..<DEPTH] b = cr_blake2s cr (step_input key sibs d (climb cr key sibs [Suc d..<DEPTH] b))"
  by (simp add: climb_def upt_conv_Cons step_input_def node_hash_def hash_multiple_def)

lemma step_input_inj:
  assumes "step_input key sibs d a = step_input key sibs' d b" "length a = length b"
  shows "a = b"
  using assms by (auto simp: step_input_def split: if_splits)

lemma bottom_input_inj: "bottom_input key v = bottom_input key w \<longleftrightarrow> v = w"
  by (auto simp: bottom_input_def TAG_LEAF_def TAG_EMPTY_def ascii_def split: option.splits)

lemma climb_is_hash:
  assumes "\<forall>b. length (cr_blake2s cr b) = 32" "d \<le> DEPTH"
  shows "length (climb cr key sibs [d..<DEPTH] (bottom_hash cr key v)) = 32"
proof (cases "d < DEPTH")
  case False
  with assms(2) have "d = DEPTH" by simp
  then show ?thesis by (simp add: climb_def bottom_hash_input assms(1))
qed (simp add: climb_input assms(1))

text \<open>Two proofs for one key that lead to one root carry one value.\<close>

lemma proofs_agree:
  assumes size: "\<forall>b. length (cr_blake2s cr b) = 32"
    and ok: "smt_verify cr p root key v" "smt_verify cr q root key w"
    and inj: "inj_on (cr_blake2s cr) (proof_inputs cr p \<union> proof_inputs cr q)"
  shows "v = w"
proof -
  let ?u = "\<lambda>d. climb cr key (sm_siblings p) [d..<DEPTH] (bottom_hash cr key v)"
  let ?w = "\<lambda>d. climb cr key (sm_siblings q) [d..<DEPTH] (bottom_hash cr key w)"
  have p: "sm_key p = key" "sm_value p = v" "?u 0 = root" and q: "sm_key q = key" "sm_value q = w" "?w 0 = root"
    using ok by (simp_all add: smt_verify_def split: if_splits)
  have "?u d = ?w d" if "d \<le> DEPTH" for d using that
  proof (induction d)
    case 0
    then show ?case using p(3) q(3) by simp
  next
    case (Suc d)
    then have d: "d < DEPTH" by simp
    let ?a = "step_input key (sm_siblings p) d (?u (Suc d))" and ?b = "step_input key (sm_siblings q) d (?w (Suc d))"
    have eq: "cr_blake2s cr ?a = cr_blake2s cr ?b"
      using Suc.IH d unfolding climb_input [OF d] by simp
    have "?a \<in> proof_inputs cr p" "?b \<in> proof_inputs cr q"
      using d by (auto simp: proof_inputs_def p(1,2) q(1,2))
    then have "?a = ?b" using inj_onD [OF inj eq] by blast
    then show ?case by (rule step_input_inj) (simp only: climb_is_hash [OF size Suc.prems])
  qed
  from this [OF order_refl] have eq: "cr_blake2s cr (bottom_input key v) = cr_blake2s cr (bottom_input key w)"
    by (simp add: climb_def bottom_hash_input)
  have "bottom_input key v \<in> proof_inputs cr p" "bottom_input key w \<in> proof_inputs cr q"
    by (simp_all add: proof_inputs_def p(1,2) q(1,2))
  then have "bottom_input key v = bottom_input key w" using inj_onD [OF inj eq] by blast
  then show ?thesis by (simp only: bottom_input_inj)
qed

subsection \<open>The root depends on the content alone\<close>

lemma map_of_filter_keys: "map_of (filter (\<lambda>(x, _). P x) t) k = (if P k then map_of t k else None)"
  by (induction t) auto

lemma same_content_subtree:
  assumes "trie_ok t" "trie_ok t'" "map_of t = map_of t'" "n \<le> DEPTH"
    and "\<forall>k \<in> fst ` set t. \<forall>k' \<in> fst ` set t. \<forall>d < DEPTH - n. bit_at k d = bit_at k' d"
  shows "subtree_hash cr n t = subtree_hash cr n t'"
  using assms
proof (induction n arbitrary: t t')
  case 0
  have keys: "fst ` set t = fst ` set t'" using arg_cong [OF 0(3), of dom] unfolding dom_map_of_conv_image_fst .
  show ?case
  proof (cases t)
    case Nil
    with keys show ?thesis by simp
  next
    case (Cons e es)
    then have e: "fst e \<in> fst ` set t" by simp
    with 0(1) have len: "length (fst e) = 32" unfolding trie_ok_def by blast
    have a: "\<forall>k \<in> fst ` set t. \<forall>d < DEPTH. bit_at k d = bit_at (fst e) d" using 0(5) e unfolding diff_zero by blast
    then have b: "\<forall>k \<in> fst ` set t'. \<forall>d < DEPTH. bit_at k d = bit_at (fst e) d" unfolding keys .
    show ?thesis unfolding agreeing_leaves [OF 0(1) len a] agreeing_leaves [OF 0(2) len b] 0(3) ..
  qed
next
  case (Suc n)
  let ?d = "DEPTH - Suc n"
  have d: "DEPTH - n = Suc ?d" using Suc.prems(4) by simp
  have part: "subtree_hash cr n (filter (\<lambda>(k, _). P k) t) = subtree_hash cr n (filter (\<lambda>(k, _). P k) t')"
    if P: "\<And>x y. P x \<Longrightarrow> P y \<Longrightarrow> bit_at x ?d = bit_at y ?d" for P
  proof (rule Suc.IH [OF trie_ok_filter [OF Suc.prems(1)] trie_ok_filter [OF Suc.prems(2)] _ Suc_leD [OF Suc.prems(4)]])
    show "map_of (filter (\<lambda>(k, _). P k) t) = map_of (filter (\<lambda>(k, _). P k) t')"
      by (rule ext) (simp only: map_of_filter_keys Suc.prems(3))
    show "\<forall>k \<in> fst ` set (filter (\<lambda>(k, _). P k) t). \<forall>k' \<in> fst ` set (filter (\<lambda>(k, _). P k) t).
        \<forall>e < DEPTH - n. bit_at k e = bit_at k' e"
    proof (intro ballI allI impI)
      fix k k' e assume k: "k \<in> fst ` set (filter (\<lambda>(k, _). P k) t)" "k' \<in> fst ` set (filter (\<lambda>(k, _). P k) t)"
        and e: "e < DEPTH - n"
      from k have "k \<in> fst ` set t" "k' \<in> fst ` set t" "P k" "P k'" by auto
      note kk = this
      show "bit_at k e = bit_at k' e"
      proof (cases "e < ?d")
        case True
        with Suc.prems(5) kk(1,2) show ?thesis by blast
      next
        case False
        with e d have "e = ?d" by simp
        then show ?thesis using P [OF kk(3,4)] by simp
      qed
    qed
  qed
  have one: "bit_at x ?d = 1" if "bit_at x ?d \<noteq> 0" for x using that bit_at_values by blast
  show ?case unfolding subtree_hash_Suc
    by (rule arg_cong2 [of _ _ _ _ "node_hash cr"]; rule part) (simp_all add: one)
qed

lemma same_content_root:
  assumes "trie_ok t" "trie_ok t'" "map_of t = map_of t'"
  shows "smt_root cr t = smt_root cr t'"
  unfolding smt_root_def by (rule same_content_subtree [OF assms order_refl]) simp

text \<open>The keys of a trie with the proof of each.\<close>

definition trie_inputs :: "crypto \<Rightarrow> bytes list \<Rightarrow> trie \<Rightarrow> bytes set" where
  "trie_inputs cr ks t = (\<Union>k \<in> set ks. proof_inputs cr (generate_proof cr t k))"

lemma same_root_content:
  assumes size: "\<forall>b. length (cr_blake2s cr b) = 32" and ok: "trie_ok t" "trie_ok t'"
    and root: "smt_root cr t = smt_root cr t'"
    and inj: "inj_on (cr_blake2s cr) (trie_inputs cr (map fst (t @ t')) t \<union> trie_inputs cr (map fst (t @ t')) t')"
  shows "map_of t = map_of t'"
proof
  fix k
  show "map_of t k = map_of t' k"
  proof (cases "k \<in> set (map fst (t @ t'))")
    case True
    then have k: "length k = 32" using ok unfolding trie_ok_def by auto
    have "proof_inputs cr (generate_proof cr t k) \<union> proof_inputs cr (generate_proof cr t' k)
        \<subseteq> trie_inputs cr (map fst (t @ t')) t \<union> trie_inputs cr (map fst (t @ t')) t'"
      unfolding trie_inputs_def using True by blast
    note inj' = inj_on_subset [OF inj this]
    have "smt_verify cr (generate_proof cr t k) (smt_root cr t') k (map_of t k)"
      using generated_proof_verifies [OF ok(1) k, of cr] unfolding root .
    from proofs_agree [OF size this generated_proof_verifies [OF ok(2) k] inj'] show ?thesis .
  next
    case False
    then have "map_of t k = None" "map_of t' k = None" by (auto simp: map_of_eq_None_iff)
    then show ?thesis by simp
  qed
qed

subsection \<open>Properties\<close>

text \<open>The operations on a trie as a sequence, and what they leave under a key.\<close>

datatype smt_op = Smt_Insert bytes bytes | Smt_Delete bytes

fun op_key :: "smt_op \<Rightarrow> bytes" where
  "op_key (Smt_Insert k v) = k"
| "op_key (Smt_Delete k) = k"

fun smt_step :: "smt_op \<Rightarrow> trie \<Rightarrow> trie" where
  "smt_step (Smt_Insert k v) t = smt_insert k v t"
| "smt_step (Smt_Delete k) t = smt_delete k t"

fun write_step :: "smt_op \<Rightarrow> (bytes \<rightharpoonup> bytes) \<Rightarrow> (bytes \<rightharpoonup> bytes)" where
  "write_step (Smt_Insert k v) m = m(k \<mapsto> v)"
| "write_step (Smt_Delete k) m = m(k := None)"

lemma smt_steps:
  assumes "trie_ok t" "\<forall>x \<in> set ops. length (op_key x) = 32"
  shows "trie_ok (fold smt_step ops t) \<and> map_of (fold smt_step ops t) = fold write_step ops (map_of t)"
  using assms
proof (induction ops arbitrary: t)
  case (Cons x ops)
  have "trie_ok (smt_step x t) \<and> map_of (smt_step x t) = write_step x (map_of t)"
    using Cons.prems trie_ok_insert [of t] trie_ok_delete [of t]
    by (cases x) (auto simp: smt_insert_def smt_delete_def update_conv' delete_conv')
  with Cons show ?case by simp
qed simp

text \<open>
  C32. A proof that verifies against the root of a trie tells the truth about its key, whoever made
  it: the value it claims, or the absence it claims, is what the trie holds, unless the check of
  the proof and the check of the trie's own proof hash two different byte strings to one hash.
\<close>

theorem smt_proof_sound:
  assumes "\<forall>b. length (cr_blake2s cr b) = 32" "trie_ok t" "length key = 32"
    and "smt_verify cr p (smt_root cr t) key v"
    and "inj_on (cr_blake2s cr) (proof_inputs cr p \<union> proof_inputs cr (generate_proof cr t key))"
  shows "v = smt_get t key"
  unfolding smt_get_def
  by (rule proofs_agree [OF assms(1,4) generated_proof_verifies [OF assms(2,3)] assms(5)])

text \<open>
  C34. After any sequence of inserts and deletes the trie proves for every key what the last
  operation on it left, a value or its absence, and the proof verifies against the root.
\<close>

theorem smt_proof_complete:
  assumes "\<forall>x \<in> set ops. length (op_key x) = 32" "length key = 32"
  shows "smt_verify cr (generate_proof cr (fold smt_step ops smt_new) key) (smt_root cr (fold smt_step ops smt_new))
           key (fold write_step ops Map.empty key)"
proof -
  note s = smt_steps [OF trie_ok_new assms(1)]
  from s have "map_of (fold smt_step ops smt_new) = fold write_step ops Map.empty" by (simp add: smt_new_def)
  with generated_proof_verifies [of "fold smt_step ops smt_new" key cr] s assms(2) show ?thesis by simp
qed

text \<open>
  C33. Two tries have one root exactly when they hold the same values, in whatever order their hash
  maps list them, unless two different byte strings hashed in the proofs of their keys collide.
\<close>

theorem smt_root_iff:
  assumes "\<forall>b. length (cr_blake2s cr b) = 32" "trie_ok t" "trie_ok t'"
    and "inj_on (cr_blake2s cr) (trie_inputs cr (map fst (t @ t')) t \<union> trie_inputs cr (map fst (t @ t')) t')"
  shows "smt_root cr t = smt_root cr t' \<longleftrightarrow> smt_get t = smt_get t'"
  using same_root_content [OF assms(1-3) _ assms(4)] same_content_root [OF assms(2,3)]
  unfolding smt_get_def by blast

subsection \<open>A trie with one entry\<close>

text \<open>A hash that counts along a path: an empty leaf is 0, a leaf 1000 and a node one more than its left child.\<close>

definition count_hash :: "bytes \<Rightarrow> hash" where
  "count_hash b = (if take 15 b = TAG_NODE then le_bytes 32 (le_nat (take 32 (drop 15 b)) + 1)
     else if b = TAG_EMPTY then le_bytes 32 0 else le_bytes 32 1000)"

definition count_crypto :: crypto where
  "count_crypto = clear_crypto\<lparr>cr_blake2s := count_hash\<rparr>"

definition zero_key :: bytes where "zero_key = replicate 32 0"
definition demo_trie :: trie where "demo_trie = [(zero_key, [7])]"

lemma count_size: "\<forall>b. length (cr_blake2s count_crypto b) = 32"
  by (simp add: count_crypto_def count_hash_def)

lemma demo_trie_ok: "trie_ok demo_trie" "length zero_key = 32"
  by (simp_all add: trie_ok_def demo_trie_def zero_key_def)

lemma length_TAG_NODE: "length TAG_NODE = 15"
  by (simp add: TAG_NODE_def)

lemma count_node: "n + 1 < 256 ^ 32 \<Longrightarrow> cr_blake2s count_crypto (TAG_NODE @ le_bytes 32 n @ r) = le_bytes 32 (n + 1)"
  by (simp add: count_crypto_def count_hash_def length_TAG_NODE)

lemma count_empty_tower: "i \<le> DEPTH \<Longrightarrow> empty_tower count_crypto i = le_bytes 32 i"
proof (induction i)
  case 0
  show ?case by (simp add: empty_leaf_hash_def hash_data_def count_crypto_def count_hash_def TAG_EMPTY_def TAG_NODE_def ascii_def)
next
  case (Suc i)
  then have "i + 1 < 256 ^ 32" by (simp add: DEPTH_def)
  from count_node [OF this, of "le_bytes 32 i"] Suc show ?case
    by (simp add: node_hash_def hash_multiple_def)
qed

lemma bit_zero_key: "d < DEPTH \<Longrightarrow> bit_at zero_key d = 0"
  by (simp add: bit_at_def zero_key_def DEPTH_def)

lemma demo_siblings: "n \<le> DEPTH \<Longrightarrow> collect_siblings count_crypto zero_key n demo_trie = map (empty_tower count_crypto) (rev [0..<n])"
  by (induction n) (simp_all add: bit_zero_key demo_trie_def)

lemma demo_bottom: "bottom_hash count_crypto zero_key (Some [7]) = le_bytes 32 1000"
  by (simp add: bottom_hash_input bottom_input_def count_crypto_def count_hash_def TAG_LEAF_def TAG_EMPTY_def TAG_NODE_def ascii_def)

definition demo_proof :: smt_proof where
  "demo_proof = generate_proof count_crypto demo_trie zero_key"

lemma demo_proof_fields:
  "sm_key demo_proof = zero_key" "sm_value demo_proof = Some [7]"
  "d < DEPTH \<Longrightarrow> sm_siblings demo_proof ! d = le_bytes 32 (255 - d)"
  by (simp_all add: demo_proof_def generate_proof_def demo_siblings rev_nth count_empty_tower DEPTH_def)
     (simp add: demo_trie_def)

lemma demo_climb:
  "n \<le> DEPTH \<Longrightarrow> climb count_crypto zero_key (sm_siblings demo_proof) [DEPTH - n..<DEPTH] (le_bytes 32 1000) = le_bytes 32 (1000 + n)"
proof (induction n)
  case 0
  show ?case by (simp add: climb_def)
next
  case (Suc n)
  let ?d = "DEPTH - Suc n"
  have d: "?d < DEPTH" "Suc ?d = DEPTH - n" using Suc.prems by (simp_all add: DEPTH_def)
  have "1000 + n + 1 < 256 ^ 32" using Suc.prems by (simp add: DEPTH_def)
  from count_node [OF this] show ?case
    unfolding climb_input [OF d(1)] d(2) using Suc by (simp add: step_input_def bit_zero_key d(1))
qed

lemma demo_inputs:
  "proof_inputs count_crypto demo_proof \<subseteq> insert (bottom_input zero_key (Some [7]))
     ((\<lambda>n. TAG_NODE @ le_bytes 32 (1000 + n) @ le_bytes 32 n) ` {..<DEPTH})"
proof -
  have "step_input zero_key (sm_siblings demo_proof) d (climb count_crypto zero_key (sm_siblings demo_proof) [Suc d..<DEPTH] (le_bytes 32 1000))
      = TAG_NODE @ le_bytes 32 (1000 + (255 - d)) @ le_bytes 32 (255 - d)" if "d < DEPTH" for d
  proof -
    have s: "Suc d = DEPTH - (255 - d)" "255 - d \<le> DEPTH" using that by (simp_all add: DEPTH_def)
    show ?thesis unfolding s(1) demo_climb [OF s(2)]
      by (simp add: step_input_def bit_zero_key [OF that] demo_proof_fields(3) [OF that])
  qed
  moreover have "255 - d < DEPTH" for d by (simp add: DEPTH_def)
  ultimately show ?thesis
    unfolding proof_inputs_def demo_proof_fields(1,2) demo_bottom by auto
qed

lemma count_inj: "inj_on (cr_blake2s count_crypto) (proof_inputs count_crypto demo_proof)"
proof (rule inj_on_subset [OF _ demo_inputs], rule inj_on_insert [THEN iffD2], intro conjI)
  have v: "cr_blake2s count_crypto (TAG_NODE @ le_bytes 32 (1000 + n) @ le_bytes 32 n) = le_bytes 32 (1001 + n)"
    if "n < DEPTH" for n using count_node [of "1000 + n"] that by (simp add: DEPTH_def)
  have i: "le_bytes 32 (1000 + m) = le_bytes 32 (1000 + n) \<longleftrightarrow> m = n" if "m \<le> DEPTH" "n \<le> DEPTH" for m n
    using le_bytes_inj [of 32 "1000 + m" "1000 + n"] that by (auto simp: DEPTH_def)
  show "inj_on (cr_blake2s count_crypto) ((\<lambda>n. TAG_NODE @ le_bytes 32 (1000 + n) @ le_bytes 32 n) ` {..<DEPTH})"
  proof (rule inj_onI, clarsimp)
    fix m n assume d: "m < DEPTH" "n < DEPTH" and "cr_blake2s count_crypto (TAG_NODE @ le_bytes 32 (1000 + m) @ le_bytes 32 m)
      = cr_blake2s count_crypto (TAG_NODE @ le_bytes 32 (1000 + n) @ le_bytes 32 n)"
    then have "m = n" using v i [of "Suc m" "Suc n"] by simp
    then show "le_bytes 32 (1000 + m) = le_bytes 32 (1000 + n) \<and> le_bytes 32 m = le_bytes 32 n" by simp
  qed
  have "cr_blake2s count_crypto (bottom_input zero_key (Some [7])) = le_bytes 32 (1000 + 0)"
    using demo_bottom by (simp add: bottom_hash_input)
  then show "cr_blake2s count_crypto (bottom_input zero_key (Some [7])) \<notin> cr_blake2s count_crypto `
      ((\<lambda>n. TAG_NODE @ le_bytes 32 (1000 + n) @ le_bytes 32 n) ` {..<DEPTH} - {bottom_input zero_key (Some [7])})"
    using v i [of "Suc _" 0] by fastforce
qed

theorem smt_proof_sound_witness:
  "smt_verify count_crypto demo_proof (smt_root count_crypto demo_trie) zero_key (Some [7])
   \<and> Some [7] = smt_get demo_trie zero_key"
proof -
  have v: "smt_verify count_crypto demo_proof (smt_root count_crypto demo_trie) zero_key (Some [7])"
    using generated_proof_verifies [OF demo_trie_ok, of count_crypto] by (simp add: demo_proof_def demo_trie_def)
  with smt_proof_sound [OF count_size demo_trie_ok v] count_inj show ?thesis by (simp add: demo_proof_def)
qed

theorem smt_proof_complete_witness:
  "\<exists>key v. smt_verify count_crypto (generate_proof count_crypto (fold smt_step [Smt_Insert key [1], Smt_Insert key v] smt_new) key)
     (smt_root count_crypto (fold smt_step [Smt_Insert key [1], Smt_Insert key v] smt_new)) key (Some v)"
  using smt_proof_complete [of "[Smt_Insert zero_key [1], Smt_Insert zero_key [7]]" zero_key count_crypto]
  by (intro exI [of _ zero_key] exI [of _ "[7]"]) (simp add: demo_trie_ok)

theorem smt_root_iff_witness:
  "smt_root count_crypto demo_trie = smt_root count_crypto (fold smt_step [Smt_Insert zero_key [1], Smt_Insert zero_key [7]] smt_new)"
proof -
  have t: "fold smt_step [Smt_Insert zero_key [1], Smt_Insert zero_key [7]] smt_new = demo_trie"
    by (simp add: smt_insert_def smt_new_def demo_trie_def)
  have "trie_inputs count_crypto (map fst (demo_trie @ demo_trie)) demo_trie = proof_inputs count_crypto demo_proof"
    by (simp add: trie_inputs_def demo_trie_def demo_proof_def)
  with smt_root_iff [OF count_size demo_trie_ok(1) demo_trie_ok(1)] count_inj t show ?thesis by simp
qed

end
