(* ===== verification/Ego_Text.thy ===== *)
theory Ego_Text
  imports Ego_Prelude "HOL-Library.Char_ord" "HOL-Library.List_Lexorder"
begin

section \<open>Text\<close>

text \<open>
  Rust's \<open>String\<close> as its UTF-8 bytes: an Isabelle string is a list of 8-bit characters, one for each
  byte, so \<open>length\<close> is \<open>len()\<close> and the order of strings is the lexicographic order of bytes. This
  theory holds the string functions of the standard library the components use.
\<close>

subsection \<open>Decimal numbers\<close>

text \<open>\<open>format!\<close> of an integer: its decimal digits.\<close>

fun decimal :: "nat \<Rightarrow> string" where
  "decimal n = (if n < 10 then [char_of (48 + n)] else decimal (n div 10) @ [char_of (48 + n mod 10)])"

declare decimal.simps [simp del]

lemma decimal_digits: "list_all (\<lambda>c. of_char c \<in> {48..57::nat}) (decimal n)"
proof (induction n rule: decimal.induct)
  case (1 n)
  then show ?case by (subst decimal.simps) auto
qed

lemma decimal_nonempty: "decimal n \<noteq> []"
  by (subst decimal.simps) simp

lemma digit_inj: "char_of (48 + a) = (char_of (48 + b) :: char) \<Longrightarrow> a < 10 \<Longrightarrow> b < 10 \<Longrightarrow> a = b" for a b :: nat
  by (simp add: char_of_eq_iff take_bit_eq_mod)

lemma decimal_small: "n < 10 \<Longrightarrow> decimal n = [char_of (48 + n)]"
  by (subst decimal.simps) simp

lemma decimal_large: "\<not> n < 10 \<Longrightarrow> decimal n = decimal (n div 10) @ [char_of (48 + n mod 10)]"
  by (subst decimal.simps) simp

lemma decimal_length: "length (decimal n) = 1 \<longleftrightarrow> n < 10"
  using decimal_small [of n] decimal_large [of n] decimal_nonempty [of "n div 10"] by (cases "n < 10") auto

lemma decimal_inj: "decimal m = decimal n \<Longrightarrow> m = n"
proof (induction m arbitrary: n rule: decimal.induct)
  case (1 m)
  have same: "m < 10 \<longleftrightarrow> n < 10" using decimal_length [of m] decimal_length [of n] 1(2) by simp
  show ?case
  proof (cases "m < 10")
    case True
    then have "char_of (48 + m) = (char_of (48 + n) :: char)"
      using 1(2) same decimal_small [of m] decimal_small [of n] by simp
    with digit_inj True same show ?thesis by blast
  next
    case False
    then have "decimal (m div 10) = decimal (n div 10)" "char_of (48 + m mod 10) = (char_of (48 + n mod 10) :: char)"
      using 1(2) same decimal_large [of m] decimal_large [of n] by simp_all
    then have "m div 10 = n div 10" "m mod 10 = n mod 10"
      using 1(1) [OF False] digit_inj [of "m mod 10" "n mod 10"] by simp_all
    then show ?thesis by (metis div_mult_mod_eq)
  qed
qed

text \<open>\<open>str::parse::<usize>\<close>: an optional plus sign, then digits, below \<open>2 ^ 64\<close>.\<close>

definition is_digit :: "char \<Rightarrow> bool" where
  "is_digit c \<longleftrightarrow> CHR ''0'' \<le> c \<and> c \<le> CHR ''9''"

fun digits_value :: "nat \<Rightarrow> string \<Rightarrow> nat option" where
  "digits_value n [] = Some n"
| "digits_value n (c # cs) =
     (if is_digit c \<and> n * 10 + (of_char c - 48) < 2 ^ 64 then digits_value (n * 10 + (of_char c - 48)) cs else None)"

definition parse_usize :: "string \<Rightarrow> nat option" where
  "parse_usize s =
     (let ds = (case s of c # cs \<Rightarrow> if c = CHR ''+'' then cs else s | [] \<Rightarrow> s)
      in if ds = [] then None else digits_value 0 ds)"

subsection \<open>Parts of strings\<close>

definition starts_with :: "string \<Rightarrow> string \<Rightarrow> bool" where
  "starts_with s p \<longleftrightarrow> take (length p) s = p"

definition strip_prefix :: "string \<Rightarrow> string \<Rightarrow> string option" where
  "strip_prefix p s = (if starts_with s p then Some (drop (length p) s) else None)"

text \<open>\<open>rsplit_once\<close> at a character: what stands before and after its last occurrence.\<close>

definition rsplit_once :: "char \<Rightarrow> string \<Rightarrow> (string \<times> string) option" where
  "rsplit_once c s =
     (let r = rev s; tail = takeWhile (\<lambda>x. x \<noteq> c) r
      in if length tail < length r then Some (rev (drop (Suc (length tail)) r), rev tail) else None)"

definition is_hexdigit :: "char \<Rightarrow> bool" where
  "is_hexdigit c \<longleftrightarrow> is_digit c \<or> (CHR ''a'' \<le> c \<and> c \<le> CHR ''f'') \<or> (CHR ''A'' \<le> c \<and> c \<le> CHR ''F'')"

definition is_lowercase :: "char \<Rightarrow> bool" where
  "is_lowercase c \<longleftrightarrow> CHR ''a'' \<le> c \<and> c \<le> CHR ''z''"

text \<open>
  \<open>trim().is_empty()\<close>: every character is white space. The code points with that property are those
  of the Unicode standard: 9 to 13, 32, 85, A0, 1680, 2000 to 200A, 2028, 2029, 202F, 205F and 3000.
\<close>

fun blank :: "nat list \<Rightarrow> bool" where
  "blank [] \<longleftrightarrow> True"
| "blank (a # r) \<longleftrightarrow>
     (if 9 \<le> a \<and> a \<le> 13 \<or> a = 32 then blank r
      else if a = 0xC2 then (case r of b # r' \<Rightarrow> (b = 0x85 \<or> b = 0xA0) \<and> blank r' | _ \<Rightarrow> False)
      else if a = 0xE1 then (case r of b # c # r' \<Rightarrow> b = 0x9A \<and> c = 0x80 \<and> blank r' | _ \<Rightarrow> False)
      else if a = 0xE2 then
        (case r of b # c # r' \<Rightarrow> (b = 0x80 \<and> (0x80 \<le> c \<and> c \<le> 0x8A \<or> c = 0xA8 \<or> c = 0xA9 \<or> c = 0xAF) \<or> b = 0x81 \<and> c = 0x9F) \<and> blank r'
         | _ \<Rightarrow> False)
      else if a = 0xE3 then (case r of b # c # r' \<Rightarrow> b = 0x80 \<and> c = 0x80 \<and> blank r' | _ \<Rightarrow> False)
      else False)"

definition trims_to_nothing :: "string \<Rightarrow> bool" where
  "trims_to_nothing s = blank (map of_char s)"

end
