(* ===== verification/Abi.thy ===== *)
theory Abi
  imports Ego_Types Ego_Text
begin

section \<open>The contract ABI\<close>

text \<open>
  \<^verbatim>\<open>crates/ego-vm/src/abi.rs\<close>: the encoding of contract call data, a selector of four bytes
  followed by the arguments, each in the width its type fixes or behind a length of 32 bits.
  Shown are that decoding accepts exactly the encodings and returns what was encoded, and that
  the string a selector is computed from determines the function.
\<close>

subsection \<open>Types and values\<close>

datatype abi_error =
    Buffer_Underflow nat nat nat
  | Invalid_Bool u8 nat
  | Invalid_Utf8 nat
  | Invalid_Fixed_Bytes_Len nat
  | Type_Mismatch string string
  | Missing_Selector nat
  | Count_Mismatch nat nat
  | Trailing_Bytes nat

datatype abi_type =
    Ty_Uint8 | Ty_Uint16 | Ty_Uint32 | Ty_Uint64 | Ty_Uint128
  | Ty_Int8 | Ty_Int16 | Ty_Int32 | Ty_Int64
  | Ty_Bool | Ty_Address | Ty_Bytes | Ty_String | Ty_Fixed_Bytes u8

fun canonical :: "abi_type \<Rightarrow> string" where
  "canonical Ty_Uint8 = ''uint8''"
| "canonical Ty_Uint16 = ''uint16''"
| "canonical Ty_Uint32 = ''uint32''"
| "canonical Ty_Uint64 = ''uint64''"
| "canonical Ty_Uint128 = ''uint128''"
| "canonical Ty_Int8 = ''int8''"
| "canonical Ty_Int16 = ''int16''"
| "canonical Ty_Int32 = ''int32''"
| "canonical Ty_Int64 = ''int64''"
| "canonical Ty_Bool = ''bool''"
| "canonical Ty_Address = ''address''"
| "canonical Ty_Bytes = ''bytes''"
| "canonical Ty_String = ''string''"
| "canonical (Ty_Fixed_Bytes n) = ''bytes'' @ decimal (unat n)"

fun fixed_size :: "abi_type \<Rightarrow> nat option" where
  "fixed_size Ty_Uint8 = Some 1"
| "fixed_size Ty_Uint16 = Some 2"
| "fixed_size Ty_Uint32 = Some 4"
| "fixed_size Ty_Uint64 = Some 8"
| "fixed_size Ty_Uint128 = Some 16"
| "fixed_size Ty_Int8 = Some 1"
| "fixed_size Ty_Int16 = Some 2"
| "fixed_size Ty_Int32 = Some 4"
| "fixed_size Ty_Int64 = Some 8"
| "fixed_size Ty_Bool = Some 1"
| "fixed_size Ty_Address = Some 20"
| "fixed_size (Ty_Fixed_Bytes n) = Some (unat n)"
| "fixed_size Ty_Bytes = None"
| "fixed_size Ty_String = None"

text \<open>A signed integer is kept as the word of its two's complement, a string as its bytes.\<close>

datatype abi_value =
    V_Uint8 u8 | V_Uint16 u16 | V_Uint32 u32 | V_Uint64 u64 | V_Uint128 u128
  | V_Int8 u8 | V_Int16 u16 | V_Int32 u32 | V_Int64 u64
  | V_Bool bool | V_Address bytes | V_Bytes bytes | V_String bytes | V_Fixed_Bytes bytes

fun type_of :: "abi_value \<Rightarrow> abi_type" where
  "type_of (V_Uint8 _) = Ty_Uint8"
| "type_of (V_Uint16 _) = Ty_Uint16"
| "type_of (V_Uint32 _) = Ty_Uint32"
| "type_of (V_Uint64 _) = Ty_Uint64"
| "type_of (V_Uint128 _) = Ty_Uint128"
| "type_of (V_Int8 _) = Ty_Int8"
| "type_of (V_Int16 _) = Ty_Int16"
| "type_of (V_Int32 _) = Ty_Int32"
| "type_of (V_Int64 _) = Ty_Int64"
| "type_of (V_Bool _) = Ty_Bool"
| "type_of (V_Address _) = Ty_Address"
| "type_of (V_Bytes _) = Ty_Bytes"
| "type_of (V_String _) = Ty_String"
| "type_of (V_Fixed_Bytes b) = Ty_Fixed_Bytes (of_nat (length b))"

subsection \<open>Encoder\<close>

text \<open>The length is cut to 32 bits (\<open>as u32\<close>).\<close>

definition with_length :: "bytes \<Rightarrow> bytes" where
  "with_length b = le32 (of_nat (length b)) @ b"

fun encode_one :: "abi_value \<Rightarrow> bytes" where
  "encode_one (V_Uint8 v) = [v]"
| "encode_one (V_Uint16 v) = le16 v"
| "encode_one (V_Uint32 v) = le32 v"
| "encode_one (V_Uint64 v) = le64 v"
| "encode_one (V_Uint128 v) = le128 v"
| "encode_one (V_Int8 v) = [v]"
| "encode_one (V_Int16 v) = le16 v"
| "encode_one (V_Int32 v) = le32 v"
| "encode_one (V_Int64 v) = le64 v"
| "encode_one (V_Bool b) = [if b then 1 else 0]"
| "encode_one (V_Address a) = a"
| "encode_one (V_Bytes b) = with_length b"
| "encode_one (V_String s) = with_length s"
| "encode_one (V_Fixed_Bytes b) = b"

definition encode :: "abi_value list \<Rightarrow> bytes" where
  "encode vs = concat (map encode_one vs)"

subsection \<open>Decoder\<close>

text \<open>\<open>std::str::from_utf8\<close> accepts exactly the well-formed UTF-8 byte sequences.\<close>

definition cont :: "u8 \<Rightarrow> bool" where
  "cont b \<longleftrightarrow> 0x80 \<le> b \<and> b \<le> 0xBF"

fun utf8_valid :: "bytes \<Rightarrow> bool" where
  "utf8_valid [] \<longleftrightarrow> True"
| "utf8_valid (a # r) \<longleftrightarrow>
     (if a < 0x80 then utf8_valid r
      else if 0xC2 \<le> a \<and> a \<le> 0xDF then
        (case r of b # r' \<Rightarrow> cont b \<and> utf8_valid r' | _ \<Rightarrow> False)
      else if 0xE0 \<le> a \<and> a \<le> 0xEF then
        (case r of b # c # r' \<Rightarrow> cont b \<and> cont c \<and> (a = 0xE0 \<longrightarrow> 0xA0 \<le> b) \<and> (a = 0xED \<longrightarrow> b \<le> 0x9F) \<and> utf8_valid r' | _ \<Rightarrow> False)
      else if 0xF0 \<le> a \<and> a \<le> 0xF4 then
        (case r of b # c # d # r' \<Rightarrow> cont b \<and> cont c \<and> cont d \<and> (a = 0xF0 \<longrightarrow> 0x90 \<le> b) \<and> (a = 0xF4 \<longrightarrow> b \<le> 0x8F) \<and> utf8_valid r'
         | _ \<Rightarrow> False)
      else False)"

text \<open>A reader takes the offset and returns its result with the offset it leaves, also on an error.\<close>

type_synonym 'a reader = "nat \<Rightarrow> (abi_error + 'a) \<times> nat"

definition rd_bind :: "'a reader \<Rightarrow> ('a \<Rightarrow> 'b reader) \<Rightarrow> 'b reader" where
  "rd_bind m f off = (case m off of (Inl e, off') \<Rightarrow> (Inl e, off') | (Inr a, off') \<Rightarrow> f a off')"

definition rd_ok :: "'a \<Rightarrow> 'a reader" where
  "rd_ok a off = (Inr a, off)"

definition read_bytes :: "bytes \<Rightarrow> nat \<Rightarrow> bytes reader" where
  "read_bytes d need off =
     (let have = length d - off in
      if have < need then (Inl (Buffer_Underflow need off have), off)
      else (Inr (take need (drop off d)), off + need))"

definition read_sized :: "bytes \<Rightarrow> bytes reader" where
  "read_sized d = rd_bind (read_bytes d 4) (\<lambda>b. read_bytes d (unat (of_nat (le_nat b) :: u32)))"

fun decode_one :: "abi_type \<Rightarrow> bytes \<Rightarrow> abi_value reader" where
  "decode_one Ty_Uint8 d = rd_bind (read_bytes d 1) (\<lambda>b. rd_ok (V_Uint8 (b ! 0)))"
| "decode_one Ty_Uint16 d = rd_bind (read_bytes d 2) (\<lambda>b. rd_ok (V_Uint16 (of_nat (le_nat b))))"
| "decode_one Ty_Uint32 d = rd_bind (read_bytes d 4) (\<lambda>b. rd_ok (V_Uint32 (of_nat (le_nat b))))"
| "decode_one Ty_Uint64 d = rd_bind (read_bytes d 8) (\<lambda>b. rd_ok (V_Uint64 (of_nat (le_nat b))))"
| "decode_one Ty_Uint128 d = rd_bind (read_bytes d 16) (\<lambda>b. rd_ok (V_Uint128 (of_nat (le_nat b))))"
| "decode_one Ty_Int8 d = rd_bind (read_bytes d 1) (\<lambda>b. rd_ok (V_Int8 (b ! 0)))"
| "decode_one Ty_Int16 d = rd_bind (read_bytes d 2) (\<lambda>b. rd_ok (V_Int16 (of_nat (le_nat b))))"
| "decode_one Ty_Int32 d = rd_bind (read_bytes d 4) (\<lambda>b. rd_ok (V_Int32 (of_nat (le_nat b))))"
| "decode_one Ty_Int64 d = rd_bind (read_bytes d 8) (\<lambda>b. rd_ok (V_Int64 (of_nat (le_nat b))))"
| "decode_one Ty_Bool d = rd_bind (read_bytes d 1) (\<lambda>b off.
     if b ! 0 = 0 then (Inr (V_Bool False), off)
     else if b ! 0 = 1 then (Inr (V_Bool True), off)
     else (Inl (Invalid_Bool (b ! 0) (off - 1)), off))"
| "decode_one Ty_Address d = rd_bind (read_bytes d 20) (\<lambda>b. rd_ok (V_Address b))"
| "decode_one Ty_Bytes d = rd_bind (read_sized d) (\<lambda>b. rd_ok (V_Bytes b))"
| "decode_one Ty_String d = rd_bind (read_sized d) (\<lambda>b off.
     if utf8_valid b then (Inr (V_String b), off) else (Inl (Invalid_Utf8 (off - length b)), off))"
| "decode_one (Ty_Fixed_Bytes n) d = (\<lambda>off.
     if unat n = 0 \<or> 32 < unat n then (Inl (Invalid_Fixed_Bytes_Len (unat n)), off)
     else rd_bind (read_bytes d (unat n)) (\<lambda>b. rd_ok (V_Fixed_Bytes b)) off)"

fun decode_all :: "abi_type list \<Rightarrow> bytes \<Rightarrow> abi_value list reader" where
  "decode_all [] d = rd_ok []"
| "decode_all (t # ts) d = rd_bind (decode_one t d) (\<lambda>v. rd_bind (decode_all ts d) (\<lambda>vs. rd_ok (v # vs)))"

definition decode :: "abi_type list \<Rightarrow> bytes \<Rightarrow> abi_error + abi_value list" where
  "decode ts d =
     (case decode_all ts d 0 of
        (Inl e, _) \<Rightarrow> Inl e
      | (Inr vs, off) \<Rightarrow> if off \<noteq> length d then Inl (Trailing_Bytes (length d - off)) else Inr vs)"

subsection \<open>Calls\<close>

fun join :: "bytes \<Rightarrow> bytes list \<Rightarrow> bytes" where
  "join sep [] = []"
| "join sep [x] = x"
| "join sep (x # y # xs) = x @ sep @ join sep (y # xs)"

definition fn_signature :: "bytes \<Rightarrow> abi_type list \<Rightarrow> bytes" where
  "fn_signature name ts = name @ ascii ''('' @ join (ascii '','') (map (ascii \<circ> canonical) ts) @ ascii '')''"

definition selector :: "crypto \<Rightarrow> bytes \<Rightarrow> abi_type list \<Rightarrow> bytes" where
  "selector cr name ts = take 4 (cr_blake2s cr (fn_signature name ts))"

text \<open>The assertion on the two lengths panics.\<close>

definition encode_call :: "crypto \<Rightarrow> bytes \<Rightarrow> abi_type list \<Rightarrow> abi_value list \<Rightarrow> bytes option" where
  "encode_call cr name ts args =
     (if length ts = length args then Some (selector cr name ts @ encode args) else None)"

definition decode_call :: "abi_type list \<Rightarrow> bytes \<Rightarrow> abi_error + bytes \<times> abi_value list" where
  "decode_call ts d =
     (if length d < 4 then Inl (Missing_Selector (length d))
      else rbind (decode ts (drop 4 d)) (\<lambda>args. Inr (take 4 d, args)))"

subsection \<open>Reading what was written\<close>

fun value_ok :: "abi_value \<Rightarrow> bool" where
  "value_ok (V_Address a) \<longleftrightarrow> length a = 20"
| "value_ok (V_Bytes b) \<longleftrightarrow> length b < 2 ^ 32"
| "value_ok (V_String s) \<longleftrightarrow> length s < 2 ^ 32 \<and> utf8_valid s"
| "value_ok (V_Fixed_Bytes b) \<longleftrightarrow> 1 \<le> length b \<and> length b \<le> 32"
| "value_ok _ \<longleftrightarrow> True"

lemma rd_bind_Inr:
  "rd_bind m f off = (Inr b, off') \<longleftrightarrow> (\<exists>a o1. m off = (Inr a, o1) \<and> f a o1 = (Inr b, off'))"
  by (auto simp: rd_bind_def split: prod.splits sum.splits)

lemma rd_ok_Inr: "rd_ok a off = (Inr b, off') \<longleftrightarrow> b = a \<and> off' = off"
  by (auto simp: rd_ok_def)

definition found :: "bytes \<Rightarrow> nat \<Rightarrow> bytes \<Rightarrow> bool" where
  "found d off b \<longleftrightarrow> off + length b \<le> length d \<and> take (length b) (drop off d) = b"

lemma found_append: "found d off (a @ b) \<longleftrightarrow> found d off a \<and> found d (off + length a) b"
  by (auto simp: found_def take_add [of "length a" "length b"] add.commute)

lemma read_bytes_Inr:
  "off \<le> length d \<Longrightarrow> read_bytes d n off = (Inr b, off') \<longleftrightarrow> length b = n \<and> off' = off + n \<and> found d off b"
  by (auto simp: read_bytes_def found_def Let_def)

lemma found_offset: "found d off b \<Longrightarrow> off + length b \<le> length d"
  by (simp add: found_def)

lemma unat_length: "n < 2 ^ 32 \<Longrightarrow> unat (of_nat n :: u32) = n"
  by (simp add: unat_of_nat)

lemma read_sized_Inr:
  assumes "off \<le> length d"
  shows "read_sized d off = (Inr b, off') \<longleftrightarrow> length b < 2 ^ 32 \<and> off' = off + length (with_length b) \<and> found d off (with_length b)"
proof
  assume "read_sized d off = (Inr b, off')"
  then obtain l o1 where l: "read_bytes d 4 off = (Inr l, o1)" "read_bytes d (unat (of_nat (le_nat l) :: u32)) o1 = (Inr b, off')"
    by (auto simp: read_sized_def rd_bind_Inr)
  from l(1) assms have l1: "length l = 4" "o1 = off + 4" "found d off l" by (simp_all add: read_bytes_Inr)
  with l(2) found_offset [OF l1(3)] have b: "length b = unat (of_nat (le_nat l) :: u32)" "off' = o1 + length b" "found d o1 b"
    by (simp_all add: read_bytes_Inr)
  have "le32 (of_nat (length b)) = l" using le_of_le_nat(2) [OF l1(1)] by (simp add: b(1))
  with l1 b show "length b < 2 ^ 32 \<and> off' = off + length (with_length b) \<and> found d off (with_length b)"
    using unsigned_less [of "of_nat (le_nat l) :: u32", where 'a = nat] by (simp add: with_length_def found_append)
next
  assume r: "length b < 2 ^ 32 \<and> off' = off + length (with_length b) \<and> found d off (with_length b)"
  then have f: "found d off (le32 (of_nat (length b)))" "found d (off + 4) b" by (simp_all add: with_length_def found_append)
  have "read_bytes d 4 off = (Inr (le32 (of_nat (length b))), off + 4)" using f(1) assms by (simp add: read_bytes_Inr)
  moreover have "read_bytes d (length b) (off + 4) = (Inr b, off')"
    using f(2) found_offset [OF f(1)] r by (simp add: read_bytes_Inr with_length_def)
  moreover have "unat (of_nat (length b) :: u32) = length b" using r unat_length by blast
  ultimately show "read_sized d off = (Inr b, off')" by (auto simp: read_sized_def rd_bind_Inr)
qed

text \<open>Quantifying over the bytes of an integer is quantifying over the integer.\<close>

lemma ex_bytes:
  "(\<exists>b. length b = Suc 0 \<and> P b) \<longleftrightarrow> (\<exists>x. P [x])"
  "(\<exists>b. length b = 2 \<and> P b) \<longleftrightarrow> (\<exists>x. P (le16 x))"
  "(\<exists>b. length b = 4 \<and> P b) \<longleftrightarrow> (\<exists>x. P (le32 x))"
  "(\<exists>b. length b = 8 \<and> P b) \<longleftrightarrow> (\<exists>x. P (le64 x))"
  "(\<exists>b. length b = 16 \<and> P b) \<longleftrightarrow> (\<exists>x. P (le128 x))"
  by (auto simp: length_Suc_conv) (metis le_of_le_nat length_le)+

definition decodes :: "abi_type \<Rightarrow> bytes \<Rightarrow> nat \<Rightarrow> abi_value \<Rightarrow> nat \<Rightarrow> bool" where
  "decodes t d off v off' \<longleftrightarrow> type_of v = t \<and> value_ok v \<and> off' = off + length (encode_one v) \<and> found d off (encode_one v)"

lemma decode_one_int:
  assumes "off \<le> length d"
  shows "t \<in> {Ty_Uint8, Ty_Uint16, Ty_Uint32, Ty_Uint64, Ty_Uint128, Ty_Int8, Ty_Int16, Ty_Int32, Ty_Int64} \<Longrightarrow>
    decode_one t d off = (Inr v, off') \<longleftrightarrow> decodes t d off v off'"
  by (cases v; auto simp: decodes_def rd_bind_Inr rd_ok_Inr read_bytes_Inr [OF assms] ex_bytes)

lemma decode_one_bool:
  assumes "off \<le> length d"
  shows "decode_one Ty_Bool d off = (Inr v, off') \<longleftrightarrow> decodes Ty_Bool d off v off'"
  by (cases v) (auto simp: decodes_def rd_bind_Inr read_bytes_Inr [OF assms] ex_bytes intro: exI [of _ "0 :: u8"])

lemma decode_one_bytes:
  assumes "off \<le> length d"
  shows "t \<in> {Ty_Address, Ty_Bytes, Ty_String} \<Longrightarrow> decode_one t d off = (Inr v, off') \<longleftrightarrow> decodes t d off v off'"
  by (cases v; auto simp: decodes_def rd_bind_Inr rd_ok_Inr read_bytes_Inr [OF assms] read_sized_Inr [OF assms] split: if_splits)

lemma decode_one_fixed:
  assumes "off \<le> length d"
  shows "decode_one (Ty_Fixed_Bytes n) d off = (Inr v, off') \<longleftrightarrow> decodes (Ty_Fixed_Bytes n) d off v off'"
proof (cases v)
  case (V_Fixed_Bytes b)
  have "of_nat (length b) = n \<longleftrightarrow> length b = unat n" if "length b \<le> 32"
    using that unsigned_less [of n, where 'a = nat] by (auto simp: word_unat_eq_iff unat_of_nat)
  then show ?thesis using V_Fixed_Bytes unsigned_less [of n, where 'a = nat]
    by (auto simp: decodes_def rd_bind_Inr rd_ok_Inr read_bytes_Inr [OF assms])
qed (auto simp: decodes_def rd_bind_Inr rd_ok_Inr)

lemma decode_one_Inr:
  "off \<le> length d \<Longrightarrow> decode_one t d off = (Inr v, off') \<longleftrightarrow> decodes t d off v off'"
  by (cases t) (simp_all only: decode_one_int decode_one_bool decode_one_bytes decode_one_fixed insert_iff simp_thms)

lemma encode_Cons: "encode (v # vs) = encode_one v @ encode vs"
  by (simp add: encode_def)

lemma decode_all_Inr:
  "off \<le> length d \<Longrightarrow> decode_all ts d off = (Inr vs, off') \<longleftrightarrow>
     map type_of vs = ts \<and> list_all value_ok vs \<and> off' = off + length (encode vs) \<and> found d off (encode vs)"
proof (induction ts arbitrary: off vs)
  case Nil
  then show ?case by (auto simp: rd_ok_Inr encode_def found_def)
next
  case (Cons t ts)
  show ?case
  proof (cases vs)
    case Nil
    then show ?thesis by (simp add: rd_bind_Inr rd_ok_Inr)
  next
    case (Cons v ws)
    have "decode_all (t # ts) d off = (Inr vs, off') \<longleftrightarrow>
        (\<exists>o1. decodes t d off v o1 \<and> decode_all ts d o1 = (Inr ws, off'))"
      using Cons decode_one_Inr [OF Cons.prems] by (auto simp: rd_bind_Inr rd_ok_Inr)
    also have "\<dots> \<longleftrightarrow> map type_of vs = t # ts \<and> list_all value_ok vs \<and> off' = off + length (encode vs) \<and> found d off (encode vs)"
      using Cons.IH found_offset [of d off "encode_one v"]
      by (auto simp: decodes_def Cons encode_Cons found_append)
    finally show ?thesis .
  qed
qed

lemma decode_Inr:
  "decode ts b = Inr vs \<longleftrightarrow> map type_of vs = ts \<and> list_all value_ok vs \<and> b = encode vs"
proof -
  have "decode ts b = Inr vs \<longleftrightarrow> decode_all ts b 0 = (Inr vs, length b)"
    by (auto simp: decode_def split: prod.splits sum.splits if_splits)
  also have "\<dots> \<longleftrightarrow> map type_of vs = ts \<and> list_all value_ok vs \<and> b = encode vs"
    by (auto simp: decode_all_Inr found_def)
  finally show ?thesis .
qed

interpretation call_data: codec encode "decode ts" "\<lambda>vs. map type_of vs = ts \<and> list_all value_ok vs" for ts
  by unfold_locales (simp_all add: decode_Inr)

subsection \<open>Signatures\<close>

lemma ascii_append [simp]: "ascii (a @ b) = ascii a @ ascii b"
  by (simp add: ascii_def)

lemma canonical_inj: "canonical s = canonical t \<Longrightarrow> s = t"
  by (cases s; cases t) (auto simp: decimal_nonempty decimal_nonempty [symmetric] dest: decimal_inj simp: word_unat_eq_iff)

lemma canonical_chars: "list_all (\<lambda>c. c \<notin> {CHR ''('', CHR '')'', CHR '',''}) (canonical t)"
proof (cases t)
  case (Ty_Fixed_Bytes n)
  have "list_all (\<lambda>c. c \<notin> {CHR ''('', CHR '')'', CHR '',''}) (decimal (unat n))"
    using decimal_digits by (rule list.pred_mono_strong) auto
  then show ?thesis using Ty_Fixed_Bytes by simp
qed simp_all

lemma canonical_nonempty: "canonical t \<noteq> []"
  by (cases t) simp_all

lemma split_first: "x \<notin> set a \<Longrightarrow> x \<notin> set b \<Longrightarrow> a @ x # r = b @ x # s \<longleftrightarrow> a = b \<and> r = s"
  by (induction a arbitrary: b) (case_tac b; auto)+

lemma join_inj:
  assumes "\<forall>x \<in> set xs \<union> set ys. x \<noteq> [] \<and> c \<notin> set x" "join [c] xs = join [c] ys"
  shows "xs = ys"
  using assms
proof (induction "[c]" xs arbitrary: ys rule: join.induct)
  case 1
  then show ?case by (cases "([c], ys)" rule: join.cases) auto
next
  case (2 x)
  then show ?case by (cases "([c], ys)" rule: join.cases) auto
next
  case (3 x y xs)
  from 3(2,3) obtain x' y' zs where ys: "ys = x' # y' # zs"
    by (cases "([c], ys)" rule: join.cases) auto
  with 3(2,3) have e: "x = x'" "join [c] (y # xs) = join [c] (y' # zs)" by (auto simp: split_first)
  have "y # xs = y' # zs" by (rule 3(1) [OF _ e(2)]) (use 3(2) ys in auto)
  with e(1) ys show ?case by simp
qed

lemma of_char_byte: "(of_char a :: u8) = of_char b \<longleftrightarrow> a = b"
proof
  assume "(of_char a :: u8) = of_char b"
  then have "(of_nat (of_char a) :: u8) = of_nat (of_char b)" unfolding of_nat_of_char .
  then have "(of_char a :: nat) = of_char b" by (simp add: word_of_nat_eq_iff take_bit_eq_mod)
  then show "a = b" by simp
qed simp

lemma ascii_inj [simp]: "ascii s = ascii t \<longleftrightarrow> s = t"
  unfolding ascii_def by (rule inj_map_eq_map) (simp add: inj_def of_char_byte)

lemma ascii_member: "of_char c \<in> set (ascii s) \<longleftrightarrow> c \<in> set s"
  by (auto simp: ascii_def of_char_byte)

lemma ascii_char: "ascii [c] = [of_char c]"
  by (simp add: ascii_def)

lemma signature_inj:
  assumes "of_char CHR ''('' \<notin> set f" "of_char CHR ''('' \<notin> set g" "fn_signature f ss = fn_signature g ts"
  shows "f = g \<and> ss = ts"
proof -
  let ?p = "map (ascii \<circ> canonical)"
  have e: "f @ of_char CHR ''('' # join (ascii '','') (?p ss) @ ascii '')'' = g @ of_char CHR ''('' # join (ascii '','') (?p ts) @ ascii '')''"
    using assms(3) unfolding fn_signature_def ascii_char append_Cons append_Nil .
  have fg: "f = g" and j: "join [of_char CHR '',''] (?p ss) = join [of_char CHR '',''] (?p ts)"
    using e split_first [OF assms(1,2)] unfolding ascii_char by auto
  have c: "of_char CHR '','' \<notin> set (ascii (canonical t))" for t
    using canonical_chars [of t] unfolding ascii_member by (auto simp: list_all_iff)
  have n: "ascii (canonical t) \<noteq> []" for t using canonical_nonempty by (simp add: ascii_def)
  have "?p ss = ?p ts"
    by (rule join_inj [OF _ j]) (use c n in \<open>auto simp del: of_char_eq_iff\<close>)
  moreover have "inj (ascii \<circ> canonical)" by (auto simp: inj_def intro: canonical_inj)
  ultimately show ?thesis using fg by (simp only: inj_map_eq_map simp_thms)
qed

lemma call_data_encoded:
  assumes "\<forall>b. length (cr_blake2s cr b) = 32" "list_all value_ok args"
  shows "\<exists>d. encode_call cr f (map type_of args) args = Some d \<and>
    decode_call (map type_of args) d = Inr (selector cr f (map type_of args), args)"
  using call_data.dec_enc [of args "map type_of args"] assms
  by (simp add: encode_call_def decode_call_def selector_def)

subsection \<open>Properties\<close>

text \<open>
  C35. Call data is accepted for a list of parameter types exactly when it is a selector of four
  bytes followed by the encoding of well-formed values of these types, and the values returned
  are those. So what \<open>encode_call\<close> writes is read back, and no other byte string is accepted for it.
\<close>

theorem call_decodes_iff:
  "decode_call ts d = Inr (sel, vs) \<longleftrightarrow>
     length sel = 4 \<and> map type_of vs = ts \<and> list_all value_ok vs \<and> d = sel @ encode vs"
proof
  assume "decode_call ts d = Inr (sel, vs)"
  then have "4 \<le> length d" "sel = take 4 d" "decode ts (drop 4 d) = Inr vs"
    by (auto simp: decode_call_def rbind_Inr_iff split: if_splits)
  with call_data.enc_dec [of ts "drop 4 d" vs]
  show "length sel = 4 \<and> map type_of vs = ts \<and> list_all value_ok vs \<and> d = sel @ encode vs" by simp
next
  assume "length sel = 4 \<and> map type_of vs = ts \<and> list_all value_ok vs \<and> d = sel @ encode vs"
  then show "decode_call ts d = Inr (sel, vs)"
    using call_data.dec_enc [of vs ts] by (simp add: decode_call_def)
qed

text \<open>
  The signature string a selector is computed from names one function: two signatures are
  equal only for the same name and the same parameter types, for names without an opening
  parenthesis.
\<close>

theorem signature_names_one_function:
  assumes "of_char CHR ''('' \<notin> set f" "of_char CHR ''('' \<notin> set g"
  shows "fn_signature f ss = fn_signature g ts \<longleftrightarrow> f = g \<and> ss = ts"
  using signature_inj [OF assms] by blast

theorem signature_names_one_function_witness:
  "fn_signature (ascii ''f'') [Ty_Uint8, Ty_Fixed_Bytes 12] \<noteq> fn_signature (ascii ''f'') [Ty_Uint8, Ty_Fixed_Bytes 1]"
  using signature_names_one_function [of "ascii ''f''" "ascii ''f''" "[Ty_Uint8, Ty_Fixed_Bytes 12]" "[Ty_Uint8, Ty_Fixed_Bytes 1]"]
  by (simp add: ascii_def)

end
