(* ===== verification/Hold_Types.thy ===== *)
theory Hold_Types
  imports Codec Ego_Text "HOL-Library.Product_Lexorder"
begin

section \<open>The data of theft holds\<close>

text \<open>
  The constants and structures of \<^verbatim>\<open>ego-desktop/src-tauri/src/hold_chain.rs\<close>. A victim asks for a hold on stolen coins; a committee signs the amounts; a vote of stake and of nodes
  confirms or rejects the hold; a second vote may return the coins.
\<close>

subsection \<open>Constants\<close>

definition TX_REQUEST :: string where "TX_REQUEST = ''hold_request''"
definition TX_VOTE :: string where "TX_VOTE = ''hold_vote''"
definition TX_NODE_VOTE :: string where "TX_NODE_VOTE = ''hold_node_vote''"
definition TX_APPEAL :: string where "TX_APPEAL = ''hold_appeal''"
definition TX_RETURN :: string where "TX_RETURN = ''hold_return''"
definition TX_CERT :: string where "TX_CERT = ''hold_cert''"
definition TX_SETTLE :: string where "TX_SETTLE = ''hold_settle''"

definition USER_TYPES :: "string list" where
  "USER_TYPES = [TX_REQUEST, TX_VOTE, TX_NODE_VOTE, TX_APPEAL, TX_RETURN]"

definition PHASE_CONFIRM :: string where "PHASE_CONFIRM = ''confirm''"
definition PHASE_RETURN :: string where "PHASE_RETURN = ''return''"

definition MIN_NODE_POOL :: u64 where "MIN_NODE_POOL = 64"
definition REQUEST_FEE_UEGOC :: u64 where "REQUEST_FEE_UEGOC = 10000000"
definition MIN_BOND_UEGOC :: u64 where "MIN_BOND_UEGOC = 100000000"
definition SIGN_WINDOW_SECS :: i64 where "SIGN_WINDOW_SECS = 3600"
definition VOTE_SECS :: i64 where "VOTE_SECS = 72 * 3600"
definition CONFIRM_SECS :: i64 where "CONFIRM_SECS = 90 * 86400"
definition COOLDOWN_SECS :: i64 where "COOLDOWN_SECS = 30 * 86400"
definition MAX_TXS :: nat where "MAX_TXS = 64"
definition MAX_HELD :: nat where "MAX_HELD = 32"
definition MAX_HOLDS_PER_ADDR :: nat where "MAX_HOLDS_PER_ADDR = 8"
definition MAX_LIVE :: nat where "MAX_LIVE = 256"
definition MAX_TEXT_BYTES :: nat where "MAX_TEXT_BYTES = 2000"
definition MAX_BODY_BYTES :: nat where "MAX_BODY_BYTES = 16384"
definition MIN_VOTERS :: u64 where "MIN_VOTERS = 3"
definition MIN_STAKE_PERCENT :: nat where "MIN_STAKE_PERCENT = 1"
definition MIN_NODE_PERCENT :: nat where "MIN_NODE_PERCENT = 5"

definition BODY_DOMAIN :: string where "BODY_DOMAIN = ''ego/hold/body/v1:''"
definition CERT_DOMAIN :: string where "CERT_DOMAIN = ''ego/hold/cert/v1:''"
definition ID_DOMAIN :: string where "ID_DOMAIN = ''ego/hold/id/v1:''"
definition SETTLE_DOMAIN :: string where "SETTLE_DOMAIN = ''ego/hold/settle/v1:''"

subsection \<open>Bodies, holds and votes\<close>

record request_body =
  rq_victim :: string
  rq_theft :: "string list"
  rq_hops :: "string list"
  rq_case :: string
  rq_bond :: u64

record vote_body =
  vb_id :: string
  vb_phase :: string
  vb_yes :: bool

record appeal_body =
  ab_id :: string
  ab_text :: string

record id_body =
  ib_id :: string

record hold_body =
  hb_id :: string
  hb_amounts :: "(string \<times> u64) list"

record hold_cert =
  hc_body :: hold_body
  hc_signers :: "u32 list"
  hc_sig :: string

record hold =
  hd_id :: string
  hd_requester :: string
  hd_request :: request_body
  hd_created :: i64
  hd_height :: u64
  hd_keys :: "string list"
  hd_amounts :: "(string \<times> u64) list"
  hd_held_at :: i64
  hd_stake_total :: u64
  hd_node_total :: u64
  hd_appeals :: "(string \<times> string) list"
  hd_return_opened :: i64
  hd_paid :: bool

record hold_tally =
  ty_stake_yes :: u64
  ty_stake_no :: u64
  ty_stake_voters :: u64
  ty_node_yes :: u64
  ty_node_no :: u64
  ty_node_voters :: u64

definition default_tally :: hold_tally where
  "default_tally = \<lparr>ty_stake_yes = 0, ty_stake_no = 0, ty_stake_voters = 0, ty_node_yes = 0, ty_node_no = 0, ty_node_voters = 0\<rparr>"

datatype outcome = Pass | Fail | No_Quorum

datatype phase = Signing | Failed | Voting | Confirmed | Return_Voting | Returned | Rejected | Lapsed | Expired

end
