(* ===== verification/Dao_Types.thy ===== *)
theory Dao_Types
  imports Ego_Text
begin

section \<open>The data of governance\<close>

text \<open>
  The constants and structures of \<^verbatim>\<open>ego-desktop/src-tauri/src/dao_chain.rs\<close>. A proposal has options;
  stakers vote with their stake, and where it has a knowledge test anyone votes with answers that
  are committed to first and revealed after the vote.
\<close>

subsection \<open>Constants\<close>

definition DAO_ACTIVATION_HEIGHT :: "u64 option" where "DAO_ACTIVATION_HEIGHT = Some 65103"
definition KNOW_TALLY_FROM :: "u64 option" where "KNOW_TALLY_FROM = Some 67922"

definition DAO_PROPOSE :: string where "DAO_PROPOSE = ''dao_propose''"
definition DAO_VOTE :: string where "DAO_VOTE = ''dao_vote''"
definition DAO_KNOW :: string where "DAO_KNOW = ''dao_know''"
definition DAO_REVEAL :: string where "DAO_REVEAL = ''dao_reveal''"
definition DAO_WITHDRAW :: string where "DAO_WITHDRAW = ''dao_withdraw''"
definition DAO_KNOW_REVEAL :: string where "DAO_KNOW_REVEAL = ''dao_know_reveal''"
definition DAO_REPORT :: string where "DAO_REPORT = ''dao_report''"

definition DAO_TYPES :: "string list" where
  "DAO_TYPES = [DAO_PROPOSE, DAO_VOTE, DAO_KNOW, DAO_REVEAL, DAO_WITHDRAW, DAO_KNOW_REVEAL, DAO_REPORT]"

definition KINDS :: "string list" where
  "KINDS = [''protocol'', ''resource'', ''feature'', ''parameter'', ''tender'']"

definition DAO_MAX_BODY_BYTES :: nat where "DAO_MAX_BODY_BYTES = 16384"
definition MAX_TITLE_BYTES :: nat where "MAX_TITLE_BYTES = 200"
definition MAX_DESCRIPTION_BYTES :: nat where "MAX_DESCRIPTION_BYTES = 4000"
definition MAX_OPTIONS :: nat where "MAX_OPTIONS = 10"
definition MAX_OPTION_BYTES :: nat where "MAX_OPTION_BYTES = 100"
definition MAX_QUESTIONS :: nat where "MAX_QUESTIONS = 10"
definition MAX_QUESTION_BYTES :: nat where "MAX_QUESTION_BYTES = 300"
definition MAX_QUESTION_OPTIONS :: nat where "MAX_QUESTION_OPTIONS = 4"
definition MIN_DAYS :: u32 where "MIN_DAYS = 1"
definition MAX_DAYS :: u32 where "MAX_DAYS = 30"
definition DAY_SECS :: i64 where "DAY_SECS = 86400"
definition PROPOSALS_PER_WINDOW :: nat where "PROPOSALS_PER_WINDOW = 5"
definition WINDOW_SECS :: i64 where "WINDOW_SECS = 30 * 86400"
definition REVEAL_WINDOW_SECS :: i64 where "REVEAL_WINDOW_SECS = 7 * 86400"
definition MIN_STAKE_VOTERS :: u64 where "MIN_STAKE_VOTERS = 3"
definition DAO_MIN_STAKE_PERCENT :: nat where "DAO_MIN_STAKE_PERCENT = 1"
definition REPORT_SECS :: i64 where "REPORT_SECS = 30 * 86400"
definition MAX_REPORTS :: nat where "MAX_REPORTS = 256"
definition MIN_REPORTERS :: nat where "MIN_REPORTERS = 3"
definition KNOWLEDGE_SCAN_LIMIT :: nat where "KNOWLEDGE_SCAN_LIMIT = 100000"

definition DAO_BODY_DOMAIN :: string where "DAO_BODY_DOMAIN = ''ego/dao/body/v1:''"
definition ANSWERS_DOMAIN :: string where "ANSWERS_DOMAIN = ''ego/dao/answers/v1:''"
definition VOTE_ANSWERS_DOMAIN :: string where "VOTE_ANSWERS_DOMAIN = ''ego/dao/vote-answers/v1:''"
definition DAO_ID_DOMAIN :: string where "DAO_ID_DOMAIN = ''ego/dao/id/v1:''"

subsection \<open>Bodies, proposals and votes\<close>

record dao_question =
  qn_question :: string
  qn_options :: "string list"

record propose_body =
  pb_title :: string
  pb_description :: string
  pb_kind :: string
  pb_options :: "string list"
  pb_duration_days :: u32
  pb_questions :: "dao_question list"
  pb_answers_commit :: string

record dao_vote_body =
  dv_id :: string
  dv_option :: u32

record know_body =
  kb_id :: string
  kb_option :: u32
  kb_commit :: string

record report_body =
  rp_target :: string

record dao_report =
  re_reporter :: string
  re_weight :: u64
  re_at :: i64

record reveal_body =
  rv_id :: string
  rv_salt :: string
  rv_answers :: "u8 list"

record withdraw_body =
  wb_id :: string

record dao_proposal =
  pr_id :: string
  pr_title :: string
  pr_description :: string
  pr_kind :: string
  pr_options :: "string list"
  pr_creator :: string
  pr_created_at :: i64
  pr_ends_at :: i64
  pr_height :: u64
  pr_questions :: "dao_question list"
  pr_answers_commit :: string
  pr_answers :: "u8 list option"
  pr_withdrawn :: bool
  pr_revealed_at :: "i64 option"

record stake_vote =
  sv_option :: u32
  sv_weight :: u64

record know_vote =
  kv_option :: u32
  kv_commit :: string
  kv_answers :: "u8 list option"

end
