(* ===== verification/Chain_Store.thy ===== *)
theory Chain_Store
  imports Codec Hold_Types Dao_Types "HOL-Library.AList"
begin

section \<open>Transactions, blocks and the overlay\<close>

text \<open>
  What the chain rules of \<^verbatim>\<open>ego-desktop/src-tauri/src\<close> share: the fields of a transaction and a block
  they read (\<^verbatim>\<open>ledger.rs\<close>), the overlay they keep their state in (\<open>Ov\<close> of \<^verbatim>\<open>drs.rs\<close>), and the
  addresses and tests on transactions of \<^verbatim>\<open>chain_db.rs\<close>.
\<close>

subsection \<open>Transactions and blocks\<close>

record ledger_tx =
  lt_hash :: string
  lt_from :: string
  lt_to :: string
  lt_amount :: u64
  lt_memo :: "string option"
  lt_timestamp :: i64
  lt_signature :: string
  lt_status :: string
  lt_block_height :: "u64 option"
  lt_nonce :: u64
  lt_dilithium_pubkey :: string
  lt_dilithium_signature :: string
  lt_type :: string
  lt_fee :: u64
  lt_priority_fee :: u64
  lt_call_args :: string
  lt_version :: u8
  lt_chain_id :: u8
  lt_vault_cosig :: string

record ledger_block =
  lb_height :: u64
  lb_timestamp :: i64

definition NODE_POOL_ADDR :: string where "NODE_POOL_ADDR = ''egot1nodepool000000000000000000000000000000000''"
definition STAKING_ADDR :: string where "STAKING_ADDR = ''egot1staking000000000000000000000000000000000''"
definition STAKING_POOL_ADDR :: string where "STAKING_POOL_ADDR = ''egot1stakingpool0000000000000000000000000000000''"
definition FAUCET_ADDR_FULL :: string where "FAUCET_ADDR_FULL = ''egot1faucet000000000000000000000000000000000000''"

definition is_reserved_system_source :: "string \<Rightarrow> bool" where
  "is_reserved_system_source addr \<longleftrightarrow> addr = [] \<or> addr = NODE_POOL_ADDR \<or> addr = STAKING_POOL_ADDR \<or> addr = FAUCET_ADDR_FULL
     \<or> list_ex (starts_with addr) [''egot1faucet'', ''egot1genesis'', ''egot1staking'', ''egot1system'', ''egot1coverage'',
          ''egot1nodereward'', ''egot1collateral'', ''egot1slashpool'', ''egot1storagefees'', ''egot1burn'', ''egot1nodepool'',
          ''egot1rewards'', ''egot1shielded'', ''egot1marketescrow'']"

definition is_stake_tx :: "ledger_tx \<Rightarrow> bool" where
  "is_stake_tx tx \<longleftrightarrow> lt_type tx = ''stake'' \<and> lt_to tx = STAKING_ADDR \<and> lt_from tx \<noteq> []"

definition is_unstake_tx :: "ledger_tx \<Rightarrow> bool" where
  "is_unstake_tx tx \<longleftrightarrow> lt_type tx = ''unstake'' \<and> lt_to tx = STAKING_ADDR \<and> lt_from tx \<noteq> []"

definition valid_addr :: "string \<Rightarrow> bool" where
  "valid_addr s \<longleftrightarrow> (starts_with s ''egot1'' \<or> starts_with s ''ego1'') \<and> 20 \<le> length s \<and> length s \<le> 100
     \<and> list_all (\<lambda>c. is_lowercase c \<or> is_digit c) s"

text \<open>Whether a transaction may go into a block now, later or never.\<close>

datatype fit = Fit_Yes | Fit_Later string | Fit_Never string

text \<open>An error is its message, up to the first part that names a value.\<close>

type_synonym rule_error = string

definition readable :: "rule_error \<Rightarrow> 'a option \<Rightarrow> rule_error + 'a" where
  "readable e r = (case r of None \<Rightarrow> Inl e | Some b \<Rightarrow> Inr b)"

lemma readable_Inr [simp]: "readable e r = Inr b \<longleftrightarrow> r = Some b"
  by (cases r) (simp_all add: readable_def)

text \<open>\<open>+\<close> and \<open>-\<close> on \<open>i64\<close> wrap around.\<close>

definition i64_wrap :: "int \<Rightarrow> i64" where
  "i64_wrap n = (n + 2 ^ 63) mod 2 ^ 64 - 2 ^ 63"

lemma i64_wrap_id [simp]: "- (2 ^ 63) \<le> n \<Longrightarrow> n < 2 ^ 63 \<Longrightarrow> i64_wrap n = n"
  by (simp add: i64_wrap_def)

subsection \<open>Key-value stores\<close>

text \<open>
  A store with reads and writes, a written \<open>None\<close> being a deletion. A batch of writes to keys that a
  client does not read leaves every entry of the client as it was; of two writes to one key the
  later counts.
\<close>

locale kv_store =
  fixes get :: "'s \<Rightarrow> 'k \<rightharpoonup> 'v" and wr :: "'k \<times> 'v option \<Rightarrow> 's \<Rightarrow> 's"
  assumes get_wr: "get (wr w s) = (get s)(fst w := snd w)"
begin

lemma batch_frame: "k \<notin> fst ` set ws \<Longrightarrow> get (fold wr ws s) k = get s k"
  by (induction ws arbitrary: s) (auto simp: get_wr)

lemma batch_outside:
  assumes "list_all (\<lambda>w. \<not> P (fst w)) ws" "P k"
  shows "get (fold wr ws s) k = get s k"
  using assms by (intro batch_frame) (auto simp: list_all_iff)

lemma batch_last: "get (fold wr (ws @ [(k, v)]) s) k = v"
  by (simp add: get_wr)

lemma batch_cong: "get s k = get s' k \<Longrightarrow> get (fold wr ws s) k = get (fold wr ws s') k"
  by (induction ws arbitrary: s s') (auto simp: get_wr)

end

subsection \<open>The overlay\<close>

text \<open>
  \<open>Ov\<close> of \<^verbatim>\<open>drs.rs\<close>: pending writes over the committed entries of the database, a value of \<open>None\<close>
  being a deletion. An entry is kept as the value that was serialised into it, one constructor for
  each type that is stored; reading it as another type fails.
\<close>

record versioned =
  ve_active :: u64
  ve_next :: u64
  ve_from :: u64

text \<open>The fields of \<open>NodeRec\<close> that holds and their committee read.\<close>

record node_rec =
  nr_pop_key :: string
  nr_weight :: versioned

datatype stored =
    St_Hold hold | St_Ids "string list" | St_Id string | St_Time i64 | St_Tally hold_tally | St_Flag bool
  | St_U64 u64 | St_Versioned versioned | St_Rec node_rec | St_Empty
  | St_Proposal dao_proposal | St_Tallies "u64 list" | St_Stake_Vote stake_vote | St_Know_Vote know_vote
  | St_Times "i64 list" | St_Reports "dao_report list"

record overlay =
  ov_base :: "(string \<times> stored) list"
  ov_map :: "string \<rightharpoonup> stored option"

definition ov_get :: "overlay \<Rightarrow> string \<rightharpoonup> stored" where
  "ov_get ov k = (case ov_map ov k of Some v \<Rightarrow> v | None \<Rightarrow> map_of (ov_base ov) k)"

definition ov_put :: "string \<Rightarrow> stored \<Rightarrow> overlay \<Rightarrow> overlay" where
  "ov_put k v ov = ov\<lparr>ov_map := (ov_map ov)(k \<mapsto> Some v)\<rparr>"

definition ov_del :: "string \<Rightarrow> overlay \<Rightarrow> overlay" where
  "ov_del k ov = ov\<lparr>ov_map := (ov_map ov)(k \<mapsto> None)\<rparr>"

text \<open>The committed keys with a prefix, in the order of the database, at most a number of them.\<close>

definition committed_keys :: "overlay \<Rightarrow> string \<Rightarrow> nat \<Rightarrow> string list" where
  "committed_keys ov prefix limit = take limit (sort (remdups (filter (\<lambda>k. starts_with k prefix) (map fst (ov_base ov)))))"

lemma ov_get_put [simp]: "ov_get (ov_put k v ov) = (ov_get ov)(k \<mapsto> v)"
  by (rule ext) (simp add: ov_get_def ov_put_def split: option.split)

lemma ov_get_del [simp]: "ov_get (ov_del k ov) = (ov_get ov)(k := None)"
  by (rule ext) (simp add: ov_get_def ov_del_def split: option.split)

lemma ov_base_put [simp]: "ov_base (ov_put k v ov) = ov_base ov" "ov_base (ov_del k ov) = ov_base ov"
  by (simp_all add: ov_put_def ov_del_def)

definition ov_write :: "string \<times> stored option \<Rightarrow> overlay \<Rightarrow> overlay" where
  "ov_write w ov = (case snd w of None \<Rightarrow> ov_del (fst w) ov | Some v \<Rightarrow> ov_put (fst w) v ov)"

interpretation store: kv_store ov_get ov_write
  by unfold_locales (auto simp: ov_write_def split: option.split)

text \<open>
  A change of the overlay that is a batch of writes to keys with a prefix: what a chain rule does to
  the state, whose keys all start with its name.
\<close>

definition writes_under :: "string \<Rightarrow> overlay \<Rightarrow> overlay \<Rightarrow> bool" where
  "writes_under p ov ov' \<longleftrightarrow> (\<exists>ws. list_all (\<lambda>w. starts_with (fst w) p) ws \<and> ov' = fold ov_write ws ov)"

lemma writes_under_refl [simp, intro]: "writes_under p ov ov"
  unfolding writes_under_def by (rule exI [of _ "[]"]) simp

lemma writes_under_trans: "writes_under p ov ov1 \<Longrightarrow> writes_under p ov1 ov2 \<Longrightarrow> writes_under p ov ov2"
  unfolding writes_under_def
proof (elim exE conjE)
  fix ws vs assume "list_all (\<lambda>w. starts_with (fst w) p) ws" "ov1 = fold ov_write ws ov"
    "list_all (\<lambda>w. starts_with (fst w) p) vs" "ov2 = fold ov_write vs ov1"
  then show "\<exists>us. list_all (\<lambda>w. starts_with (fst w) p) us \<and> ov2 = fold ov_write us ov" by (intro exI [of _ "ws @ vs"]) simp
qed

lemma writes_under_put: "writes_under p ov ov' \<Longrightarrow> starts_with k p \<Longrightarrow> writes_under p ov (ov_put k v ov')"
  by (rule writes_under_trans [of _ _ ov'], assumption, unfold writes_under_def, rule exI [of _ "[(k, Some v)]"]) (simp add: ov_write_def)

lemma writes_under_del: "writes_under p ov ov' \<Longrightarrow> starts_with k p \<Longrightarrow> writes_under p ov (ov_del k ov')"
  by (rule writes_under_trans [of _ _ ov'], assumption, unfold writes_under_def, rule exI [of _ "[(k, None)]"]) (simp add: ov_write_def)

lemma writes_under_frame: "writes_under p ov ov' \<Longrightarrow> \<not> starts_with k p \<Longrightarrow> ov_get ov' k = ov_get ov k"
  unfolding writes_under_def by (auto intro: store.batch_outside [where P = "\<lambda>k. \<not> starts_with k p"])

lemma writes_under_fold: "(\<And>x s. x \<in> set xs \<Longrightarrow> writes_under p s (f x s)) \<Longrightarrow> writes_under p ov (fold f xs ov)"
  by (induction xs arbitrary: ov) (auto intro: writes_under_trans)

definition load_u64 :: "overlay \<Rightarrow> string \<Rightarrow> u64" where
  "load_u64 ov k = (case ov_get ov k of Some (St_U64 n) \<Rightarrow> n | _ \<Rightarrow> 0)"

definition stake_of :: "overlay \<Rightarrow> string \<Rightarrow> u64" where
  "stake_of ov addr = load_u64 ov (''stake:'' @ addr)"

end
