(* ===== verification/Hold_Chain.thy ===== *)
theory Hold_Chain
  imports Chain_Store
begin

section \<open>Theft holds\<close>

text \<open>
  The rules of \<^verbatim>\<open>ego-desktop/src-tauri/src/hold_chain.rs\<close>: which transactions are well formed, the
  phase a hold is in, the coins that are locked, the certificate of the committee, the plan of a
  block, the operations and the effect of a block on the overlay. The text of a string is its
  bytes; the database, the clock and the balances are arguments.
\<close>

subsection \<open>What other packages provide\<close>

text \<open>
  The BLAKE3 hash, hexadecimal text, the JSON reader and writer, the BLS signature library, and the
  drawing of the pool a committee is taken from (\<open>draw_pool\<close> of \<^verbatim>\<open>drs.rs\<close>).
\<close>

record hold_env =
  he_blake3 :: "string \<Rightarrow> bytes"
  he_hex :: "bytes \<Rightarrow> string"
  he_unhex :: "string \<Rightarrow> bytes option"
  he_read_request :: "string \<Rightarrow> request_body option"
  he_read_vote :: "string \<Rightarrow> vote_body option"
  he_read_appeal :: "string \<Rightarrow> appeal_body option"
  he_read_id :: "string \<Rightarrow> id_body option"
  he_read_cert :: "string \<Rightarrow> hold_cert option"
  he_write_body :: "hold_body \<Rightarrow> string"
  he_pk_ok :: "bytes \<Rightarrow> bool"
  he_sig_ok :: "bytes \<Rightarrow> bool"
  he_bls_verify :: "bytes \<Rightarrow> bytes \<Rightarrow> bytes \<Rightarrow> bool"
  he_bls_fast_verify :: "bytes \<Rightarrow> bytes list \<Rightarrow> bytes \<Rightarrow> bool"
  he_bls_aggregate :: "bytes list \<Rightarrow> bytes option"
  he_draw_pool :: "overlay \<Rightarrow> u64 \<Rightarrow> string list"

subsection \<open>Activation and identifiers\<close>

text \<open>
  The height from which the rule is in force. The build has none; the definitions below take it as
  an argument \<open>act\<close>, so that what they do once a height is set can be stated as well.
\<close>

type_synonym activation = "u64 option"

definition ACTIVATION_HEIGHT :: activation where "ACTIVATION_HEIGHT = None"

definition rule_active :: "activation \<Rightarrow> u64 \<Rightarrow> bool" where
  "rule_active act height = (case act of None \<Rightarrow> False | Some h \<Rightarrow> h \<le> height)"

definition is_hold_op :: "ledger_tx \<Rightarrow> bool" where
  "is_hold_op tx \<longleftrightarrow> lt_type tx \<in> set USER_TYPES"

definition to_hex :: "hold_env \<Rightarrow> string \<Rightarrow> string" where
  "to_hex he s = he_hex he (he_blake3 he s)"

definition body_hash :: "hold_env \<Rightarrow> string \<Rightarrow> string" where
  "body_hash he call_args = to_hex he (BODY_DOMAIN @ call_args)"

definition memo_for :: "hold_env \<Rightarrow> string \<Rightarrow> string \<Rightarrow> string option" where
  "memo_for he tx_type call_args =
     (if tx_type \<notin> set USER_TYPES then None
      else case strip_prefix ''hold_'' tx_type of
        None \<Rightarrow> None
      | Some op \<Rightarrow> Some (''hold:'' @ op @ '':'' @ body_hash he call_args))"

definition hold_id :: "hold_env \<Rightarrow> string \<Rightarrow> string" where
  "hold_id he tx_hash = ''hold'' @ take 16 (to_hex he (ID_DOMAIN @ tx_hash))"

definition is_id :: "string \<Rightarrow> bool" where
  "is_id s \<longleftrightarrow> length s = 20 \<and> starts_with s ''hold'' \<and> list_all is_hexdigit (drop 4 s)"

definition is_tx_hash :: "string \<Rightarrow> bool" where
  "is_tx_hash s \<longleftrightarrow> length s = 66 \<and> starts_with s ''0x'' \<and> list_all is_hexdigit (drop 2 s)"

subsection \<open>Well-formed transactions\<close>

definition check_request :: "string \<Rightarrow> request_body \<Rightarrow> rule_error + unit" where
  "check_request from b =
     (let listed = rq_theft b @ rq_hops b in
      if \<not> valid_addr (rq_victim b) then Inl ''the request names no victim''
      else if rq_theft b = [] \<or> MAX_TXS < length (rq_theft b) + length (rq_hops b) then Inl ''a request lists between 1 and 64 transactions''
      else if \<not> (list_all is_tx_hash listed \<and> distinct listed) then Inl ''each listed transaction is a distinct transaction hash''
      else if trims_to_nothing (rq_case b) \<or> MAX_TEXT_BYTES < length (rq_case b) then Inl ''the case is between 1 and 2000 bytes''
      else if rq_bond b < MIN_BOND_UEGOC then Inl ''the bond is at least 100 EGOC''
      else if from = [] then Inl ''the request has no sender''
      else Inr ())"

definition well_formed :: "hold_env \<Rightarrow> ledger_tx \<Rightarrow> rule_error + unit" where
  "well_formed he tx =
     (if \<not> is_hold_op tx then Inl ''not a hold transaction''
      else if lt_from tx = [] \<or> lt_to tx \<noteq> lt_from tx \<or> lt_amount tx \<noteq> 0 then Inl ''a hold transaction is a zero-amount transaction to the sender itself''
      else if MAX_BODY_BYTES < length (lt_call_args tx) then Inl ''the body is longer than 16384 bytes''
      else if lt_memo tx \<noteq> memo_for he (lt_type tx) (lt_call_args tx) then Inl ''the memo does not commit to the body''
      else if lt_type tx = TX_REQUEST then
        (if lt_fee tx < REQUEST_FEE_UEGOC then Inl ''a hold request burns a fee of at least 10 EGOC''
         else rbind (readable ''the body is not readable'' (he_read_request he (lt_call_args tx))) (check_request (lt_from tx)))
      else if lt_type tx = TX_VOTE \<or> lt_type tx = TX_NODE_VOTE then
        rbind (readable ''the body is not readable'' (he_read_vote he (lt_call_args tx))) (\<lambda>b.
          if \<not> is_id (vb_id b) \<or> \<not> (vb_phase b = PHASE_CONFIRM \<or> vb_phase b = PHASE_RETURN) then Inl ''the vote names no hold or phase''
          else Inr ())
      else if lt_type tx = TX_APPEAL then
        rbind (readable ''the body is not readable'' (he_read_appeal he (lt_call_args tx))) (\<lambda>b.
          if \<not> is_id (ab_id b) \<or> trims_to_nothing (ab_text b) \<or> MAX_TEXT_BYTES < length (ab_text b) then Inl ''an appeal names a hold and says why in at most 2000 bytes''
          else Inr ())
      else
        rbind (readable ''the body is not readable'' (he_read_id he (lt_call_args tx))) (\<lambda>b.
          if \<not> is_id (ib_id b) then Inl ''the request names no hold'' else Inr ()))"

subsection \<open>Keys and stored values\<close>

definition key :: "string \<Rightarrow> string" where "key parts = ''hold:'' @ parts"
definition hold_key :: "string \<Rightarrow> string" where "hold_key hid = key (''r:'' @ hid)"
definition addr_key :: "string \<Rightarrow> string" where "addr_key addr = key (''a:'' @ addr)"
definition bond_key :: "string \<Rightarrow> string" where "bond_key addr = key (''b:'' @ addr)"
definition lock_key :: "string \<Rightarrow> string" where "lock_key addr = key (''lock:'' @ addr)"
definition tally_key :: "string \<Rightarrow> string \<Rightarrow> string" where "tally_key hid ph = key (''t:'' @ hid @ '':'' @ ph)"
definition vote_key :: "string \<Rightarrow> string \<Rightarrow> string \<Rightarrow> string \<Rightarrow> string" where
  "vote_key hid ph kind voter = key (''v:'' @ hid @ '':'' @ ph @ '':'' @ kind @ '':'' @ voter)"
definition LIVE_KEY :: string where "LIVE_KEY = ''hold:live''"

definition load_hold :: "overlay \<Rightarrow> string \<Rightarrow> hold option" where
  "load_hold ov hid = (case ov_get ov (hold_key hid) of Some (St_Hold h) \<Rightarrow> Some h | _ \<Rightarrow> None)"

definition load_ids :: "overlay \<Rightarrow> string \<Rightarrow> string list" where
  "load_ids ov k = (case ov_get ov k of Some (St_Ids ids) \<Rightarrow> ids | _ \<Rightarrow> [])"

definition live :: "overlay \<Rightarrow> string list" where
  "live ov = load_ids ov LIVE_KEY"

definition my_vote :: "overlay \<Rightarrow> string \<Rightarrow> string \<Rightarrow> bool \<Rightarrow> string \<Rightarrow> bool option" where
  "my_vote ov hid ph node voter =
     (case ov_get ov (vote_key hid ph (if node then ''n'' else ''s'') voter) of
        None \<Rightarrow> None
      | Some (St_Flag b) \<Rightarrow> Some b
      | Some _ \<Rightarrow> Some False)"

definition tally_of :: "overlay \<Rightarrow> string \<Rightarrow> string \<Rightarrow> hold_tally" where
  "tally_of ov hid ph = (case ov_get ov (tally_key hid ph) of Some (St_Tally t) \<Rightarrow> t | _ \<Rightarrow> default_tally)"

subsection \<open>Outcomes and phases\<close>

text \<open>The products are taken in \<open>u128\<close>, where they cannot overflow.\<close>

definition outcome_of :: "hold_tally \<Rightarrow> hold \<Rightarrow> outcome" where
  "outcome_of t h =
     (let stake_cast = sat_add (ty_stake_yes t) (ty_stake_no t);
          node_cast = sat_add (ty_node_yes t) (ty_node_no t);
          stake_quorum = (MIN_VOTERS \<le> ty_stake_voters t \<and> unat (hd_stake_total h) * MIN_STAKE_PERCENT \<le> unat stake_cast * 100);
          node_quorum = (MIN_VOTERS \<le> ty_node_voters t \<and> unat (hd_node_total h) * MIN_NODE_PERCENT \<le> unat node_cast * 100);
          two_thirds = (\<lambda>yes cast. unat (cast :: u64) * 2 \<le> unat (yes :: u64) * 3)
      in if \<not> (stake_quorum \<and> node_quorum) then No_Quorum
         else if two_thirds (ty_stake_yes t) stake_cast \<and> two_thirds (ty_node_yes t) node_cast then Pass
         else Fail)"

definition vote_end :: "hold \<Rightarrow> i64" where
  "vote_end h = i64_sat_add (hd_held_at h) VOTE_SECS"

definition phase_of :: "overlay \<Rightarrow> hold \<Rightarrow> i64 \<Rightarrow> phase" where
  "phase_of ov h now =
     (let later = (if now < i64_sat_add (vote_end h) CONFIRM_SECS then Confirmed else Expired) in
      if hd_held_at h = 0 then
        (if now < i64_sat_add (hd_created h) SIGN_WINDOW_SECS then Signing else Failed)
      else if now < vote_end h then Voting
      else case outcome_of (tally_of ov (hd_id h) PHASE_CONFIRM) h of
        Fail \<Rightarrow> Rejected
      | No_Quorum \<Rightarrow> Lapsed
      | Pass \<Rightarrow>
          if 0 < hd_return_opened h then
            (if now < i64_sat_add (hd_return_opened h) VOTE_SECS then Return_Voting
             else if outcome_of (tally_of ov (hd_id h) PHASE_RETURN) h = Pass then Returned
             else later)
          else later)"

definition ended_at :: "overlay \<Rightarrow> hold \<Rightarrow> i64" where
  "ended_at ov h =
     (case phase_of ov h i64_max of
        Failed \<Rightarrow> i64_sat_add (hd_created h) SIGN_WINDOW_SECS
      | Rejected \<Rightarrow> vote_end h
      | Lapsed \<Rightarrow> vote_end h
      | _ \<Rightarrow> i64_max)"

definition holds_coins :: "phase \<Rightarrow> hold \<Rightarrow> bool" where
  "holds_coins p h \<longleftrightarrow> p \<in> {Voting, Confirmed, Return_Voting} \<or> p = Returned \<and> \<not> hd_paid h"

definition binds_bond :: "phase \<Rightarrow> hold \<Rightarrow> bool" where
  "binds_bond p h \<longleftrightarrow> p \<in> {Signing, Voting} \<or> p = Rejected \<and> \<not> hd_paid h"

definition held_on :: "overlay \<Rightarrow> string \<Rightarrow> i64 \<Rightarrow> u64" where
  "held_on ov addr now =
     foldl sat_add 0
       (map (\<lambda>h. sum_list (map snd (filter (\<lambda>(a, _). a = addr) (hd_amounts h))))
         (filter (\<lambda>h. holds_coins (phase_of ov h now) h)
           (List.map_filter (load_hold ov) (load_ids ov (addr_key addr)))))"

definition bond_on :: "overlay \<Rightarrow> string \<Rightarrow> i64 \<Rightarrow> u64" where
  "bond_on ov addr now =
     (case ov_get ov (bond_key addr) of
        Some (St_Id hid) \<Rightarrow>
          (case load_hold ov hid of
             None \<Rightarrow> 0
           | Some h \<Rightarrow> if binds_bond (phase_of ov h now) h then rq_bond (hd_request h) else 0)
      | _ \<Rightarrow> 0)"

definition locked :: "overlay \<Rightarrow> string \<Rightarrow> i64 \<Rightarrow> u64" where
  "locked ov addr now = sat_add (held_on ov addr now) (bond_on ov addr now)"

definition stake_locked_until :: "overlay \<Rightarrow> string \<Rightarrow> i64" where
  "stake_locked_until ov addr = (case ov_get ov (lock_key addr) of Some (St_Time t) \<Rightarrow> t | _ \<Rightarrow> 0)"

definition cooling :: "overlay \<Rightarrow> string \<Rightarrow> i64 \<Rightarrow> bool" where
  "cooling ov addr now =
     list_ex (\<lambda>h. ended_at ov h \<noteq> i64_max \<and> 0 < hd_held_at h \<and> now < i64_sat_add (ended_at ov h) COOLDOWN_SECS)
       (List.map_filter (load_hold ov) (load_ids ov (addr_key addr)))"

subsection \<open>Settlements\<close>

record settlement =
  se_from :: string
  se_to :: string
  se_owed :: u64

text \<open>
  \<open>max_by\<close> on the amount and then on the smaller address: of two entries that compare equal the
  later one is kept.
\<close>

definition beats :: "string \<times> u64 \<Rightarrow> string \<times> u64 \<Rightarrow> bool" where
  "beats a b \<longleftrightarrow> snd b < snd a \<or> snd b = snd a \<and> fst a < fst b"

fun largest :: "(string \<times> u64) list \<Rightarrow> (string \<times> u64) option" where
  "largest [] = None"
| "largest (x # xs) = Some (foldl (\<lambda>best y. if beats best y then best else y) x xs)"

definition settlements :: "overlay \<Rightarrow> hold \<Rightarrow> i64 \<Rightarrow> settlement list" where
  "settlements ov h now =
     (if hd_paid h then []
      else case phase_of ov h now of
        Rejected \<Rightarrow>
          (case largest (hd_amounts h) of
             None \<Rightarrow> []
           | Some (dest, _) \<Rightarrow> [\<lparr>se_from = hd_requester h, se_to = dest, se_owed = rq_bond (hd_request h)\<rparr>])
      | Returned \<Rightarrow> map (\<lambda>(a, n). \<lparr>se_from = a, se_to = rq_victim (hd_request h), se_owed = n\<rparr>) (hd_amounts h)
      | _ \<Rightarrow> [])"

definition settle_hash :: "hold_env \<Rightarrow> string \<Rightarrow> nat \<Rightarrow> string \<Rightarrow> string \<Rightarrow> u64 \<Rightarrow> string" where
  "settle_hash he hid i from dest amount =
     ''0x'' @ to_hex he (SETTLE_DOMAIN @ hid @ '':'' @ decimal i @ '':'' @ from @ '':'' @ dest @ '':'' @ decimal (unat amount))"

definition settle_memo :: "string \<Rightarrow> nat \<Rightarrow> string" where
  "settle_memo hid i = ''hold:settle:'' @ hid @ '':'' @ decimal i"

definition settle_parts :: "ledger_tx \<Rightarrow> (string \<times> nat) option" where
  "settle_parts tx =
     Option.bind (lt_memo tx) (\<lambda>m.
     Option.bind (strip_prefix ''hold:settle:'' m) (\<lambda>rest.
     Option.bind (rsplit_once CHR '':'' rest) (\<lambda>(hid, i).
     Option.bind (parse_usize i) (\<lambda>n. Some (hid, n)))))"

definition is_settle :: "ledger_tx \<Rightarrow> bool" where
  "is_settle tx \<longleftrightarrow> lt_type tx = TX_SETTLE"

definition settle_is_well_formed :: "hold_env \<Rightarrow> ledger_tx \<Rightarrow> bool" where
  "settle_is_well_formed he tx \<longleftrightarrow>
     is_settle tx \<and> lt_signature tx = ''hold'' \<and> lt_version tx = 3 \<and> lt_nonce tx = 0 \<and> lt_fee tx = 0
     \<and> lt_priority_fee tx = 0 \<and> 0 < lt_amount tx
     \<and> (case settle_parts tx of
          None \<Rightarrow> False
        | Some (hid, i) \<Rightarrow> lt_hash tx = settle_hash he hid i (lt_from tx) (lt_to tx) (lt_amount tx))"

definition settle_tx :: "hold_env \<Rightarrow> u64 \<Rightarrow> i64 \<Rightarrow> string \<Rightarrow> nat \<Rightarrow> settlement \<Rightarrow> u64 \<Rightarrow> ledger_tx" where
  "settle_tx he height now hid i s amount = \<lparr>lt_hash = settle_hash he hid i (se_from s) (se_to s) amount,
     lt_from = se_from s, lt_to = se_to s, lt_amount = amount, lt_memo = Some (settle_memo hid i), lt_timestamp = now,
     lt_signature = ''hold'', lt_status = ''Confirmed'', lt_block_height = Some height, lt_nonce = 0,
     lt_dilithium_pubkey = [], lt_dilithium_signature = [], lt_type = TX_SETTLE,
     lt_fee = 0, lt_priority_fee = 0, lt_call_args = [], lt_version = 3, lt_chain_id = 1, lt_vault_cosig = []\<rparr>"

definition hold_payments :: "hold_env \<Rightarrow> overlay \<Rightarrow> u64 \<Rightarrow> i64 \<Rightarrow> (string \<Rightarrow> u64) \<Rightarrow> string \<Rightarrow> ledger_tx list" where
  "hold_payments he ov height now balance hid =
     (case load_hold ov hid of
        None \<Rightarrow> []
      | Some h \<Rightarrow>
          List.map_filter (\<lambda>(i, s).
            let amount = min (se_owed s) (balance (se_from s))
            in if amount = 0 then None else Some (settle_tx he height now hid i s amount))
            (enumerate 0 (settlements ov h now)))"

definition settle_txs :: "hold_env \<Rightarrow> activation \<Rightarrow> overlay \<Rightarrow> u64 \<Rightarrow> i64 \<Rightarrow> (string \<Rightarrow> u64) \<Rightarrow> ledger_tx list" where
  "settle_txs he act ov height now balance =
     (if \<not> rule_active act height then [] else concat (map (hold_payments he ov height now balance) (live ov)))"

subsection \<open>Certificates\<close>

definition is_cert_tx :: "ledger_tx \<Rightarrow> bool" where
  "is_cert_tx tx \<longleftrightarrow> lt_type tx = TX_CERT \<and> lt_from tx = [] \<and> lt_to tx = NODE_POOL_ADDR \<and> lt_amount tx = 0
     \<and> lt_signature tx = ''coinbase''"

definition check_amounts :: "hold \<Rightarrow> (string \<times> u64) list \<Rightarrow> rule_error + unit" where
  "check_amounts h amounts =
     (if amounts = [] \<or> MAX_HELD < length amounts then Inl ''a hold covers between 1 and 32 addresses''
      else if \<not> list_all (\<lambda>(a, n). valid_addr a \<and> a \<noteq> rq_victim (hd_request h) \<and> n \<noteq> 0) amounts \<or> \<not> distinct (map fst amounts)
      then Inl ''each held address appears once, is not the victim and holds a positive amount''
      else Inr ())"

text \<open>\<open>quorum\<close> of \<^verbatim>\<open>state_cert.rs\<close> and the checks of \<^verbatim>\<open>bls_agg.rs\<close>.\<close>

definition cert_quorum :: "nat \<Rightarrow> nat" where
  "cert_quorum n = n * 2 div 3 + 1"

definition verify_shared :: "hold_env \<Rightarrow> bytes \<Rightarrow> bytes \<Rightarrow> bytes \<Rightarrow> bool" where
  "verify_shared he sig pk msg \<longleftrightarrow> he_pk_ok he pk \<and> he_sig_ok he sig \<and> he_bls_verify he sig pk msg"

definition aggregate_shared :: "hold_env \<Rightarrow> bytes list \<Rightarrow> bytes option" where
  "aggregate_shared he sigs =
     (if sigs = [] \<or> \<not> list_all (he_sig_ok he) sigs then None else he_bls_aggregate he sigs)"

definition verify_shared_aggregate :: "hold_env \<Rightarrow> bytes \<Rightarrow> bytes list \<Rightarrow> bytes \<Rightarrow> bool" where
  "verify_shared_aggregate he sig pks msg \<longleftrightarrow>
     pks \<noteq> [] \<and> he_sig_ok he sig \<and> list_all (he_pk_ok he) pks \<and> he_bls_fast_verify he sig pks msg"

definition body_message :: "hold_env \<Rightarrow> hold_body \<Rightarrow> bytes" where
  "body_message he b = ascii CERT_DOMAIN @ he_blake3 he (he_write_body he b)"

definition verify_cert :: "hold_env \<Rightarrow> hold_cert \<Rightarrow> string list \<Rightarrow> rule_error + unit" where
  "verify_cert he cert keys =
     (if keys = [] \<or> length (hc_signers cert) < cert_quorum (length keys) then Inl ''the hold has too few committee signatures''
      else if \<not> sorted_wrt (<) (hc_signers cert) \<or> \<not> list_all (\<lambda>p. unat p < length keys) (hc_signers cert)
      then Inl ''the hold lists its signers out of order or out of range''
      else let pks = List.map_filter (\<lambda>p. he_unhex he (keys ! unat p)) (hc_signers cert) in
        case he_unhex he (hc_sig cert) of
          None \<Rightarrow> Inl ''the hold signature is not hex''
        | Some sig \<Rightarrow>
            if length pks \<noteq> length (hc_signers cert) \<or> \<not> verify_shared_aggregate he sig pks (body_message he (hc_body cert))
            then Inl ''the hold signature does not verify''
            else Inr ())"

definition vote_ok :: "hold_env \<Rightarrow> hold_body \<Rightarrow> string \<Rightarrow> string \<Rightarrow> string list \<Rightarrow> bool" where
  "vote_ok he body signer sig keys \<longleftrightarrow> signer \<in> set keys \<and>
     (case (he_unhex he signer, he_unhex he sig) of
        (Some pk, Some s) \<Rightarrow> verify_shared he s pk (body_message he body)
      | _ \<Rightarrow> False)"

text \<open>The pairs are already in the order of their index, so sorting them changes nothing.\<close>

definition assemble :: "hold_env \<Rightarrow> hold_body \<Rightarrow> (string \<times> string) list \<Rightarrow> string list \<Rightarrow> hold_cert option" where
  "assemble he body votes keys =
     (let picked = List.map_filter (\<lambda>(i, k).
            Option.bind (find (\<lambda>(s, g). s = k \<and> vote_ok he body s g keys) votes) (\<lambda>(_, sig).
            map_option (\<lambda>b. (of_nat i :: u32, b)) (he_unhex he sig))) (enumerate 0 keys);
          ordered = sort_key fst picked
      in Option.bind (aggregate_shared he (map snd ordered)) (\<lambda>agg.
         let cert = \<lparr>hc_body = body, hc_signers = map fst ordered, hc_sig = he_hex he agg\<rparr>
         in case verify_cert he cert keys of Inl _ \<Rightarrow> None | Inr _ \<Rightarrow> Some cert))"

subsection \<open>Planning a block\<close>

definition subject :: "ledger_tx \<Rightarrow> bool" where
  "subject tx \<longleftrightarrow> lt_from tx \<noteq> [] \<and> \<not> is_reserved_system_source (lt_from tx) \<and> lt_signature tx \<noteq> ''coinbase'' \<and> \<not> is_settle tx"

definition outflow :: "ledger_tx \<Rightarrow> u64" where
  "outflow tx = (if is_unstake_tx tx \<or> lt_to tx = lt_from tx then lt_fee tx else sat_add (lt_amount tx) (lt_fee tx))"

text \<open>\<open>batch_hash\<close> of \<^verbatim>\<open>drs.rs\<close>.\<close>

definition batch_hash :: "hold_env \<Rightarrow> string \<Rightarrow> u64 \<Rightarrow> string \<Rightarrow> string" where
  "batch_hash he kind height call_args = ''0x'' @ to_hex he (kind @ '':'' @ decimal (unat height) @ '':'' @ call_args)"

record planner =
  pl_height :: u64
  pl_now :: i64
  pl_spent :: "string \<rightharpoonup> u64"
  pl_requests :: "string set"
  pl_certs :: "string set"
  pl_voters :: "string set"

definition planner_new :: "u64 \<Rightarrow> i64 \<Rightarrow> planner" where
  "planner_new height now = \<lparr>pl_height = height, pl_now = now, pl_spent = Map.empty, pl_requests = {}, pl_certs = {}, pl_voters = {}\<rparr>"

definition check_cert :: "hold_env \<Rightarrow> overlay \<Rightarrow> ledger_tx \<Rightarrow> planner \<Rightarrow> planner \<times> (rule_error + unit)" where
  "check_cert he ov tx p =
     (if lt_hash tx \<noteq> batch_hash he TX_CERT (pl_height p) (lt_call_args tx)
      then (p, Inl ''the hold certificate is not bound to this block'')
      else case he_read_cert he (lt_call_args tx) of
        None \<Rightarrow> (p, Inl ''the hold certificate is unreadable'')
      | Some cert \<Rightarrow>
          let hid = hb_id (hc_body cert) in
          if hid \<in> pl_certs p then (p, Inl ''one certificate per hold'')
          else (p\<lparr>pl_certs := insert hid (pl_certs p)\<rparr>,
            case load_hold ov hid of
              None \<Rightarrow> Inl ''the certificate names no hold''
            | Some h \<Rightarrow>
                if phase_of ov h (pl_now p) \<noteq> Signing then Inl ''the hold is not waiting for its committee''
                else rbind (check_amounts h (hb_amounts (hc_body cert))) (\<lambda>_. verify_cert he cert (hd_keys h))))"

text \<open>
  The coins a sender must keep: what is locked, and the bond of a request that is being judged.
  The second component says that the sender already has an open request.
\<close>

definition request_need :: "hold_env \<Rightarrow> overlay \<Rightarrow> ledger_tx \<Rightarrow> planner \<Rightarrow> planner \<times> u64 \<times> bool" where
  "request_need he ov tx p =
     (let need = locked ov (lt_from tx) (pl_now p) in
      if lt_type tx = TX_REQUEST then
        (case he_read_request he (lt_call_args tx) of
           None \<Rightarrow> (p, need, False)
         | Some b \<Rightarrow> (p\<lparr>pl_requests := insert (lt_from tx) (pl_requests p)\<rparr>, sat_add need (rq_bond b),
             lt_from tx \<in> pl_requests p \<or> 0 < bond_on ov (lt_from tx) (pl_now p)))
      else (p, need, False))"

definition judge_coins :: "hold_env \<Rightarrow> overlay \<Rightarrow> (string \<Rightarrow> u64) \<Rightarrow> ledger_tx \<Rightarrow> planner \<Rightarrow> planner \<times> fit" where
  "judge_coins he ov balance tx p =
     (let (q, need, open_request) = request_need he ov tx p; from = lt_from tx in
      if open_request then (q, Fit_Never ''the sender already has an open hold request'')
      else if need = 0 \<and> from \<notin> pl_requests q then (q, Fit_Yes)
      else let spent = sat_add (case pl_spent q from of None \<Rightarrow> 0 | Some s \<Rightarrow> s) (outflow tx) in
        if sat_sub (balance from) spent < need then (q, Fit_Later ''the coins are held by a theft hold or a hold bond'')
        else (q\<lparr>pl_spent := (pl_spent q)(from \<mapsto> spent)\<rparr>, Fit_Yes))"

definition note_voter :: "ledger_tx \<Rightarrow> planner \<Rightarrow> planner" where
  "note_voter tx p = (if lt_type tx = TX_VOTE then p\<lparr>pl_voters := insert (lt_from tx) (pl_voters p)\<rparr> else p)"

definition judge :: "hold_env \<Rightarrow> overlay \<Rightarrow> (string \<Rightarrow> u64) \<Rightarrow> ledger_tx \<Rightarrow> planner \<Rightarrow> planner \<times> fit" where
  "judge he ov balance tx p0 =
     (case (if is_hold_op tx then well_formed he tx else Inr ()) of
        Inl e \<Rightarrow> (p0, Fit_Never e)
      | Inr _ \<Rightarrow>
          let p = (if is_hold_op tx then note_voter tx p0 else p0) in
          if is_cert_tx tx then
            (case check_cert he ov tx p of (q, Inr _) \<Rightarrow> (q, Fit_Yes) | (q, Inl e) \<Rightarrow> (q, Fit_Never e))
          else if is_settle tx then (p, Fit_Yes)
          else if is_unstake_tx tx \<and> lt_from tx \<in> pl_voters p then
            (p, Fit_Later ''the sender votes on a hold with this stake in this block'')
          else if is_unstake_tx tx \<and> pl_now p < stake_locked_until ov (lt_from tx) then
            (p, Fit_Later ''the stake is locked by a hold vote'')
          else if \<not> subject tx then (p, Fit_Yes)
          else judge_coins he ov balance tx p)"

definition fit_of :: "hold_env \<Rightarrow> activation \<Rightarrow> overlay \<Rightarrow> (string \<Rightarrow> u64) \<Rightarrow> ledger_tx \<Rightarrow> planner \<Rightarrow> planner \<times> fit" where
  "fit_of he act ov balance tx p =
     (let active = rule_active act (pl_height p) in
      if (is_hold_op tx \<or> is_cert_tx tx \<or> is_settle tx) \<and> \<not> active then (p, Fit_Later ''theft holds start at block'')
      else if \<not> active then (p, Fit_Yes)
      else judge he ov balance tx p)"

fun plan_all :: "hold_env \<Rightarrow> activation \<Rightarrow> overlay \<Rightarrow> (string \<Rightarrow> u64) \<Rightarrow> ledger_tx list \<Rightarrow> planner \<Rightarrow> rule_error + planner" where
  "plan_all he act ov balance [] p = Inr p"
| "plan_all he act ov balance (tx # txs) p =
     (if \<not> rule_active act (pl_height p) \<and> (is_hold_op tx \<or> is_cert_tx tx \<or> is_settle tx)
      then Inl ''refused: theft holds are not active''
      else case fit_of he act ov balance tx p of
        (q, Fit_Yes) \<Rightarrow> plan_all he act ov balance txs q
      | (_, Fit_Later e) \<Rightarrow> Inl e
      | (_, Fit_Never e) \<Rightarrow> Inl e)"

text \<open>The payments that are due, by their hash; a later one with the same hash replaces an earlier one.\<close>

definition expected_payments :: "ledger_tx list \<Rightarrow> (string \<times> ledger_tx) list" where
  "expected_payments txs = fold (\<lambda>tx m. AList.update (lt_hash tx) tx m) txs []"

definition check_payment :: "hold_env \<Rightarrow> (string \<times> ledger_tx) list \<Rightarrow> ledger_tx \<Rightarrow> rule_error + unit" where
  "check_payment he expected tx =
     (if \<not> settle_is_well_formed he tx then Inl ''hold settlement is malformed''
      else case map_of expected (lt_hash tx) of
        None \<Rightarrow> Inl ''hold settlement is not due''
      | Some e \<Rightarrow>
          if lt_from e \<noteq> lt_from tx \<or> lt_to e \<noteq> lt_to tx \<or> lt_amount e \<noteq> lt_amount tx
          then Inl ''hold settlement does not match what is due''
          else Inr ())"

fun check_payments :: "hold_env \<Rightarrow> (string \<times> ledger_tx) list \<Rightarrow> ledger_tx list \<Rightarrow> rule_error + unit" where
  "check_payments he expected [] = Inr ()"
| "check_payments he expected (tx # txs) = rbind (check_payment he expected tx) (\<lambda>_. check_payments he expected txs)"

definition settle_hold :: "ledger_tx \<Rightarrow> string" where
  "settle_hold tx = (case settle_parts tx of None \<Rightarrow> [] | Some (hid, _) \<Rightarrow> hid)"

definition payments_for :: "string \<Rightarrow> ledger_tx list \<Rightarrow> nat" where
  "payments_for hid txs = length (filter (\<lambda>t. case settle_parts t of None \<Rightarrow> False | Some (i, _) \<Rightarrow> i = hid) txs)"

definition check_complete :: "(string \<times> ledger_tx) list \<Rightarrow> ledger_tx list \<Rightarrow> rule_error + unit" where
  "check_complete expected settles =
     (if list_all (\<lambda>hid. length (filter (\<lambda>t. settle_hold t = hid) settles) = payments_for hid (map snd expected))
           (map settle_hold settles)
      then Inr () else Inl ''hold settles some of its payments; all go in one block'')"

definition hold_validate :: "hold_env \<Rightarrow> activation \<Rightarrow> overlay \<Rightarrow> ledger_block \<Rightarrow> ledger_tx list \<Rightarrow> (string \<Rightarrow> u64) \<Rightarrow> rule_error + unit" where
  "hold_validate he act ov block txs balance =
     rbind (plan_all he act ov balance txs (planner_new (lb_height block) (lb_timestamp block))) (\<lambda>_.
     let settles = filter is_settle txs;
         expected = expected_payments (settle_txs he act ov (lb_height block) (lb_timestamp block) balance)
     in if \<not> rule_active act (lb_height block) \<or> settles = [] then Inr ()
        else rbind (check_payments he expected settles) (\<lambda>_. check_complete expected settles))"

subsection \<open>The operations\<close>

text \<open>
  Every operation returns its errors before the first write, so an error stands for the overlay
  as it was.
\<close>

definition still_live :: "overlay \<Rightarrow> i64 \<Rightarrow> string \<Rightarrow> bool" where
  "still_live ov now hid =
     (case load_hold ov hid of
        None \<Rightarrow> False
      | Some h \<Rightarrow> let p = phase_of ov h now in
          p \<notin> {Failed, Lapsed, Expired} \<and> \<not> (p \<in> {Rejected, Returned} \<and> hd_paid h))"

definition add_live :: "string \<Rightarrow> i64 \<Rightarrow> overlay \<Rightarrow> rule_error + overlay" where
  "add_live hid now ov =
     (let ids = (if MAX_LIVE \<le> length (live ov) then filter (still_live ov now) (live ov) else live ov) in
      if MAX_LIVE \<le> length ids then Inl ''too many holds are open across the network right now''
      else Inr (ov_put LIVE_KEY (St_Ids (ids @ [hid])) ov))"

text \<open>What the pool of nodes provides: \<^verbatim>\<open>drs.rs\<close>, \<^verbatim>\<open>state_cert.rs\<close> and \<^verbatim>\<open>dao_chain.rs\<close>.\<close>

definition period_of :: "u64 \<Rightarrow> u64" where
  "period_of height = (height + 50) div 100"

definition version_at :: "versioned \<Rightarrow> u64 \<Rightarrow> u64" where
  "version_at v period = (if ve_from v \<le> period then ve_next v else ve_active v)"

definition node_count :: "overlay \<Rightarrow> u64" where
  "node_count ov = load_u64 ov ''n2count''"

definition load_rec :: "overlay \<Rightarrow> string \<Rightarrow> node_rec option" where
  "load_rec ov addr = (case ov_get ov (''n2rec:'' @ addr) of Some (St_Rec r) \<Rightarrow> Some r | _ \<Rightarrow> None)"

text \<open>The root of the tree of weights is at level 8.\<close>

definition pool_total_weight :: "overlay \<Rightarrow> u64 \<Rightarrow> u64" where
  "pool_total_weight ov period =
     (case ov_get ov ''n2t:08:0000000000000000'' of Some (St_Versioned v) \<Rightarrow> version_at v period | _ \<Rightarrow> 0)"

definition CERT_COMMITTEE :: nat where "CERT_COMMITTEE = 128"

fun draw_keys :: "overlay \<Rightarrow> string list \<Rightarrow> string list \<Rightarrow> string list" where
  "draw_keys ov [] keys = keys"
| "draw_keys ov (addr # addrs) keys =
     (if CERT_COMMITTEE \<le> length keys then keys
      else case load_rec ov addr of
        None \<Rightarrow> draw_keys ov addrs keys
      | Some r \<Rightarrow>
          if nr_pop_key r \<noteq> [] \<and> nr_pop_key r \<notin> set keys then draw_keys ov addrs (keys @ [nr_pop_key r])
          else draw_keys ov addrs keys)"

definition draw_answering :: "hold_env \<Rightarrow> overlay \<Rightarrow> u64 \<Rightarrow> string list" where
  "draw_answering he ov height = draw_keys ov (he_draw_pool he ov height) []"

definition new_hold :: "string \<Rightarrow> string \<Rightarrow> request_body \<Rightarrow> ledger_block \<Rightarrow> string list \<Rightarrow> hold" where
  "new_hold hid from b block keys = \<lparr>hd_id = hid, hd_requester = from, hd_request = b, hd_created = lb_timestamp block,
     hd_height = lb_height block, hd_keys = keys, hd_amounts = [], hd_held_at = 0, hd_stake_total = 0, hd_node_total = 0,
     hd_appeals = [], hd_return_opened = 0, hd_paid = False\<rparr>"

definition op_request :: "hold_env \<Rightarrow> ledger_block \<Rightarrow> ledger_tx \<Rightarrow> overlay \<Rightarrow> rule_error + overlay" where
  "op_request he block tx ov =
     rbind (readable ''unreadable'' (he_read_request he (lt_call_args tx))) (\<lambda>b.
     if node_count ov < MIN_NODE_POOL then Inl ''theft holds need at least 64 nodes in the pool''
     else if 0 < bond_on ov (lt_from tx) (lb_timestamp block) then Inl ''the sender already has an open hold request''
     else let keys = draw_answering he ov (lb_height block); hid = hold_id he (lt_hash tx) in
       if length keys < 4 then Inl ''no committee can be drawn for a hold right now''
       else if load_hold ov hid \<noteq> None then Inl ''this hold exists''
       else rbind (add_live hid (lb_timestamp block) ov) (\<lambda>ov1.
         Inr (ov_put (bond_key (lt_from tx)) (St_Id hid)
               (ov_put (hold_key hid) (St_Hold (new_hold hid (lt_from tx) b block keys)) ov1))))"

text \<open>The holds on an address that still count against its limit.\<close>

definition recent_ids :: "overlay \<Rightarrow> string \<Rightarrow> i64 \<Rightarrow> string list" where
  "recent_ids ov addr now =
     filter (\<lambda>i. case load_hold ov i of
                   None \<Rightarrow> False
                 | Some o' \<Rightarrow> ended_at ov o' = i64_max \<or> now < i64_sat_add (ended_at ov o') COOLDOWN_SECS)
       (load_ids ov (addr_key addr))"

fun hold_addresses :: "string \<Rightarrow> i64 \<Rightarrow> (string \<times> u64) list \<Rightarrow> overlay \<Rightarrow> overlay \<times> (string \<times> u64) list" where
  "hold_addresses hid now [] ov = (ov, [])"
| "hold_addresses hid now ((a, n) # rest) ov =
     (if cooling ov a now \<or> MAX_HOLDS_PER_ADDR \<le> length (recent_ids ov a now) then hold_addresses hid now rest ov
      else let (ov', held) = hold_addresses hid now rest (ov_put (addr_key a) (St_Ids (recent_ids ov a now @ [hid])) ov)
           in (ov', (a, n) # held))"

definition apply_cert :: "hold_env \<Rightarrow> ledger_block \<Rightarrow> u64 \<Rightarrow> ledger_tx \<Rightarrow> overlay \<Rightarrow> rule_error + overlay" where
  "apply_cert he block staked tx ov =
     rbind (readable ''unreadable'' (he_read_cert he (lt_call_args tx))) (\<lambda>cert.
     rbind (readable ''no such hold'' (load_hold ov (hb_id (hc_body cert)))) (\<lambda>h.
     let (ov1, amounts) = hold_addresses (hd_id h) (lb_timestamp block) (hb_amounts (hc_body cert)) ov;
         h1 = h\<lparr>hd_amounts := amounts, hd_held_at := lb_timestamp block, hd_stake_total := staked,
                hd_node_total := pool_total_weight ov1 (period_of (lb_height block))\<rparr>
     in Inr (ov_put (hold_key (hd_id h)) (St_Hold h1) ov1)))"

definition voter_weight :: "overlay \<Rightarrow> ledger_block \<Rightarrow> string \<Rightarrow> bool \<Rightarrow> rule_error + u64" where
  "voter_weight ov block from node =
     (if node then
        (case load_rec ov from of
           None \<Rightarrow> Inl ''only a node in the pool casts a node vote''
         | Some r \<Rightarrow> Inr (version_at (nr_weight r) (period_of (lb_height block))))
      else Inr (stake_of ov from))"

definition count_vote :: "bool \<Rightarrow> u64 \<Rightarrow> bool \<Rightarrow> hold_tally \<Rightarrow> hold_tally" where
  "count_vote node weight yes t =
     (if node then
        (let t1 = t\<lparr>ty_node_voters := ty_node_voters t + 1\<rparr> in
         if yes then t1\<lparr>ty_node_yes := sat_add (ty_node_yes t) weight\<rparr> else t1\<lparr>ty_node_no := sat_add (ty_node_no t) weight\<rparr>)
      else
        (let t1 = t\<lparr>ty_stake_voters := ty_stake_voters t + 1\<rparr> in
         if yes then t1\<lparr>ty_stake_yes := sat_add (ty_stake_yes t) weight\<rparr> else t1\<lparr>ty_stake_no := sat_add (ty_stake_no t) weight\<rparr>))"

definition vote_window :: "overlay \<Rightarrow> hold \<Rightarrow> string \<Rightarrow> i64 \<Rightarrow> bool \<times> i64" where
  "vote_window ov h ph now =
     (if ph = PHASE_CONFIRM then (phase_of ov h now = Voting, vote_end h)
      else (phase_of ov h now = Return_Voting, i64_sat_add (hd_return_opened h) VOTE_SECS))"

definition ballot_kind :: "bool \<Rightarrow> string" where
  "ballot_kind node = (if node then ''n'' else ''s'')"

text \<open>The writes of a vote: the lock of the stake, the tally and the mark that the voter has voted.\<close>

definition cast_hold_vote :: "hold \<Rightarrow> vote_body \<Rightarrow> string \<Rightarrow> bool \<Rightarrow> u64 \<Rightarrow> i64 \<Rightarrow> overlay \<Rightarrow> overlay" where
  "cast_hold_vote h b from node weight ends ov =
     (let t = count_vote node weight (vb_yes b) (tally_of ov (hd_id h) (vb_phase b));
          ov1 = (if node then ov else ov_put (lock_key from) (St_Time (max (stake_locked_until ov from) ends)) ov)
      in ov_put (vote_key (hd_id h) (vb_phase b) (ballot_kind node) from) (St_Flag (vb_yes b))
           (ov_put (tally_key (hd_id h) (vb_phase b)) (St_Tally t) ov1))"

definition op_vote :: "hold_env \<Rightarrow> ledger_block \<Rightarrow> ledger_tx \<Rightarrow> bool \<Rightarrow> overlay \<Rightarrow> rule_error + overlay" where
  "op_vote he block tx node ov =
     rbind (readable ''unreadable'' (he_read_vote he (lt_call_args tx))) (\<lambda>b.
     rbind (readable ''no such hold'' (load_hold ov (vb_id b))) (\<lambda>h.
     let (is_open, ends) = vote_window ov h (vb_phase b) (lb_timestamp block) in
     if \<not> is_open then Inl ''that vote is not open''
     else if ov_get ov (vote_key (hd_id h) (vb_phase b) (ballot_kind node) (lt_from tx)) \<noteq> None then Inl ''already voted''
     else rbind (voter_weight ov block (lt_from tx) node) (\<lambda>weight.
       if weight = 0 then Inl ''a vote needs weight''
       else Inr (cast_hold_vote h b (lt_from tx) node weight ends ov))))"

definition op_appeal :: "hold_env \<Rightarrow> ledger_block \<Rightarrow> ledger_tx \<Rightarrow> overlay \<Rightarrow> rule_error + overlay" where
  "op_appeal he block tx ov =
     rbind (readable ''unreadable'' (he_read_appeal he (lt_call_args tx))) (\<lambda>b.
     rbind (readable ''no such hold'' (load_hold ov (ab_id b))) (\<lambda>h.
     if phase_of ov h (lb_timestamp block) \<notin> {Voting, Confirmed, Return_Voting} then Inl ''the hold takes no appeals now''
     else if lt_from tx \<notin> fst ` set (hd_amounts h) \<or> lt_from tx \<in> fst ` set (hd_appeals h) then Inl ''each held address appeals once''
     else Inr (ov_put (hold_key (hd_id h)) (St_Hold (h\<lparr>hd_appeals := hd_appeals h @ [(lt_from tx, ab_text b)]\<rparr>)) ov)))"

definition op_return :: "hold_env \<Rightarrow> ledger_block \<Rightarrow> ledger_tx \<Rightarrow> overlay \<Rightarrow> rule_error + overlay" where
  "op_return he block tx ov =
     rbind (readable ''unreadable'' (he_read_id he (lt_call_args tx))) (\<lambda>b.
     rbind (readable ''no such hold'' (load_hold ov (ib_id b))) (\<lambda>h.
     if rq_victim (hd_request h) \<noteq> lt_from tx \<or> 0 < hd_return_opened h \<or> phase_of ov h (lb_timestamp block) \<noteq> Confirmed
     then Inl ''only the victim opens one return vote on a confirmed hold''
     else Inr (ov_put (hold_key (hd_id h)) (St_Hold (h\<lparr>hd_return_opened := lb_timestamp block\<rparr>)) ov)))"

definition apply_op :: "hold_env \<Rightarrow> ledger_block \<Rightarrow> ledger_tx \<Rightarrow> overlay \<Rightarrow> rule_error + overlay" where
  "apply_op he block tx ov =
     rbind (well_formed he tx) (\<lambda>_.
     if lt_type tx = TX_REQUEST then op_request he block tx ov
     else if lt_type tx = TX_VOTE then op_vote he block tx False ov
     else if lt_type tx = TX_NODE_VOTE then op_vote he block tx True ov
     else if lt_type tx = TX_APPEAL then op_appeal he block tx ov
     else op_return he block tx ov)"

subsection \<open>Applying a block\<close>

definition mark_paid :: "string \<Rightarrow> overlay \<Rightarrow> overlay" where
  "mark_paid hid ov =
     (case load_hold ov hid of
        None \<Rightarrow> ov
      | Some h \<Rightarrow> ov_put (hold_key hid) (St_Hold (h\<lparr>hd_paid := True\<rparr>)) ov)"

definition keep_on_error :: "(overlay \<Rightarrow> rule_error + overlay) \<Rightarrow> overlay \<Rightarrow> overlay" where
  "keep_on_error f ov = (case f ov of Inl _ \<Rightarrow> ov | Inr ov' \<Rightarrow> ov')"

text \<open>\<open>BTreeSet\<close> holds each identifier once, in order.\<close>

definition paid_ids :: "ledger_tx list \<Rightarrow> string list" where
  "paid_ids txs = sort (remdups (map fst (List.map_filter settle_parts (filter is_settle txs))))"

definition apply_effects :: "hold_env \<Rightarrow> ledger_block \<Rightarrow> ledger_tx list \<Rightarrow> u64 \<Rightarrow> overlay \<Rightarrow> overlay" where
  "apply_effects he block txs staked ov =
     (let ov1 = fold mark_paid (paid_ids txs) ov;
          ov2 = fold (\<lambda>tx. keep_on_error (apply_cert he block staked tx)) (filter is_cert_tx txs) ov1
      in fold (\<lambda>tx. keep_on_error (apply_op he block tx)) (filter is_hold_op txs) ov2)"

definition hold_apply_block :: "hold_env \<Rightarrow> activation \<Rightarrow> ledger_block \<Rightarrow> ledger_tx list \<Rightarrow> u64 \<Rightarrow> overlay \<Rightarrow> overlay" where
  "hold_apply_block he act block txs staked ov =
     (if \<not> rule_active act (lb_height block) then ov else apply_effects he block txs staked ov)"

text \<open>
  Admission to the pool of transactions: the height of the chain, the committed overlay and
  balances and the clock are arguments.
\<close>

definition hold_admit :: "hold_env \<Rightarrow> activation \<Rightarrow> u64 \<Rightarrow> overlay \<Rightarrow> (string \<Rightarrow> u64) \<Rightarrow> i64 \<Rightarrow> ledger_tx \<Rightarrow> rule_error + unit" where
  "hold_admit he act tip ov balance now tx =
     (let active = rule_active act (sat_add tip 1) in
      if is_settle tx \<or> is_cert_tx tx then Inl ''transactions are made by block producers only''
      else rbind (if is_hold_op tx
                  then if \<not> active then Inl ''refused: theft holds are not active yet'' else well_formed he tx
                  else Inr ()) (\<lambda>_.
      if \<not> active \<or> \<not> subject tx then Inr ()
      else if is_unstake_tx tx \<and> now < stake_locked_until ov (lt_from tx) then Inl ''HOLD_LOCKED: your stake is locked by a hold vote''
      else if lt_type tx = TX_REQUEST \<and> 0 < bond_on ov (lt_from tx) now then Inl ''you already have an open hold request''
      else let need = (if lt_type tx = TX_REQUEST
                       then sat_add (locked ov (lt_from tx) now) (case he_read_request he (lt_call_args tx) of None \<Rightarrow> 0 | Some b \<Rightarrow> rq_bond b)
                       else locked ov (lt_from tx) now)
           in if 0 < need \<and> sat_sub (balance (lt_from tx)) (outflow tx) < need
              then Inl ''HOLD_LOCKED: coins of this wallet are held by a theft hold or a hold bond''
              else Inr ()))"

end
