(* ===== verification/Hold_Plan.thy ===== *)
theory Hold_Plan
  imports Hold_Chain
begin

section \<open>Planning blocks around holds\<close>

text \<open>
  What a block that validates does to locked coins: the coins of a hold and of a bond that stand
  before the block stay, and a bond that is posted in the block need not be covered.
\<close>

subsection \<open>What the planner guarantees\<close>

definition spent_by :: "planner \<Rightarrow> string \<Rightarrow> nat" where
  "spent_by p a = (case pl_spent p a of None \<Rightarrow> 0 | Some s \<Rightarrow> unat s)"

text \<open>What the transactions of a list take out of an address.\<close>

definition taken_from :: "string \<Rightarrow> ledger_tx list \<Rightarrow> nat" where
  "taken_from a txs = sum_list (map (\<lambda>tx. unat (outflow tx)) (filter (\<lambda>tx. subject tx \<and> lt_from tx = a) txs))"

lemma taken_from_simps [simp]:
  "taken_from a [] = 0"
  "taken_from a (tx # txs) = (if subject tx \<and> lt_from tx = a then unat (outflow tx) else 0) + taken_from a txs"
  by (simp_all add: taken_from_def)

lemma request_need_spent:
  assumes "request_need he ov tx p = (q, need, b)"
  shows "pl_spent q = pl_spent p" "pl_now q = pl_now p" "pl_height q = pl_height p" "locked ov (lt_from tx) (pl_now p) \<le> need"
  using assms by (auto simp: request_need_def Let_def split: if_splits option.splits)

lemma sat_add_below:
  fixes x y b :: u64
  assumes "0 < n" "n \<le> sat_sub b (sat_add x y)"
  shows "unat (sat_add x y) = unat x + unat y" "unat x + unat y + unat n \<le> unat b"
proof -
  have n: "unat n \<le> unat b - unat (sat_add x y)" "0 < unat n"
    using assms by (simp_all add: word_le_nat_alt word_less_nat_alt unat_sat_sub)
  then have "unat (sat_add x y) < unat b" by simp
  also have "\<dots> \<le> 2 ^ 64 - 1" using unsigned_less [of b, where 'a = nat] by simp
  finally show s: "unat (sat_add x y) = unat x + unat y" by (simp add: unat_sat_add min_def split: if_splits)
  with n show "unat x + unat y + unat n \<le> unat b" by simp
qed

lemma judge_coins_spent:
  assumes "judge_coins he ov balance tx p = (q, Fit_Yes)"
  shows "pl_now q = pl_now p" "pl_height q = pl_height p" "lt_from tx \<noteq> a \<Longrightarrow> spent_by q a = spent_by p a"
    "lt_from tx = a \<Longrightarrow> 0 < locked ov a (pl_now p) \<Longrightarrow> spent_by q a = spent_by p a + unat (outflow tx)
       \<and> spent_by q a + unat (locked ov a (pl_now p)) \<le> unat (balance a)"
proof -
  obtain r need b where r: "request_need he ov tx p = (r, need, b)" by (cases "request_need he ov tx p")
  note rn = request_need_spent [OF r]
  let ?s = "sat_add (case pl_spent r (lt_from tx) of None \<Rightarrow> 0 | Some s \<Rightarrow> s) (outflow tx)"
  have nb: "\<not> b" using assms by (auto simp: judge_coins_def r)
  consider (free) "need = 0" "q = r"
    | (held) "\<not> sat_sub (balance (lt_from tx)) ?s < need" "q = r\<lparr>pl_spent := (pl_spent r)(lt_from tx \<mapsto> ?s)\<rparr>"
    using assms nb unfolding judge_coins_def r Let_def prod.case by (auto split: if_splits)
  note c = this
  show "pl_now q = pl_now p" "pl_height q = pl_height p" using c rn by (cases; simp)+
  show "spent_by q a = spent_by p a" if "lt_from tx \<noteq> a" using c
    by cases (use that rn in \<open>simp_all add: spent_by_def\<close>)
  assume a: "lt_from tx = a" and l: "0 < locked ov a (pl_now p)"
  from c show "spent_by q a = spent_by p a + unat (outflow tx) \<and> spent_by q a + unat (locked ov a (pl_now p)) \<le> unat (balance a)"
  proof cases
    case free
    with rn(4) l a show ?thesis by simp
  next
    case held
    then have "locked ov a (pl_now p) \<le> sat_sub (balance a) ?s" using rn(4) a by simp
    from sat_add_below [OF l this] held(2) rn(1) a show ?thesis
      by (auto simp: spent_by_def split: option.splits)
  qed
qed

lemma note_voter_spent: "pl_spent (note_voter tx p) = pl_spent p" "pl_now (note_voter tx p) = pl_now p" "pl_height (note_voter tx p) = pl_height p"
  by (simp_all add: note_voter_def)

lemma check_cert_spent:
  assumes "check_cert he ov tx p = (q, r)"
  shows "pl_spent q = pl_spent p" "pl_now q = pl_now p" "pl_height q = pl_height p"
  using assms by (auto simp: check_cert_def Let_def split: if_splits option.splits)

text \<open>An accepted transaction either left the coins alone or passed the check of the coins.\<close>

lemma judge_cases:
  assumes "judge he ov balance tx p = (q, Fit_Yes)"
  obtains (other) "\<not> subject tx" "pl_spent q = pl_spent p" "pl_now q = pl_now p" "pl_height q = pl_height p"
  | (coins) r where "subject tx" "judge_coins he ov balance tx r = (q, Fit_Yes)"
      "pl_spent r = pl_spent p" "pl_now r = pl_now p" "pl_height r = pl_height p"
proof -
  obtain r where r: "r = (if is_hold_op tx then note_voter tx p else p)" by blast
  have same: "pl_spent r = pl_spent p" "pl_now r = pl_now p" "pl_height r = pl_height p" by (simp_all add: r note_voter_spent)
  have w: "(if is_hold_op tx then well_formed he tx else Inr ()) = Inr ()"
    using assms unfolding judge_def by (cases "if is_hold_op tx then well_formed he tx else Inr ()") simp_all
  note body = assms [unfolded judge_def w sum.case Let_def, folded r]
  consider (cert) "is_cert_tx tx" | (plain) "\<not> is_cert_tx tx" "\<not> subject tx" | (sub) "\<not> is_cert_tx tx" "subject tx" by blast
  then show thesis
  proof cases
    case cert
    obtain s u where c: "check_cert he ov tx r = (s, u)" by (cases "check_cert he ov tx r")
    with body [unfolded if_P [OF cert]] have "s = q" by (cases u) simp_all
    with check_cert_spent [OF c] same cert show thesis
      by (intro other) (simp_all add: is_cert_tx_def subject_def)
  next
    case plain
    with body [unfolded if_not_P [OF plain(1)]] have "q = r" by (simp split: if_splits)
    with plain same show thesis by (intro other) simp_all
  next
    case sub
    then have "\<not> is_settle tx" by (simp add: subject_def)
    with body [unfolded if_not_P [OF sub(1)]] sub(2) have "judge_coins he ov balance tx r = (q, Fit_Yes)" by (simp split: if_splits)
    with sub same show thesis by (intro coins)
  qed
qed

lemma plan_all_Cons:
  assumes "plan_all he act ov balance (tx # txs) p = Inr q" "rule_active act (pl_height p)"
  obtains r where "judge he ov balance tx p = (r, Fit_Yes)" "plan_all he act ov balance txs r = Inr q"
  using assms by (auto simp: fit_of_def split: prod.splits fit.splits)

lemma plan_all_spent:
  assumes "plan_all he act ov balance txs p = Inr q" "rule_active act (pl_height p)" "0 < locked ov a (pl_now p)"
  shows "spent_by q a = spent_by p a + taken_from a txs
    \<and> ((\<exists>tx \<in> set txs. subject tx \<and> lt_from tx = a) \<longrightarrow> spent_by q a + unat (locked ov a (pl_now p)) \<le> unat (balance a))"
  using assms
proof (induction txs arbitrary: p)
  case (Cons tx txs)
  obtain r where r: "judge he ov balance tx p = (r, Fit_Yes)" "plan_all he act ov balance txs r = Inr q"
    using plan_all_Cons [OF Cons.prems(1,2)] .
  show ?case using r(1)
  proof (cases rule: judge_cases)
    case other
    then have "spent_by r a = spent_by p a" by (simp add: spent_by_def)
    moreover have "rule_active act (pl_height r)" "0 < locked ov a (pl_now r)" using Cons.prems(2,3) other by simp_all
    ultimately show ?thesis using Cons.IH [OF r(2)] other(1,3) by auto
  next
    case (coins s)
    have s: "spent_by s a = spent_by p a" using coins(3) by (simp add: spent_by_def)
    note js = judge_coins_spent(1,2) [OF coins(2)] judge_coins_spent(3,4) [OF coins(2), of a]
    have "rule_active act (pl_height r)" "0 < locked ov a (pl_now r)" using Cons.prems(2,3) js(1,2) coins(4,5) by simp_all
    note ih' = Cons.IH [OF r(2) this]
    have ih: "spent_by q a = spent_by r a + taken_from a txs"
      "(\<exists>tx \<in> set txs. subject tx \<and> lt_from tx = a) \<longrightarrow> spent_by q a + unat (locked ov a (pl_now p)) \<le> unat (balance a)"
      using ih' js(1) coins(4) by auto
    show ?thesis
    proof (cases "lt_from tx = a")
      case False
      with ih js(3) s show ?thesis by auto
    next
      case True
      with js(4) coins Cons.prems(3) s have *: "spent_by r a = spent_by p a + unat (outflow tx)"
        "spent_by r a + unat (locked ov a (pl_now p)) \<le> unat (balance a)" by simp_all
      show ?thesis
      proof (cases "\<exists>tx \<in> set txs. subject tx \<and> lt_from tx = a")
        case False
        then have "taken_from a txs = 0" by (auto simp: taken_from_def filter_empty_conv)
        with ih(1) * coins(1) True show ?thesis by simp
      qed (use ih * coins(1) True in simp)
    qed
  qed
qed simp

text \<open>
  C4. A block that validates leaves held coins where they are: what its transactions take out of an
  address that takes part in them, together with what a hold or a bond locks there, is at most
  the balance before the block.
\<close>

theorem held_coins_stay:
  assumes "hold_validate he act ov block txs balance = Inr ()" "rule_active act (lb_height block)"
    and "0 < locked ov a (lb_timestamp block)" "tx \<in> set txs" "subject tx" "lt_from tx = a"
  shows "taken_from a txs + unat (locked ov a (lb_timestamp block)) \<le> unat (balance a)"
proof -
  obtain q where q: "plan_all he act ov balance txs (planner_new (lb_height block) (lb_timestamp block)) = Inr q"
    using assms(1) by (auto simp: hold_validate_def)
  have p: "pl_height (planner_new h n) = h" "pl_now (planner_new h n) = n" "spent_by (planner_new h n) a = 0" for h n
    by (simp_all add: planner_new_def spent_by_def)
  from plan_all_spent [OF q, unfolded p, OF assms(2,3)] assms(4-6) show ?thesis by auto
qed

subsection \<open>A block with an open request\<close>

text \<open>
  A concrete environment: hashing is the length of the text, requests and votes are read as fixed
  values. Sixty-four nodes are in the pool, four of them draw the committee.
\<close>

definition demo_sender :: string where "demo_sender = ''egot1sender0000000000000000000''"
definition demo_thief :: string where "demo_thief = ''egot1thief00000000000000000000''"

definition demo_request :: request_body where
  "demo_request = \<lparr>rq_victim = demo_sender, rq_theft = [''0x'' @ replicate 64 CHR ''1''], rq_hops = [], rq_case = ''stolen'', rq_bond = 100000000\<rparr>"

definition demo_env :: hold_env where
  "demo_env = \<lparr>he_blake3 = (\<lambda>s. [of_nat (length s)]), he_hex = (\<lambda>b. replicate 64 CHR ''0''), he_unhex = (\<lambda>s. Some (ascii s)),
     he_read_request = (\<lambda>s. Some demo_request), he_read_vote = (\<lambda>s. None), he_read_appeal = (\<lambda>s. None), he_read_id = (\<lambda>s. None),
     he_read_cert = (\<lambda>s. None), he_write_body = (\<lambda>b. hb_id b), he_pk_ok = (\<lambda>b. True), he_sig_ok = (\<lambda>b. True),
     he_bls_verify = (\<lambda>s k m. True), he_bls_fast_verify = (\<lambda>s ks m. True), he_bls_aggregate = (\<lambda>s. Some []),
     he_draw_pool = (\<lambda>ov h. [''a'', ''b'', ''c'', ''d''])\<rparr>"

definition demo_rec :: "string \<Rightarrow> stored" where
  "demo_rec k = St_Rec \<lparr>nr_pop_key = k, nr_weight = \<lparr>ve_active = 1, ve_next = 1, ve_from = 0\<rparr>\<rparr>"

definition demo_pool :: overlay where
  "demo_pool = \<lparr>ov_base = [(''n2count'', St_U64 64), (''n2rec:a'', demo_rec ''a''), (''n2rec:b'', demo_rec ''b''),
     (''n2rec:c'', demo_rec ''c''), (''n2rec:d'', demo_rec ''d'')], ov_map = Map.empty\<rparr>"

definition plain_tx :: "string \<Rightarrow> string \<Rightarrow> string \<Rightarrow> u64 \<Rightarrow> u64 \<Rightarrow> ledger_tx" where
  "plain_tx h a b n fee = \<lparr>lt_hash = h, lt_from = a, lt_to = b, lt_amount = n, lt_memo = None, lt_timestamp = 0, lt_signature = ''s'',
     lt_status = [], lt_block_height = None, lt_nonce = 1, lt_dilithium_pubkey = [], lt_dilithium_signature = [], lt_type = ''transfer'', lt_fee = fee, lt_priority_fee = 0, lt_call_args = [],
     lt_version = 3, lt_chain_id = 1, lt_vault_cosig = []\<rparr>"

definition request_tx :: ledger_tx where
  "request_tx = (plain_tx ''q'' demo_sender demo_sender 0 10000000)\<lparr>lt_type := TX_REQUEST, lt_memo := memo_for demo_env TX_REQUEST []\<rparr>"

definition demo_block :: ledger_block where
  "demo_block = \<lparr>lb_height = 10, lb_timestamp = 1000\<rparr>"

definition spend_then_request :: "ledger_tx list" where
  "spend_then_request = [plain_tx ''p'' demo_sender demo_thief 150000000 0, request_tx]"

definition demo_balance :: "string \<Rightarrow> u64" where
  "demo_balance a = (if a = demo_sender then 160000000 else 0)"

lemma demo_wf: "well_formed demo_env request_tx = Inr ()"
  by code_simp

lemmas hold_keys = key_def hold_key_def addr_key_def bond_key_def lock_key_def tally_key_def vote_key_def LIVE_KEY_def

lemma demo_pool_empty: "ov_get demo_pool (CHR ''h'' # k) = None"
  by (simp add: demo_pool_def ov_get_def)

lemma demo_pool_free: "locked demo_pool a now = 0" "bond_on demo_pool a now = 0" "live demo_pool = []" "load_hold demo_pool hid = None"
  by (simp_all add: locked_def held_on_def bond_on_def load_ids_def load_hold_def live_def hold_keys demo_pool_empty map_filter_simps sat_add_def)

lemma demo_txs:
  "is_hold_op (plain_tx h a b n fee) = False" "is_cert_tx (plain_tx h a b n fee) = False" "is_settle (plain_tx h a b n fee) = False"
  "is_unstake_tx (plain_tx h a b n fee) = False" "is_hold_op request_tx" "is_cert_tx request_tx = False" "is_settle request_tx = False"
  "is_unstake_tx request_tx = False" "lt_type request_tx = TX_REQUEST" "lt_from request_tx = demo_sender"
  "subject (plain_tx h demo_sender b n fee)" "subject request_tx" "outflow request_tx = 10000000"
  by (simp_all add: plain_tx_def request_tx_def is_hold_op_def is_cert_tx_def is_settle_def is_unstake_tx_def USER_TYPES_def TX_REQUEST_def
        TX_VOTE_def TX_NODE_VOTE_def TX_APPEAL_def TX_RETURN_def TX_CERT_def TX_SETTLE_def subject_def demo_sender_def
        is_reserved_system_source_def NODE_POOL_ADDR_def STAKING_POOL_ADDR_def FAUCET_ADDR_FULL_def starts_with_def outflow_def)

lemma demo_reads:
  "lt_from (plain_tx h a b n fee) = a" "lt_type (plain_tx h a b n fee) = ''transfer''" "he_read_request demo_env s = Some demo_request"
  "rq_bond demo_request = 100000000" "he_draw_pool demo_env ov hh = [''a'', ''b'', ''c'', ''d'']" "''transfer'' \<noteq> TX_REQUEST" "TX_REQUEST \<noteq> TX_VOTE"
  by (simp_all add: plain_tx_def demo_env_def demo_request_def TX_REQUEST_def TX_VOTE_def)

lemma demo_outflow: "outflow (plain_tx h demo_sender demo_thief n 0) = n"
  using unsigned_less [of n, where 'a = nat]
  by (simp add: outflow_def demo_txs) (simp add: plain_tx_def demo_sender_def demo_thief_def sat_add_def)

lemma demo_judge:
  "judge demo_env demo_pool bal (plain_tx h demo_sender b n fee) (planner_new 10 1000) = (planner_new 10 1000, Fit_Yes)"
  "\<exists>q. judge demo_env demo_pool demo_balance request_tx (planner_new 10 1000) = (q, Fit_Yes)"
  by (simp_all add: judge_def demo_txs judge_coins_def request_need_def demo_pool_free demo_reads planner_new_def
       demo_wf note_voter_def demo_balance_def sat_add_def sat_sub_def Let_def)

lemma demo_validates: "hold_validate demo_env (Some 0) demo_pool demo_block spend_then_request demo_balance = Inr ()"
proof -
  obtain q where "judge demo_env demo_pool demo_balance request_tx (planner_new 10 1000) = (q, Fit_Yes)" using demo_judge(2) by blast
  then show ?thesis
    by (simp add: hold_validate_def spend_then_request_def demo_block_def demo_txs fit_of_def demo_judge(1) rule_active_def)
qed

lemma demo_request_applies:
  "bond_on (hold_apply_block demo_env (Some 0) demo_block spend_then_request 0 demo_pool) demo_sender 1000 = 100000000"
proof -
  let ?id = "hold_id demo_env (lt_hash request_tx)"
  have keys: "draw_answering demo_env demo_pool 10 = [''a'', ''b'', ''c'', ''d'']"
    by (simp add: draw_answering_def demo_reads load_rec_def demo_pool_def ov_get_def demo_rec_def CERT_COMMITTEE_def)
  have count: "node_count demo_pool = 64" by (simp add: node_count_def load_u64_def demo_pool_def ov_get_def)
  define h where "h = new_hold ?id demo_sender demo_request demo_block [''a'', ''b'', ''c'', ''d'']"
  define ov where "ov = ov_put (bond_key demo_sender) (St_Id ?id) (ov_put (hold_key ?id) (St_Hold h) (ov_put LIVE_KEY (St_Ids [?id]) demo_pool))"
  have "apply_op demo_env demo_block request_tx demo_pool = Inr ov"
    by (simp add: apply_op_def demo_wf demo_txs op_request_def readable_def demo_reads count MIN_NODE_POOL_def demo_pool_free demo_block_def
          keys add_live_def MAX_LIVE_def ov_def h_def Let_def)
  then have "hold_apply_block demo_env (Some 0) demo_block spend_then_request 0 demo_pool = ov"
    by (simp add: hold_apply_block_def apply_effects_def spend_then_request_def demo_txs paid_ids_def rule_active_def keep_on_error_def map_filter_simps)
  moreover have "bond_on ov demo_sender 1000 = 100000000"
    by (simp add: bond_on_def ov_def load_hold_def hold_keys h_def new_hold_def phase_of_def i64_sat_add_def binds_bond_def demo_block_def
          SIGN_WINDOW_SECS_def i64_max_def i64_min_def demo_reads)
  ultimately show ?thesis by simp
qed


text \<open>A sender with an open request who spends what is free.\<close>

definition demo_bound :: overlay where
  "demo_bound = ov_put (bond_key demo_sender) (St_Id ''h'')
     (ov_put (hold_key ''h'') (St_Hold (new_hold ''h'' demo_sender demo_request demo_block [''a'', ''b'', ''c'', ''d''])) demo_pool)"

lemma demo_bound_locked: "locked demo_bound demo_sender 1000 = 100000000"
proof -
  have "held_on demo_bound demo_sender 1000 = 0"
    by (simp add: held_on_def load_ids_def demo_bound_def hold_keys demo_pool_empty map_filter_simps)
  moreover have "bond_on demo_bound demo_sender 1000 = 100000000"
    by (simp add: bond_on_def demo_bound_def load_hold_def hold_keys new_hold_def phase_of_def i64_sat_add_def binds_bond_def demo_block_def
          SIGN_WINDOW_SECS_def i64_max_def i64_min_def demo_reads)
  ultimately show ?thesis by (simp add: locked_def sat_add_def)
qed

lemma demo_bound_validates:
  "hold_validate demo_env (Some 0) demo_bound demo_block [plain_tx ''r'' demo_sender demo_thief 50000000 0] demo_balance = Inr ()"
proof -
  have "\<exists>q. judge demo_env demo_bound demo_balance (plain_tx ''r'' demo_sender demo_thief 50000000 0) (planner_new 10 1000) = (q, Fit_Yes)"
    by (simp add: judge_def demo_txs judge_coins_def request_need_def demo_bound_locked demo_reads planner_new_def demo_outflow
         demo_balance_def sat_add_def sat_sub_def Let_def)
  then show ?thesis
    by (auto simp: hold_validate_def demo_block_def demo_txs fit_of_def rule_active_def planner_new_def)
qed

theorem held_coins_stay_witness:
  "hold_validate demo_env (Some 0) demo_bound demo_block [plain_tx ''r'' demo_sender demo_thief 50000000 0] demo_balance = Inr () \<and>
   taken_from demo_sender [plain_tx ''r'' demo_sender demo_thief 50000000 0] + unat (locked demo_bound demo_sender 1000) \<le> unat (demo_balance demo_sender)"
proof -
  have "rule_active (Some 0) (lb_height demo_block)" "0 < locked demo_bound demo_sender (lb_timestamp demo_block)"
    by (simp_all add: rule_active_def demo_block_def demo_bound_locked)
  from held_coins_stay [OF demo_bound_validates this, of "plain_tx ''r'' demo_sender demo_thief 50000000 0"] demo_bound_validates
  show ?thesis by (simp add: demo_txs demo_reads demo_block_def)
qed

end
