(* ===== verification/Hold_Course.thy ===== *)
theory Hold_Course
  imports Hold_Plan
begin

section \<open>The course of a hold\<close>

text \<open>
  Holds over many blocks: applying a block as a sequence of steps and what each step writes; that a
  tally counts the votes that were applied; chains of validated blocks, and that a hold that has
  ended stays as it ended.
\<close>

subsection \<open>Keys\<close>

text \<open>The two phases that are voted on.\<close>

definition vote_phase :: "string \<Rightarrow> bool" where
  "vote_phase ph \<longleftrightarrow> ph = PHASE_CONFIRM \<or> ph = PHASE_RETURN"

lemma tally_key_inj:
  assumes "vote_phase ph" "vote_phase ph'"
  shows "tally_key i ph = tally_key j ph' \<longleftrightarrow> i = j \<and> ph = ph'"
proof
  assume e: "tally_key i ph = tally_key j ph'"
  then have "last (tally_key i ph) = last (tally_key j ph')" by simp
  then have "ph = ph'" using assms by (auto simp: vote_phase_def PHASE_CONFIRM_def PHASE_RETURN_def hold_keys)
  with e show "i = j \<and> ph = ph'" by (simp add: hold_keys)
qed simp

lemma vote_key_inj:
  assumes "vote_phase ph" "vote_phase ph'" "length i = length j"
  shows "vote_key i ph (ballot_kind n) v = vote_key j ph' (ballot_kind m) w \<longleftrightarrow> i = j \<and> ph = ph' \<and> n = m \<and> v = w"
proof
  assume "vote_key i ph (ballot_kind n) v = vote_key j ph' (ballot_kind m) w"
  then have "i = j" "ph @ '':'' @ ballot_kind n @ '':'' @ v = ph' @ '':'' @ ballot_kind m @ '':'' @ w"
    using assms(3) by (simp_all add: hold_keys)
  then show "i = j \<and> ph = ph' \<and> n = m \<and> v = w"
    using assms(1,2) by (auto simp: vote_phase_def PHASE_CONFIRM_def PHASE_RETURN_def ballot_kind_def split: if_splits)
qed simp

text \<open>Lookups after a write: the same entry, or one of another kind.\<close>

lemma load_hold_put [simp]:
  "load_hold (ov_put (hold_key i) (St_Hold h) ov) j = (if i = j then Some h else load_hold ov j)"
  by (simp add: load_hold_def hold_keys)

lemma load_hold_put_other [simp]:
  "load_hold (ov_put (addr_key a) v ov) j = load_hold ov j"
  "load_hold (ov_put (bond_key a) v ov) j = load_hold ov j"
  "load_hold (ov_put (lock_key a) v ov) j = load_hold ov j"
  "load_hold (ov_put (tally_key i ph) v ov) j = load_hold ov j"
  "load_hold (ov_put (vote_key i ph k a) v ov) j = load_hold ov j"
  "load_hold (ov_put LIVE_KEY v ov) j = load_hold ov j"
  by (simp_all add: load_hold_def hold_keys)

lemma tally_of_put:
  "vote_phase ph \<Longrightarrow> vote_phase ph' \<Longrightarrow>
   tally_of (ov_put (tally_key i ph) (St_Tally t) ov) j ph' = (if i = j \<and> ph = ph' then t else tally_of ov j ph')"
  by (auto simp: tally_of_def tally_key_inj)

lemma tally_of_put_other [simp]:
  "tally_of (ov_put (hold_key i) v ov) j ph = tally_of ov j ph"
  "tally_of (ov_put (addr_key a) v ov) j ph = tally_of ov j ph"
  "tally_of (ov_put (bond_key a) v ov) j ph = tally_of ov j ph"
  "tally_of (ov_put (lock_key a) v ov) j ph = tally_of ov j ph"
  "tally_of (ov_put (vote_key i q k a) v ov) j ph = tally_of ov j ph"
  "tally_of (ov_put LIVE_KEY v ov) j ph = tally_of ov j ph"
  by (simp_all add: tally_of_def hold_keys)

definition has_voted :: "overlay \<Rightarrow> string \<Rightarrow> string \<Rightarrow> bool \<times> string \<Rightarrow> bool" where
  "has_voted ov i ph k = (ov_get ov (vote_key i ph (ballot_kind (fst k)) (snd k)) \<noteq> None)"

lemma voted_put_other [simp]:
  "has_voted (ov_put (hold_key j) v ov) i ph = has_voted ov i ph"
  "has_voted (ov_put (addr_key a) v ov) i ph = has_voted ov i ph"
  "has_voted (ov_put (bond_key a) v ov) i ph = has_voted ov i ph"
  "has_voted (ov_put (lock_key a) v ov) i ph = has_voted ov i ph"
  "has_voted (ov_put (tally_key j q) v ov) i ph = has_voted ov i ph"
  "has_voted (ov_put LIVE_KEY v ov) i ph = has_voted ov i ph"
  by (rule ext; simp add: has_voted_def hold_keys)+

lemma voted_put:
  "vote_phase ph \<Longrightarrow> vote_phase ph' \<Longrightarrow> length i = length j \<Longrightarrow>
   has_voted (ov_put (vote_key i ph (ballot_kind n) a) v ov) j ph' k \<longleftrightarrow> (i = j \<and> ph = ph' \<and> k = (n, a)) \<or> has_voted ov j ph' k"
  by (cases k) (auto simp: has_voted_def vote_key_inj)

subsection \<open>The steps of a block\<close>

datatype hold_event = Ev_Paid string | Ev_Cert ledger_block u64 ledger_tx | Ev_Op ledger_block ledger_tx

fun hold_step :: "hold_env \<Rightarrow> hold_event \<Rightarrow> overlay \<Rightarrow> overlay" where
  "hold_step he (Ev_Paid i) ov = mark_paid i ov"
| "hold_step he (Ev_Cert block staked tx) ov = keep_on_error (apply_cert he block staked tx) ov"
| "hold_step he (Ev_Op block tx) ov = keep_on_error (apply_op he block tx) ov"

definition block_events :: "ledger_block \<Rightarrow> ledger_tx list \<Rightarrow> u64 \<Rightarrow> hold_event list" where
  "block_events block txs staked =
     map Ev_Paid (paid_ids txs) @ map (Ev_Cert block staked) (filter is_cert_tx txs) @ map (Ev_Op block) (filter is_hold_op txs)"

lemma apply_effects_steps: "apply_effects he block txs staked ov = fold (hold_step he) (block_events block txs staked) ov"
proof -
  have "hold_step he \<circ> Ev_Paid = mark_paid" "hold_step he \<circ> Ev_Cert block staked = (\<lambda>tx. keep_on_error (apply_cert he block staked tx))"
    "hold_step he \<circ> Ev_Op block = (\<lambda>tx. keep_on_error (apply_op he block tx))"
    by (rule ext; simp)+
  then show ?thesis by (simp add: apply_effects_def block_events_def fold_map Let_def)
qed

text \<open>Every stored hold is stored under its own identifier.\<close>

definition store_ok :: "overlay \<Rightarrow> bool" where
  "store_ok ov \<longleftrightarrow> (\<forall>i h. load_hold ov i = Some h \<longrightarrow> hd_id h = i)"

lemma store_okD: "store_ok ov \<Longrightarrow> load_hold ov i = Some h \<Longrightarrow> hd_id h = i"
  by (simp add: store_ok_def)

text \<open>The effect of an operation that writes one hold and no vote.\<close>

definition rewrites_hold :: "overlay \<Rightarrow> overlay \<Rightarrow> string \<Rightarrow> hold \<Rightarrow> bool" where
  "rewrites_hold ov ov' i h \<longleftrightarrow> hd_id h = i \<and> (\<forall>j. load_hold ov' j = (if i = j then Some h else load_hold ov j)) \<and>
     (\<forall>j ph. tally_of ov' j ph = tally_of ov j ph) \<and> (\<forall>j ph. has_voted ov' j ph = has_voted ov j ph)"

lemma rewrites_holdI:
  assumes "hd_id h = i" "\<And>j. load_hold ov' j = (if i = j then Some h else load_hold ov j)"
    "\<And>j ph. tally_of ov' j ph = tally_of ov j ph" "\<And>j ph. has_voted ov' j ph = has_voted ov j ph"
  shows "rewrites_hold ov ov' i h"
  using assms by (simp add: rewrites_hold_def)

lemma rewrites_holdD:
  assumes "rewrites_hold ov ov' i h"
  shows "hd_id h = i" "load_hold ov' j = (if i = j then Some h else load_hold ov j)"
    "tally_of ov' j ph = tally_of ov j ph" "has_voted ov' j ph = has_voted ov j ph"
  using assms by (simp_all add: rewrites_hold_def)

text \<open>What each operation writes.\<close>

lemma hold_addresses_frame:
  "load_hold (fst (hold_addresses hid now am ov)) j = load_hold ov j"
  "tally_of (fst (hold_addresses hid now am ov)) j ph = tally_of ov j ph"
  "has_voted (fst (hold_addresses hid now am ov)) j ph = has_voted ov j ph"
  by (induction hid now am ov rule: hold_addresses.induct; simp add: case_prod_beta Let_def)+

lemma apply_cert_writes:
  assumes "apply_cert he block staked tx ov = Inr ov'"
  obtains cert h h' where "he_read_cert he (lt_call_args tx) = Some cert" "load_hold ov (hb_id (hc_body cert)) = Some h"
    "rewrites_hold ov ov' (hd_id h) h'" "hd_paid h' = hd_paid h"
proof -
  from assms obtain cert h where c: "he_read_cert he (lt_call_args tx) = Some cert" "load_hold ov (hb_id (hc_body cert)) = Some h"
    by (auto simp: apply_cert_def)
  obtain ov1 am where h1: "hold_addresses (hd_id h) (lb_timestamp block) (hb_amounts (hc_body cert)) ov = (ov1, am)" by fastforce
  have f: "load_hold ov1 j = load_hold ov j" "tally_of ov1 j ph = tally_of ov j ph" "has_voted ov1 j ph = has_voted ov j ph" for j ph
    using hold_addresses_frame [of "hd_id h" "lb_timestamp block" "hb_amounts (hc_body cert)" ov] by (simp_all add: h1)
  let ?h = "h\<lparr>hd_amounts := am, hd_held_at := lb_timestamp block, hd_stake_total := staked,
      hd_node_total := pool_total_weight ov1 (period_of (lb_height block))\<rparr>"
  have "ov' = ov_put (hold_key (hd_id h)) (St_Hold ?h) ov1"
    using assms by (simp add: apply_cert_def c readable_def h1)
  then show thesis using c f by (intro that [of cert h ?h] rewrites_holdI) simp_all
qed

lemma op_request_writes:
  assumes "op_request he block tx ov = Inr ov'"
  obtains i h where "load_hold ov i = None" "rewrites_hold ov ov' i h"
proof -
  let ?i = "hold_id he (lt_hash tx)"
  from assms obtain b ov1 where b: "load_hold ov ?i = None" "add_live ?i (lb_timestamp block) ov = Inr ov1"
    "ov' = ov_put (bond_key (lt_from tx)) (St_Id ?i)
       (ov_put (hold_key ?i) (St_Hold (new_hold ?i (lt_from tx) b block (draw_answering he ov (lb_height block)))) ov1)"
    by (auto simp: op_request_def Let_def split: if_splits)
  obtain ids where "ov1 = ov_put LIVE_KEY (St_Ids ids) ov"
    using b(2) by (auto simp: add_live_def Let_def split: if_splits)
  with b show thesis
    by (intro that [of ?i "new_hold ?i (lt_from tx) b block (draw_answering he ov (lb_height block))"] rewrites_holdI) (simp_all add: new_hold_def)
qed

lemma op_vote_writes:
  assumes "op_vote he block tx node ov = Inr ov'"
  obtains b h weight ends where "he_read_vote he (lt_call_args tx) = Some b" "load_hold ov (vb_id b) = Some h"
    "vote_window ov h (vb_phase b) (lb_timestamp block) = (True, ends)" "\<not> has_voted ov (hd_id h) (vb_phase b) (node, lt_from tx)"
    "voter_weight ov block (lt_from tx) node = Inr weight" "ov' = cast_hold_vote h b (lt_from tx) node weight ends ov"
proof -
  from assms obtain b h where b: "he_read_vote he (lt_call_args tx) = Some b" "load_hold ov (vb_id b) = Some h"
    and r: "(let (is_open, ends) = vote_window ov h (vb_phase b) (lb_timestamp block) in
       if \<not> is_open then Inl ''that vote is not open''
       else if ov_get ov (vote_key (hd_id h) (vb_phase b) (ballot_kind node) (lt_from tx)) \<noteq> None then Inl ''already voted''
       else rbind (voter_weight ov block (lt_from tx) node) (\<lambda>weight.
         if weight = 0 then Inl ''a vote needs weight''
         else Inr (cast_hold_vote h b (lt_from tx) node weight ends ov))) = Inr ov'"
    by (auto simp: op_vote_def)
  obtain is_open ends where w: "vote_window ov h (vb_phase b) (lb_timestamp block) = (is_open, ends)" by fastforce
  from r w obtain weight where "is_open" "\<not> has_voted ov (hd_id h) (vb_phase b) (node, lt_from tx)"
    "voter_weight ov block (lt_from tx) node = Inr weight" "ov' = cast_hold_vote h b (lt_from tx) node weight ends ov"
    by (auto simp: has_voted_def split: if_splits)
  with b w that show thesis by simp
qed

text \<open>The part of a hold that its phase depends on, the tallies apart.\<close>

definition course :: "hold \<Rightarrow> string \<times> i64 \<times> i64 \<times> i64 \<times> u64 \<times> u64" where
  "course h = (hd_id h, hd_created h, hd_held_at h, hd_return_opened h, hd_stake_total h, hd_node_total h)"

lemma op_appeal_writes:
  assumes "op_appeal he block tx ov = Inr ov'"
  obtains i h h' where "load_hold ov i = Some h" "rewrites_hold ov ov' (hd_id h) h'" "course h' = course h" "hd_paid h' = hd_paid h"
proof -
  from assms obtain b :: appeal_body and h where "load_hold ov (ab_id b) = Some h"
    "ov' = ov_put (hold_key (hd_id h)) (St_Hold (h\<lparr>hd_appeals := hd_appeals h @ [(lt_from tx, ab_text b)]\<rparr>)) ov"
    by (auto simp: op_appeal_def split: if_splits)
  then show thesis by (intro that [of "ab_id b" h "h\<lparr>hd_appeals := hd_appeals h @ [(lt_from tx, ab_text b)]\<rparr>"] rewrites_holdI) (simp_all add: course_def)
qed

lemma op_return_writes:
  assumes "op_return he block tx ov = Inr ov'"
  obtains i h h' where "load_hold ov i = Some h" "phase_of ov h (lb_timestamp block) = Confirmed"
    "rewrites_hold ov ov' (hd_id h) h'" "hd_paid h' = hd_paid h"
proof -
  from assms obtain b :: id_body and h where "load_hold ov (ib_id b) = Some h" "phase_of ov h (lb_timestamp block) = Confirmed"
    "ov' = ov_put (hold_key (hd_id h)) (St_Hold (h\<lparr>hd_return_opened := lb_timestamp block\<rparr>)) ov"
    by (auto simp: op_return_def split: if_splits)
  then show thesis by (intro that [of "ib_id b" h "h\<lparr>hd_return_opened := lb_timestamp block\<rparr>"] rewrites_holdI) simp_all
qed

text \<open>An operation that succeeds is one of these, and a vote names a hold and a phase.\<close>

lemma apply_op_cases:
  assumes "apply_op he block tx ov = Inr ov'"
  obtains (request) "op_request he block tx ov = Inr ov'" "lt_type tx = TX_REQUEST"
  | (vote) node b where "op_vote he block tx node ov = Inr ov'" "lt_type tx = (if node then TX_NODE_VOTE else TX_VOTE)"
      "he_read_vote he (lt_call_args tx) = Some b" "length (vb_id b) = 20" "vote_phase (vb_phase b)"
  | (appeal) "op_appeal he block tx ov = Inr ov'" "lt_type tx = TX_APPEAL"
  | (return) "op_return he block tx ov = Inr ov'" "lt_type tx \<notin> {TX_REQUEST, TX_VOTE, TX_NODE_VOTE, TX_APPEAL}"
proof -
  have types: "TX_VOTE \<noteq> TX_REQUEST" "TX_NODE_VOTE \<noteq> TX_REQUEST" "TX_NODE_VOTE \<noteq> TX_VOTE"
    by (simp_all add: TX_VOTE_def TX_NODE_VOTE_def TX_REQUEST_def)
  from assms have wf: "well_formed he tx = Inr ()" and r: "(if lt_type tx = TX_REQUEST then op_request he block tx ov
      else if lt_type tx = TX_VOTE then op_vote he block tx False ov
      else if lt_type tx = TX_NODE_VOTE then op_vote he block tx True ov
      else if lt_type tx = TX_APPEAL then op_appeal he block tx ov else op_return he block tx ov) = Inr ov'"
    by (auto simp: apply_op_def)
  have body: "\<exists>b. he_read_vote he (lt_call_args tx) = Some b \<and> length (vb_id b) = 20 \<and> vote_phase (vb_phase b)"
    if "lt_type tx = TX_VOTE \<or> lt_type tx = TX_NODE_VOTE"
  proof -
    from that have "lt_type tx \<noteq> TX_REQUEST" using types by auto
    with wf that show ?thesis
      by (auto simp: well_formed_def is_id_def vote_phase_def split: if_splits)
  qed
  consider "lt_type tx = TX_REQUEST" | "lt_type tx = TX_VOTE" | "lt_type tx = TX_NODE_VOTE" | "lt_type tx = TX_APPEAL"
    | "lt_type tx \<notin> {TX_REQUEST, TX_VOTE, TX_NODE_VOTE, TX_APPEAL}" by blast
  then show thesis
  proof cases
    case 1
    with r request show thesis by simp
  next
    case 2
    from body 2 obtain b where "he_read_vote he (lt_call_args tx) = Some b" "length (vb_id b) = 20" "vote_phase (vb_phase b)" by blast
    with r 2 types vote [of False] show thesis by simp
  next
    case 3
    from body 3 obtain b where "he_read_vote he (lt_call_args tx) = Some b" "length (vb_id b) = 20" "vote_phase (vb_phase b)" by blast
    with r 3 types vote [of True] show thesis by simp
  next
    case 4
    then have "lt_type tx \<notin> {TX_REQUEST, TX_VOTE, TX_NODE_VOTE}"
      by (simp add: TX_VOTE_def TX_NODE_VOTE_def TX_REQUEST_def TX_APPEAL_def)
    with r 4 appeal show thesis by simp
  next
    case 5
    with r return show thesis by simp
  qed
qed

subsection \<open>Votes are counted once\<close>

lemma keep_on_error_cases:
  obtains "f ov = Inr (keep_on_error f ov)" | e where "f ov = Inl e" "keep_on_error f ov = ov"
  by (cases "f ov") (auto simp: keep_on_error_def)

lemma cast_hold_vote_writes:
  "load_hold (cast_hold_vote h b from node w ends ov) j = load_hold ov j"
  "vote_phase (vb_phase b) \<Longrightarrow> vote_phase ph \<Longrightarrow> tally_of (cast_hold_vote h b from node w ends ov) j ph =
     (if hd_id h = j \<and> vb_phase b = ph then count_vote node w (vb_yes b) (tally_of ov j ph) else tally_of ov j ph)"
  "vote_phase (vb_phase b) \<Longrightarrow> vote_phase ph \<Longrightarrow> length (hd_id h) = length j \<Longrightarrow>
     has_voted (cast_hold_vote h b from node w ends ov) j ph k \<longleftrightarrow> (hd_id h = j \<and> vb_phase b = ph \<and> k = (node, from)) \<or> has_voted ov j ph k"
  by (auto simp: cast_hold_vote_def Let_def tally_of_put voted_put)

lemma store_ok_rewrites: "store_ok ov \<Longrightarrow> rewrites_hold ov ov' i h \<Longrightarrow> store_ok ov'"
  by (auto simp: store_ok_def rewrites_hold_def split: if_splits)

lemma mark_paid_writes:
  assumes "store_ok ov"
  shows "load_hold (mark_paid i ov) j = (if i = j then map_option (\<lambda>h. h\<lparr>hd_paid := True\<rparr>) (load_hold ov j) else load_hold ov j)"
    "tally_of (mark_paid i ov) j ph = tally_of ov j ph" "has_voted (mark_paid i ov) j ph = has_voted ov j ph"
  using assms by (auto simp: mark_paid_def split: option.splits)

text \<open>Every step leaves the store as it is, marks a hold as paid, rewrites one hold or casts a vote.\<close>

lemma hold_step_cases:
  obtains (same) "hold_step he e ov = ov" "\<And>block tx ov'. e = Ev_Op block tx \<Longrightarrow> apply_op he block tx ov \<noteq> Inr ov'"
  | (paid) i where "e = Ev_Paid i"
  | (cert) block staked tx cert h h' where "e = Ev_Cert block staked tx" "he_read_cert he (lt_call_args tx) = Some cert"
      "load_hold ov (hb_id (hc_body cert)) = Some h" "rewrites_hold ov (hold_step he e ov) (hd_id h) h'" "hd_paid h' = hd_paid h"
  | (request) block tx i h where "e = Ev_Op block tx" "lt_type tx = TX_REQUEST" "load_hold ov i = None" "rewrites_hold ov (hold_step he e ov) i h"
  | (vote) block tx node b h w ends where "e = Ev_Op block tx" "lt_type tx = (if node then TX_NODE_VOTE else TX_VOTE)"
      "apply_op he block tx ov = Inr (hold_step he e ov)" "he_read_vote he (lt_call_args tx) = Some b" "length (vb_id b) = 20" "vote_phase (vb_phase b)"
      "load_hold ov (vb_id b) = Some h" "vote_window ov h (vb_phase b) (lb_timestamp block) = (True, ends)"
      "\<not> has_voted ov (hd_id h) (vb_phase b) (node, lt_from tx)" "voter_weight ov block (lt_from tx) node = Inr w"
      "hold_step he e ov = cast_hold_vote h b (lt_from tx) node w ends ov"
  | (appeal) block tx i h h' where "e = Ev_Op block tx" "lt_type tx = TX_APPEAL" "load_hold ov i = Some h"
      "rewrites_hold ov (hold_step he e ov) (hd_id h) h'" "course h' = course h" "hd_paid h' = hd_paid h"
  | (return) block tx i h h' where "e = Ev_Op block tx" "lt_type tx \<notin> {TX_REQUEST, TX_VOTE, TX_NODE_VOTE, TX_APPEAL}" "load_hold ov i = Some h"
      "phase_of ov h (lb_timestamp block) = Confirmed" "rewrites_hold ov (hold_step he e ov) (hd_id h) h'" "hd_paid h' = hd_paid h"
proof (cases e)
  case (Ev_Paid i)
  then show thesis by (rule paid)
next
  case (Ev_Cert block staked tx)
  show thesis using keep_on_error_cases [of "apply_cert he block staked tx" ov]
  proof cases
    case 1
    then have "apply_cert he block staked tx ov = Inr (hold_step he e ov)" using Ev_Cert by simp
    then show thesis by (rule apply_cert_writes) (rule cert [OF Ev_Cert])
  qed (use same Ev_Cert in simp)
next
  case (Ev_Op block tx)
  show thesis using keep_on_error_cases [of "apply_op he block tx" ov]
  proof cases
    case 1
    then have r: "apply_op he block tx ov = Inr (hold_step he e ov)" using Ev_Op by simp
    then show thesis
    proof (cases rule: apply_op_cases)
      case (request)
      from request(1) show thesis by (rule op_request_writes) (rule that(4) [OF Ev_Op request(2)])
    next
      case (vote node b)
      from vote(1) show thesis
      proof (rule op_vote_writes)
        fix b' :: vote_body and h w ends
        assume a: "he_read_vote he (lt_call_args tx) = Some b'" "load_hold ov (vb_id b') = Some h"
          "vote_window ov h (vb_phase b') (lb_timestamp block) = (True, ends)" "\<not> has_voted ov (hd_id h) (vb_phase b') (node, lt_from tx)"
          "voter_weight ov block (lt_from tx) node = Inr w" "hold_step he e ov = cast_hold_vote h b' (lt_from tx) node w ends ov"
        with vote(3) have "b' = b" by simp
        note a = a [unfolded this]
        show thesis by (rule that(5) [OF Ev_Op vote(2) r vote(3,4,5) a(2-6)])
      qed
    next
      case appeal
      from appeal(1) show thesis by (rule op_appeal_writes) (rule that(6) [OF Ev_Op appeal(2)])
    next
      case return
      from return(1) show thesis by (rule op_return_writes) (rule that(7) [OF Ev_Op return(2)])
    qed
  next
    case (2 err)
    with Ev_Op show thesis by (intro same) simp_all
  qed
qed

lemma store_ok_step:
  assumes "store_ok ov"
  shows "store_ok (hold_step he e ov)"
proof (cases rule: hold_step_cases [of he e ov])
  case (paid i)
  then show ?thesis using assms by (auto simp: store_ok_def mark_paid_writes split: if_splits)
next
  case (vote block tx node b h w ends)
  then show ?thesis using assms by (simp add: store_ok_def cast_hold_vote_writes(1))
qed (use assms store_ok_rewrites in auto)

text \<open>
  The votes of a run for one hold and phase, in order: whether a node voted, who, with what weight
  and how. A vote is in the log when the operation was applied.
\<close>

type_synonym ballot = "(bool \<times> string) \<times> u64 \<times> bool"

definition ballot_of :: "hold_env \<Rightarrow> string \<Rightarrow> string \<Rightarrow> hold_event \<Rightarrow> overlay \<Rightarrow> ballot list" where
  "ballot_of he i ph e ov =
     (case e of
        Ev_Op block tx \<Rightarrow>
          (let node = (lt_type tx = TX_NODE_VOTE) in
           if node \<or> lt_type tx = TX_VOTE then
             (case (apply_op he block tx ov, he_read_vote he (lt_call_args tx), voter_weight ov block (lt_from tx) node) of
                (Inr _, Some b, Inr w) \<Rightarrow> if vb_id b = i \<and> vb_phase b = ph then [((node, lt_from tx), w, vb_yes b)] else []
              | _ \<Rightarrow> [])
           else [])
      | _ \<Rightarrow> [])"

fun vote_log :: "hold_env \<Rightarrow> string \<Rightarrow> string \<Rightarrow> hold_event list \<Rightarrow> overlay \<Rightarrow> ballot list" where
  "vote_log he i ph [] ov = []"
| "vote_log he i ph (e # es) ov = ballot_of he i ph e ov @ vote_log he i ph es (hold_step he e ov)"

definition count_ballot :: "ballot \<Rightarrow> hold_tally \<Rightarrow> hold_tally" where
  "count_ballot = (\<lambda>((node, _), w, yes). count_vote node w yes)"

lemma vote_types: "TX_VOTE \<noteq> TX_NODE_VOTE" "TX_REQUEST \<notin> {TX_VOTE, TX_NODE_VOTE}" "TX_APPEAL \<notin> {TX_VOTE, TX_NODE_VOTE}"
  by (simp_all add: TX_VOTE_def TX_NODE_VOTE_def TX_REQUEST_def TX_APPEAL_def)

text \<open>One step adds to a tally exactly the ballot it logs, and the voter had not voted.\<close>

lemma step_ballot:
  assumes "store_ok ov" "length i = 20" "vote_phase ph"
  shows "tally_of (hold_step he e ov) i ph = fold count_ballot (ballot_of he i ph e ov) (tally_of ov i ph)
    \<and> (\<forall>k. has_voted (hold_step he e ov) i ph k \<longleftrightarrow> k \<in> fst ` set (ballot_of he i ph e ov) \<or> has_voted ov i ph k)
    \<and> (\<forall>k \<in> fst ` set (ballot_of he i ph e ov). \<not> has_voted ov i ph k) \<and> length (ballot_of he i ph e ov) \<le> 1"
proof (cases rule: hold_step_cases [of he e ov])
  case (vote block tx node b h w ends)
  have id: "hd_id h = vb_id b" using store_okD [OF assms(1) vote(7)] .
  have node: "(lt_type tx = TX_NODE_VOTE) = node" "lt_type tx = TX_NODE_VOTE \<or> lt_type tx = TX_VOTE"
    using vote(2) vote_types by (cases node; simp)+
  have l: "ballot_of he i ph e ov = (if vb_id b = i \<and> vb_phase b = ph then [((node, lt_from tx), w, vb_yes b)] else [])"
    using vote(1) node by (simp add: ballot_of_def vote(3,4,10) Let_def)
  show ?thesis unfolding vote(11) l
    using vote(9) assms(2,3) vote(5,6) id by (auto simp: cast_hold_vote_writes count_ballot_def)
next
  case same
  have "ballot_of he i ph e ov = []"
    using same(2) by (auto simp: ballot_of_def Let_def split: hold_event.split sum.split option.split)
  with same(1) show ?thesis by simp
next
  case (paid i')
  then show ?thesis using assms(1) by (simp add: ballot_of_def mark_paid_writes)
next
  case (cert block staked tx cert h h')
  then show ?thesis by (simp add: ballot_of_def rewrites_holdD)
next
  case (request block tx i' h)
  then show ?thesis using vote_types by (simp add: ballot_of_def rewrites_holdD)
next
  case (appeal block tx i' h h')
  then show ?thesis using vote_types by (simp add: ballot_of_def rewrites_holdD)
next
  case (return block tx i' h h')
  then show ?thesis by (simp add: ballot_of_def rewrites_holdD)
qed

lemma vote_log_counts:
  assumes "store_ok ov" "length i = 20" "vote_phase ph"
  shows "tally_of (fold (hold_step he) es ov) i ph = fold count_ballot (vote_log he i ph es ov) (tally_of ov i ph)
    \<and> distinct (map fst (vote_log he i ph es ov)) \<and> (\<forall>k \<in> fst ` set (vote_log he i ph es ov). \<not> has_voted ov i ph k)"
  using assms(1)
proof (induction es arbitrary: ov)
  case (Cons e es)
  note s = step_ballot [OF Cons.prems assms(2,3), of he e] and ih = Cons.IH [OF store_ok_step [OF Cons.prems, of he e]]
  have "distinct (map fst (ballot_of he i ph e ov))" using s by (cases "ballot_of he i ph e ov") auto
  moreover have "fst ` set (ballot_of he i ph e ov) \<inter> fst ` set (vote_log he i ph es (hold_step he e ov)) = {}"
    and "\<forall>k \<in> fst ` set (vote_log he i ph es (hold_step he e ov)). \<not> has_voted ov i ph k" using s ih by blast+
  ultimately show ?case using s ih by (simp add: image_Un ball_Un)
qed simp


subsection \<open>A hold that has ended stays ended\<close>

definition terminal :: "phase \<Rightarrow> bool" where
  "terminal p \<longleftrightarrow> p \<in> {Failed, Rejected, Lapsed, Returned, Expired}"

lemma phase_stable: "terminal (phase_of ov h t) \<Longrightarrow> t \<le> t' \<Longrightarrow> phase_of ov h t' = phase_of ov h t"
  by (auto simp: phase_of_def terminal_def Let_def split: if_splits outcome.splits)

lemma phase_course:
  assumes "course h' = course h" "\<And>ph. vote_phase ph \<Longrightarrow> tally_of ov' (hd_id h) ph = tally_of ov (hd_id h) ph"
  shows "phase_of ov' h' t = phase_of ov h t"
proof -
  have "outcome_of ty h' = outcome_of ty h" for ty using assms(1) by (simp add: outcome_of_def course_def)
  moreover have "tally_of ov' (hd_id h) PHASE_CONFIRM = tally_of ov (hd_id h) PHASE_CONFIRM" "tally_of ov' (hd_id h) PHASE_RETURN = tally_of ov (hd_id h) PHASE_RETURN"
    using assms(2) by (simp_all add: vote_phase_def)
  ultimately show ?thesis using assms(1) by (simp add: phase_of_def course_def vote_end_def)
qed

text \<open>What a store keeps of a hold: its course and tallies, and that it is paid.\<close>

definition keeps :: "string \<Rightarrow> overlay \<Rightarrow> overlay \<Rightarrow> bool" where
  "keeps i ov ov' \<longleftrightarrow> (\<forall>h. load_hold ov i = Some h \<longrightarrow> (\<exists>h'. load_hold ov' i = Some h' \<and> course h' = course h)) \<and>
     (\<forall>ph. vote_phase ph \<longrightarrow> tally_of ov' i ph = tally_of ov i ph)"

lemma keeps_refl [simp]: "keeps i ov ov"
  by (simp add: keeps_def)

lemma keeps_trans: "keeps i ov ov1 \<Longrightarrow> keeps i ov1 ov2 \<Longrightarrow> keeps i ov ov2"
  unfolding keeps_def by metis

lemma keeps_phase:
  assumes "keeps i ov ov'" "store_ok ov" "load_hold ov i = Some h"
  obtains h' where "load_hold ov' i = Some h'" "\<And>t. phase_of ov' h' t = phase_of ov h t"
proof -
  from assms(1,3) obtain h' where h: "load_hold ov' i = Some h'" "course h' = course h" by (auto simp: keeps_def)
  have "phase_of ov' h' t = phase_of ov h t" for t
    by (rule phase_course [OF h(2)]) (use assms store_okD [OF assms(2,3)] in \<open>simp add: keeps_def\<close>)
  with h(1) that show thesis by blast
qed

lemma keeps_rewrites_other: "rewrites_hold ov ov' j h' \<Longrightarrow> j \<noteq> i \<Longrightarrow> keeps i ov ov'"
  by (simp add: keeps_def rewrites_holdD)

lemma terminal_step:
  assumes ok: "store_ok ov" and h: "load_hold ov i = Some h" and t: "terminal (phase_of ov h t)"
    and op: "\<And>block tx. e = Ev_Op block tx \<Longrightarrow> t \<le> lb_timestamp block"
    and cert: "\<And>block staked tx c. e = Ev_Cert block staked tx \<Longrightarrow> he_read_cert he (lt_call_args tx) = Some c \<Longrightarrow> hb_id (hc_body c) \<noteq> i"
  shows "keeps i ov (hold_step he e ov)"
proof (cases rule: hold_step_cases [of he e ov])
  case same
  then show ?thesis by simp
next
  case (paid j)
  then show ?thesis using ok by (auto simp: keeps_def mark_paid_writes course_def)
next
  case (cert block staked tx c g g')
  have "hd_id g \<noteq> i" using store_okD [OF ok cert(3)] assms(5) [OF cert(1,2)] by simp
  with cert(4) show ?thesis by (rule keeps_rewrites_other)
next
  case (request block tx j g)
  with h have "j \<noteq> i" by auto
  with request(4) show ?thesis by (rule keeps_rewrites_other)
next
  case (vote block tx node b g w ends)
  have id: "hd_id g = vb_id b" using store_okD [OF ok vote(7)] .
  have "vb_id b \<noteq> i"
  proof
    assume "vb_id b = i"
    with h vote(7) have "g = h" by simp
    with phase_stable [OF t op [OF vote(1)]] t vote(8) show False
      by (auto simp: vote_window_def terminal_def split: if_splits)
  qed
  then show ?thesis unfolding vote(11) by (simp add: keeps_def cast_hold_vote_writes(1) cast_hold_vote_writes(2) [OF vote(6)] id)
next
  case (appeal block tx j g g')
  show ?thesis
  proof (cases "hd_id g = i")
    case True
    with store_okD [OF ok appeal(3)] appeal(3) h have "g = h" by simp
    then show ?thesis using appeal(4,5) True h by (simp add: keeps_def rewrites_holdD)
  qed (rule keeps_rewrites_other [OF appeal(4)])
next
  case (return block tx j g g')
  have "hd_id g \<noteq> i"
  proof
    assume "hd_id g = i"
    with store_okD [OF ok return(3)] return(3) h have "g = h" by simp
    with phase_stable [OF t op [OF return(1)]] t return(4) show False by (simp add: terminal_def)
  qed
  with return(5) show ?thesis by (rule keeps_rewrites_other)
qed

lemma terminal_steps:
  assumes "store_ok ov" "load_hold ov i = Some h" "terminal (phase_of ov h t)"
    and "\<And>block tx. Ev_Op block tx \<in> set es \<Longrightarrow> t \<le> lb_timestamp block"
    and "\<And>block staked tx c. Ev_Cert block staked tx \<in> set es \<Longrightarrow> he_read_cert he (lt_call_args tx) = Some c \<Longrightarrow> hb_id (hc_body c) \<noteq> i"
  shows "keeps i ov (fold (hold_step he) es ov)"
  using assms
proof (induction es arbitrary: ov h)
  case (Cons e es)
  have k: "keeps i ov (hold_step he e ov)"
  proof (rule terminal_step [OF Cons.prems(1-3)])
    fix block staked tx c assume "e = Ev_Cert block staked tx" "he_read_cert he (lt_call_args tx) = Some c"
    then show "hb_id (hc_body c) \<noteq> i" by (intro Cons.prems(5) [of block staked tx c]) simp_all
  next
    fix block tx assume "e = Ev_Op block tx"
    then show "t \<le> lb_timestamp block" by (intro Cons.prems(4) [of block tx]) simp
  qed
  obtain h' where h': "load_hold (hold_step he e ov) i = Some h'" "\<And>t. phase_of (hold_step he e ov) h' t = phase_of ov h t"
    by (rule keeps_phase [OF k Cons.prems(1,2)]) (rule that)
  have "terminal (phase_of (hold_step he e ov) h' t)" using h'(2) Cons.prems(3) by simp
  then have "keeps i (hold_step he e ov) (fold (hold_step he) es (hold_step he e ov))"
    by (rule Cons.IH [OF store_ok_step [OF Cons.prems(1)] h'(1)])
      (rule Cons.prems(4,5), erule list.set_intros, assumption?)+
  with k show ?case by (auto intro: keeps_trans)
qed simp

lemma check_cert_signing:
  assumes "check_cert he ov tx p = (q, Inr u)"
  obtains c h where "he_read_cert he (lt_call_args tx) = Some c" "load_hold ov (hb_id (hc_body c)) = Some h" "phase_of ov h (pl_now p) = Signing"
proof -
  have b: "lt_hash tx = batch_hash he TX_CERT (pl_height p) (lt_call_args tx)"
    using assms by (rule_tac ccontr) (simp add: check_cert_def)
  obtain c where c: "he_read_cert he (lt_call_args tx) = Some c"
    using assms b by (cases "he_read_cert he (lt_call_args tx)") (simp_all add: check_cert_def)
  note body = assms [unfolded check_cert_def Let_def c option.case]
  have n: "hb_id (hc_body c) \<notin> pl_certs p" using body b by (rule_tac ccontr) simp
  obtain h where h: "load_hold ov (hb_id (hc_body c)) = Some h"
    using body b n by (cases "load_hold ov (hb_id (hc_body c))") simp_all
  have "phase_of ov h (pl_now p) = Signing" using body b n h by (rule_tac ccontr) simp
  with c h that show thesis by blast
qed

lemma judge_cert:
  assumes "judge he ov balance tx p = (q, Fit_Yes)" "is_cert_tx tx"
  obtains c h where "he_read_cert he (lt_call_args tx) = Some c" "load_hold ov (hb_id (hc_body c)) = Some h" "phase_of ov h (pl_now p) = Signing"
proof -
  have n: "\<not> is_hold_op tx" using assms(2)
    by (simp add: is_cert_tx_def is_hold_op_def USER_TYPES_def TX_CERT_def TX_REQUEST_def TX_VOTE_def TX_NODE_VOTE_def TX_APPEAL_def TX_RETURN_def)
  obtain r u where c: "check_cert he ov tx p = (r, u)" by (cases "check_cert he ov tx p")
  with assms n obtain x where "u = Inr x" by (cases u) (simp_all add: judge_def)
  with c that show thesis using check_cert_signing by blast
qed

lemma judge_now: "judge he ov balance tx p = (q, Fit_Yes) \<Longrightarrow> pl_now q = pl_now p \<and> pl_height q = pl_height p"
  by (erule judge_cases) (auto dest: judge_coins_spent(1,2))

lemma plan_all_certs:
  assumes "plan_all he act ov balance txs p = Inr q" "rule_active act (pl_height p)" "tx \<in> set txs" "is_cert_tx tx"
    and "he_read_cert he (lt_call_args tx) = Some c"
  shows "\<exists>h. load_hold ov (hb_id (hc_body c)) = Some h \<and> phase_of ov h (pl_now p) = Signing"
  using assms
proof (induction txs arbitrary: p)
  case (Cons x txs)
  obtain r where r: "judge he ov balance x p = (r, Fit_Yes)" "plan_all he act ov balance txs r = Inr q"
    by (rule plan_all_Cons [OF Cons.prems(1,2)])
  show ?case
  proof (cases "x = tx")
    case True
    from judge_cert [OF r(1)] True Cons.prems(4,5) show ?thesis by auto
  next
    case False
    with Cons.IH [OF r(2)] Cons.prems judge_now [OF r(1)] show ?thesis by simp
  qed
qed simp

text \<open>
  A chain of blocks. Each block is validated on the overlay it meets and applied; before and after
  it the other rules of the chain write entries that are not of the holds.
\<close>

record chain_step =
  cs_block :: ledger_block
  cs_txs :: "ledger_tx list"
  cs_staked :: u64
  cs_balance :: "string \<Rightarrow> u64"
  cs_before :: "(string \<times> stored option) list"
  cs_after :: "(string \<times> stored option) list"

definition foreign :: "(string \<times> stored option) list \<Rightarrow> bool" where
  "foreign ws \<longleftrightarrow> list_all (\<lambda>w. \<not> starts_with (fst w) ''hold:'') ws"

definition run_step :: "hold_env \<Rightarrow> activation \<Rightarrow> chain_step \<Rightarrow> overlay \<Rightarrow> overlay" where
  "run_step he act c ov =
     fold ov_write (cs_after c) (hold_apply_block he act (cs_block c) (cs_txs c) (cs_staked c) (fold ov_write (cs_before c) ov))"

fun hold_blocks :: "hold_env \<Rightarrow> activation \<Rightarrow> chain_step list \<Rightarrow> overlay \<Rightarrow> overlay option" where
  "hold_blocks he act [] ov = Some ov"
| "hold_blocks he act (c # cs) ov =
     (case hold_validate he act ov (cs_block c) (cs_txs c) (cs_balance c) of
        Inl _ \<Rightarrow> None
      | Inr _ \<Rightarrow> if foreign (cs_before c) \<and> foreign (cs_after c) then hold_blocks he act cs (run_step he act c ov) else None)"

lemma hold_blocks_Cons:
  assumes "hold_blocks he act (c # cs) ov = Some ov'"
  shows "hold_validate he act ov (cs_block c) (cs_txs c) (cs_balance c) = Inr ()" "foreign (cs_before c)" "foreign (cs_after c)"
    "hold_blocks he act cs (run_step he act c ov) = Some ov'"
  using assms by (auto split: sum.splits if_splits)

lemma write_others_frame:
  assumes "foreign ws"
  shows "load_hold (fold ov_write ws ov) i = load_hold ov i" "tally_of (fold ov_write ws ov) i ph = tally_of ov i ph"
proof -
  have "ov_get (fold ov_write ws ov) (key k) = ov_get ov (key k)" for k
    by (rule store.batch_outside [where P = "\<lambda>k. starts_with k ''hold:''"]) (use assms in \<open>simp_all add: foreign_def key_def starts_with_def\<close>)
  then show "load_hold (fold ov_write ws ov) i = load_hold ov i" "tally_of (fold ov_write ws ov) i ph = tally_of ov i ph"
    by (simp_all add: load_hold_def tally_of_def hold_key_def tally_key_def)
qed

lemma store_ok_block: "store_ok ov \<Longrightarrow> store_ok (hold_apply_block he act block txs staked ov)"
proof -
  assume ok: "store_ok ov"
  have "store_ok (fold (hold_step he) es ov)" for es using ok
    by (induction es arbitrary: ov) (auto intro: store_ok_step)
  with ok show ?thesis by (simp add: hold_apply_block_def apply_effects_steps)
qed

lemma store_ok_others: "store_ok ov \<Longrightarrow> foreign ws \<Longrightarrow> store_ok (fold ov_write ws ov)"
  by (simp add: store_ok_def write_others_frame)

lemma store_ok_run: "store_ok ov \<Longrightarrow> foreign (cs_before c) \<Longrightarrow> foreign (cs_after c) \<Longrightarrow> store_ok (run_step he act c ov)"
  by (simp add: run_step_def store_ok_others store_ok_block)

lemma keeps_others: "foreign ws \<Longrightarrow> keeps i ov (fold ov_write ws ov)"
  by (simp add: keeps_def write_others_frame)

lemma phase_others: "foreign ws \<Longrightarrow> phase_of (fold ov_write ws ov) h t = phase_of ov h t"
  by (simp add: phase_of_def write_others_frame)

lemma terminal_block:
  assumes ok: "store_ok ov" "load_hold ov i = Some h" "terminal (phase_of ov h t)" and t: "t \<le> lb_timestamp (cs_block c)"
    and v: "hold_validate he act ov (cs_block c) (cs_txs c) (cs_balance c) = Inr ()" and f: "foreign (cs_before c)" "foreign (cs_after c)"
  shows "keeps i ov (run_step he act c ov)"
proof -
  let ?ov = "fold ov_write (cs_before c) ov" and ?es = "block_events (cs_block c) (cs_txs c) (cs_staked c)"
  have "keeps i ?ov (hold_apply_block he act (cs_block c) (cs_txs c) (cs_staked c) ?ov)"
  proof (cases "rule_active act (lb_height (cs_block c))")
    case True
    obtain q where q: "plan_all he act ov (cs_balance c) (cs_txs c) (planner_new (lb_height (cs_block c)) (lb_timestamp (cs_block c))) = Inr q"
      using v by (auto simp: hold_validate_def)
    have p: "pl_height (planner_new h n) = h" "pl_now (planner_new h n) = n" for h n by (simp_all add: planner_new_def)
    have "keeps i ?ov (fold (hold_step he) ?es ?ov)"
    proof (rule terminal_steps [of _ _ h t])
      fix b tx assume "Ev_Op b tx \<in> set ?es"
      then show "t \<le> lb_timestamp b" using t by (auto simp: block_events_def)
    next
      fix b s tx x assume e: "Ev_Cert b s tx \<in> set ?es" "he_read_cert he (lt_call_args tx) = Some x"
      then have "tx \<in> set (cs_txs c)" "is_cert_tx tx" by (auto simp: block_events_def)
      from plan_all_certs [OF q, unfolded p, OF True this e(2)] obtain g where
        "load_hold ov (hb_id (hc_body x)) = Some g" "phase_of ov g (lb_timestamp (cs_block c)) = Signing" by blast
      with phase_stable [OF ok(3) t] ok(2,3) show "hb_id (hc_body x) \<noteq> i" by (auto simp: terminal_def)
    qed (use ok f in \<open>simp_all add: store_ok_others write_others_frame phase_others\<close>)
    with True show ?thesis by (simp add: hold_apply_block_def apply_effects_steps)
  qed (simp add: hold_apply_block_def)
  with keeps_trans keeps_others f show ?thesis unfolding run_step_def by metis
qed

text \<open>
  C20. A hold that has ended stays as it ended: once its phase at a time is failed, rejected, lapsed,
  returned or expired, every chain of valid blocks from that time on leaves a hold that is in this
  phase at that time and at every later one.
\<close>

theorem ended_hold_stays:
  assumes "hold_blocks he act cs ov = Some ov'" "store_ok ov" "load_hold ov i = Some h" "terminal (phase_of ov h t)"
    and "\<forall>c \<in> set cs. t \<le> lb_timestamp (cs_block c)"
  shows "\<exists>h'. load_hold ov' i = Some h' \<and> (\<forall>t' \<ge> t. phase_of ov' h' t' = phase_of ov h t)"
  using assms
proof (induction cs arbitrary: ov h)
  case Nil
  then show ?case by (auto intro: phase_stable)
next
  case (Cons c cs)
  note step = hold_blocks_Cons [OF Cons.prems(1)]
  have k: "keeps i ov (run_step he act c ov)"
    by (rule terminal_block [OF Cons.prems(2-4) _ step(1-3)]) (use Cons.prems(5) in simp)
  obtain h2 where h2: "load_hold (run_step he act c ov) i = Some h2" "\<And>t. phase_of (run_step he act c ov) h2 t = phase_of ov h t"
    by (rule keeps_phase [OF k Cons.prems(2,3)]) (rule that)
  from Cons.IH [OF step(4) store_ok_run [OF Cons.prems(2) step(2,3)] h2(1)] h2(2) Cons.prems(4,5) show ?case by simp
qed

subsection \<open>Two holds\<close>

text \<open>A hold in its vote, a staker and two copies of the staker's vote.\<close>

definition demo_id :: string where "demo_id = ''hold0000000000000000''"

definition voting_env :: hold_env where
  "voting_env = demo_env\<lparr>he_read_vote := (\<lambda>s. Some \<lparr>vb_id = demo_id, vb_phase = PHASE_CONFIRM, vb_yes = True\<rparr>)\<rparr>"

definition demo_voting :: overlay where
  "demo_voting = ov_put (''stake:'' @ demo_sender) (St_U64 5)
     (ov_put (hold_key demo_id)
       (St_Hold ((new_hold demo_id demo_sender demo_request demo_block [''a'', ''b'', ''c'', ''d''])\<lparr>hd_held_at := 1000\<rparr>)) demo_pool)"

definition vote_tx :: ledger_tx where
  "vote_tx = (plain_tx ''v'' demo_sender demo_sender 0 0)\<lparr>lt_type := TX_VOTE, lt_memo := memo_for voting_env TX_VOTE []\<rparr>"

lemma demo_id_ok: "is_id demo_id"
  by code_simp

lemma vote_wf: "well_formed voting_env vote_tx = Inr ()"
  by code_simp

lemma demo_load [simp]:
  "load_hold demo_voting j = (if demo_id = j then Some ((new_hold demo_id demo_sender demo_request demo_block [''a'', ''b'', ''c'', ''d''])\<lparr>hd_held_at := 1000\<rparr>) else None)"
  "tally_of demo_voting j ph = default_tally" "load_hold demo_bound j = (if ''h'' = j then Some (new_hold ''h'' demo_sender demo_request demo_block [''a'', ''b'', ''c'', ''d'']) else None)"
  by (simp_all add: demo_voting_def demo_bound_def load_hold_def tally_of_def hold_keys demo_pool_empty)

lemma demo_store_ok: "store_ok demo_voting" "store_ok demo_bound"
  by (auto simp: store_ok_def new_hold_def split: if_splits)

lemma demo_stake: "stake_of demo_voting demo_sender = 5"
  by (simp add: stake_of_def load_u64_def demo_voting_def hold_keys)

lemma demo_window:
  "vote_window demo_voting ((new_hold demo_id demo_sender demo_request demo_block ks)\<lparr>hd_held_at := 1000\<rparr>) PHASE_CONFIRM 1000 = (True, 260200)"
  by (simp add: vote_window_def phase_of_def new_hold_def vote_end_def i64_sat_add_def VOTE_SECS_def i64_max_def i64_min_def)

lemma demo_vote_applies:
  "apply_op voting_env demo_block vote_tx demo_voting =
     Inr (cast_hold_vote ((new_hold demo_id demo_sender demo_request demo_block [''a'', ''b'', ''c'', ''d''])\<lparr>hd_held_at := 1000\<rparr>)
       \<lparr>vb_id = demo_id, vb_phase = PHASE_CONFIRM, vb_yes = True\<rparr> demo_sender False 5 260200 demo_voting)"
proof -
  have tx: "lt_type vote_tx = TX_VOTE" "TX_VOTE \<noteq> TX_REQUEST" "lt_from vote_tx = demo_sender" "lb_timestamp demo_block = 1000"
    "hd_id ((new_hold demo_id demo_sender demo_request demo_block [''a'', ''b'', ''c'', ''d''])\<lparr>hd_held_at := 1000\<rparr>) = demo_id"
    by (simp_all add: vote_tx_def plain_tx_def TX_VOTE_def TX_REQUEST_def demo_block_def new_hold_def)
  have r: "he_read_vote voting_env s = Some \<lparr>vb_id = demo_id, vb_phase = PHASE_CONFIRM, vb_yes = True\<rparr>" for s
    by (simp add: voting_env_def)
  have k: "ov_get demo_voting (vote_key demo_id PHASE_CONFIRM (ballot_kind False) demo_sender) = None"
    by (simp add: demo_voting_def hold_keys demo_pool_empty)
  show ?thesis
    by (simp add: apply_op_def vote_wf tx op_vote_def r readable_def demo_window k voter_weight_def demo_stake)
qed

lemma demo_vote_log:
  "vote_log voting_env demo_id PHASE_CONFIRM [Ev_Op demo_block vote_tx, Ev_Op demo_block vote_tx] demo_voting = [((False, demo_sender), 5, True)]"
proof -
  let ?ov = "hold_step voting_env (Ev_Op demo_block vote_tx) demo_voting"
  have p: "vote_phase PHASE_CONFIRM" "length demo_id = 20" by (simp_all add: vote_phase_def demo_id_def)
  have tx: "lt_type vote_tx = TX_VOTE" "TX_VOTE \<noteq> TX_NODE_VOTE" "lt_from vote_tx = demo_sender"
    by (simp_all add: vote_tx_def plain_tx_def TX_VOTE_def TX_NODE_VOTE_def)
  have r: "he_read_vote voting_env s = Some \<lparr>vb_id = demo_id, vb_phase = PHASE_CONFIRM, vb_yes = True\<rparr>" for s
    by (simp add: voting_env_def)
  have 1: "ballot_of voting_env demo_id PHASE_CONFIRM (Ev_Op demo_block vote_tx) demo_voting = [((False, demo_sender), 5, True)]"
    by (simp add: ballot_of_def tx demo_vote_applies r voter_weight_def demo_stake)
  from step_ballot [OF demo_store_ok(1) p(2,1), of voting_env "Ev_Op demo_block vote_tx"] 1
  have v: "has_voted ?ov demo_id PHASE_CONFIRM (False, demo_sender)" by auto
  have "set (ballot_of voting_env demo_id PHASE_CONFIRM (Ev_Op demo_block vote_tx) ?ov) \<subseteq> {x. fst x = (False, demo_sender)}"
    by (auto simp: ballot_of_def tx split: sum.splits option.splits if_splits)
  moreover from step_ballot [OF store_ok_step [OF demo_store_ok(1)] p(2,1), of voting_env "Ev_Op demo_block vote_tx" voting_env "Ev_Op demo_block vote_tx"] v
  have "(False, demo_sender) \<notin> fst ` set (ballot_of voting_env demo_id PHASE_CONFIRM (Ev_Op demo_block vote_tx) ?ov)" by auto
  ultimately have 2: "ballot_of voting_env demo_id PHASE_CONFIRM (Ev_Op demo_block vote_tx) ?ov = []"
    by (cases "ballot_of voting_env demo_id PHASE_CONFIRM (Ev_Op demo_block vote_tx) ?ov") force+
  show ?thesis using 1 2 by simp
qed


text \<open>The hold of the open request fails after an hour; a later block spends what it bound.\<close>

definition late_step :: chain_step where
  "late_step = \<lparr>cs_block = \<lparr>lb_height = 20, lb_timestamp = 9000\<rparr>, cs_txs = [plain_tx ''r'' demo_sender demo_thief 150000000 0],
     cs_staked = 0, cs_balance = demo_balance, cs_before = [(''stake:x'', Some (St_U64 1))], cs_after = [(''dao:x'', None)]\<rparr>"

lemma demo_failed: "5000 \<le> t \<Longrightarrow> phase_of demo_bound (new_hold ''h'' demo_sender demo_request demo_block ks) t = Failed"
  by (simp add: phase_of_def new_hold_def demo_block_def SIGN_WINDOW_SECS_def i64_sat_add_def i64_max_def i64_min_def)

lemma late_validates: "hold_validate demo_env (Some 0) demo_bound (cs_block late_step) (cs_txs late_step) demo_balance = Inr ()"
proof -
  have "ov_get demo_bound (bond_key demo_sender) = Some (St_Id ''h'')" by (simp add: demo_bound_def)
  moreover have "load_ids demo_bound (addr_key demo_sender) = []" by (simp add: load_ids_def demo_bound_def hold_keys demo_pool_empty)
  ultimately have "bond_on demo_bound demo_sender 9000 = 0" "held_on demo_bound demo_sender 9000 = 0"
    by (simp_all add: bond_on_def held_on_def demo_failed binds_bond_def map_filter_simps)
  then have l: "locked demo_bound demo_sender 9000 = 0" by (simp add: locked_def sat_add_def)
  have "\<exists>q. judge demo_env demo_bound demo_balance (plain_tx ''r'' demo_sender demo_thief 150000000 0) (planner_new 20 9000) = (q, Fit_Yes)"
    by (simp add: judge_def demo_txs judge_coins_def request_need_def l demo_reads planner_new_def Let_def)
  then show ?thesis
    by (auto simp: hold_validate_def late_step_def demo_txs fit_of_def rule_active_def planner_new_def)
qed

theorem ended_hold_stays_witness:
  "\<exists>ov h. hold_blocks demo_env (Some 0) [late_step] demo_bound = Some ov \<and> load_hold ov ''h'' = Some h \<and> phase_of ov h 9000 = Failed"
proof -
  let ?h = "new_hold ''h'' demo_sender demo_request demo_block [''a'', ''b'', ''c'', ''d'']"
  obtain ov where ov: "hold_blocks demo_env (Some 0) [late_step] demo_bound = Some ov"
    using late_validates by (simp add: late_step_def foreign_def starts_with_def)
  have "terminal (phase_of demo_bound ?h 5000)" by (simp add: demo_failed terminal_def)
  from ended_hold_stays [OF ov demo_store_ok(2) _ this, of "''h''"] obtain h where
    "load_hold ov ''h'' = Some h" "\<forall>t' \<ge> 5000. phase_of ov h t' = phase_of demo_bound ?h 5000"
    by (auto simp: late_step_def)
  with ov show ?thesis by (auto simp: demo_failed)
qed

end
