(* ===== verification/Hold_Pay.thy ===== *)
theory Hold_Pay
  imports Hold_Course
begin

section \<open>The payments of holds\<close>

text \<open>
  What a rejected or returned hold pays: the payments a block may hold are those that are due, and
  a hold is paid out in one block of a chain.
\<close>


subsection \<open>A hold is paid out in one block\<close>

lemma rsplit_once_last: "c \<notin> set b \<Longrightarrow> rsplit_once c (a @ c # b) = Some (a, b)"
proof -
  assume c: "c \<notin> set b"
  then have "takeWhile (\<lambda>x. x \<noteq> c) (rev b @ c # rev a) = rev b" by (subst takeWhile_append2) auto
  then show ?thesis by (simp add: rsplit_once_def Let_def)
qed

lemma decimal_no_colon: "CHR '':'' \<notin> set (decimal n)"
  using decimal_digits [of n] by (auto simp: list_all_iff)

lemma settle_parts_of: "settle_parts (settle_tx he height now i n s amount) = map_option (\<lambda>m. (i, m)) (parse_usize (decimal n))"
  using rsplit_once_last [OF decimal_no_colon, of i n]
  by (cases "parse_usize (decimal n)") (simp_all add: settle_parts_def settle_tx_def settle_memo_def strip_prefix_def starts_with_def)

lemma settle_tx_parts: "settle_parts (settle_tx he height now i n s amount) = Some (j, m) \<Longrightarrow> j = i"
  by (auto simp: settle_parts_of)

text \<open>What is expected of a block: payments of live holds that are not paid yet.\<close>

lemma settle_txs_due:
  assumes "e \<in> set (settle_txs he act ov height now balance)"
  obtains i h n s where "i \<in> set (live ov)" "load_hold ov i = Some h" "\<not> hd_paid h" "s \<in> set (settlements ov h now)"
    "e = settle_tx he height now i n s (min (se_owed s) (balance (se_from s)))" "0 < min (se_owed s) (balance (se_from s))"
proof -
  obtain i where i: "i \<in> set (live ov)" "e \<in> set (hold_payments he ov height now balance i)"
    using assms by (auto simp: settle_txs_def split: if_splits)
  obtain h where h: "load_hold ov i = Some h" using i(2) by (cases "load_hold ov i") (simp_all add: hold_payments_def)
  obtain n s where s: "(n, s) \<in> set (enumerate 0 (settlements ov h now))" "min (se_owed s) (balance (se_from s)) \<noteq> 0"
    "e = settle_tx he height now i n s (min (se_owed s) (balance (se_from s)))"
    using i(2) h by (auto simp: hold_payments_def map_filter_def Let_def split: if_splits)
  have "s \<in> set (settlements ov h now)" using s(1) by (auto simp: in_set_enumerate_eq)
  moreover from this have "\<not> hd_paid h" by (cases "hd_paid h") (simp_all add: settlements_def)
  moreover have "0 < min (se_owed s) (balance (se_from s))" using s(2) by (simp only: word_gt_0 simp_thms)
  ultimately show thesis using that [OF i(1) h _ _ s(3)] by blast
qed

lemma expected_payments_set: "snd ` set (expected_payments txs) \<subseteq> set txs"
proof -
  have "snd ` set (fold (\<lambda>tx m. AList.update (lt_hash tx) tx m) txs m) \<subseteq> set txs \<union> snd ` set m" for m
  proof (induction txs arbitrary: m)
    case (Cons tx txs)
    have "snd ` set (AList.update (lt_hash tx) tx m) \<subseteq> insert tx (snd ` set m)"
      by (induction m) auto
    with Cons [of "AList.update (lt_hash tx) tx m"] show ?case by auto
  qed simp
  from this [of "[]"] show ?thesis by (simp add: expected_payments_def)
qed

lemma check_payments_all: "check_payments he m txs = Inr () \<Longrightarrow> tx \<in> set txs \<Longrightarrow> check_payment he m tx = Inr ()"
  by (induction txs) auto

lemma plan_all_inactive:
  "plan_all he act ov balance txs p = Inr q \<Longrightarrow> \<not> rule_active act (pl_height p) \<Longrightarrow> tx \<in> set txs \<Longrightarrow> \<not> is_settle tx"
  by (induction txs arbitrary: p) (auto simp: fit_of_def split: if_splits)

lemma validate_settles:
  assumes "hold_validate he act ov block txs balance = Inr ()" "tx \<in> set txs" "is_settle tx"
  defines "m \<equiv> expected_payments (settle_txs he act ov (lb_height block) (lb_timestamp block) balance)"
  shows "rule_active act (lb_height block)" "check_payment he m tx = Inr ()" "check_complete m (filter is_settle txs) = Inr ()"
proof -
  obtain q where q: "plan_all he act ov balance txs (planner_new (lb_height block) (lb_timestamp block)) = Inr q"
    using assms(1) by (auto simp: hold_validate_def)
  show a: "rule_active act (lb_height block)"
    using plan_all_inactive [OF q _ assms(2)] assms(3) by (auto simp: planner_new_def)
  have "filter is_settle txs \<noteq> []" using assms(2,3) by (auto simp: filter_empty_conv)
  then have "check_payments he m (filter is_settle txs) = Inr () \<and> check_complete m (filter is_settle txs) = Inr ()"
    using assms(1) a by (simp add: hold_validate_def q m_def Let_def)
  then show "check_payment he m tx = Inr ()" "check_complete m (filter is_settle txs) = Inr ()"
    using check_payments_all assms(2,3) by auto
qed

text \<open>
  C22. A validated block pays what is due and nothing else: every settlement in it moves, from and to
  the accounts of an unpaid settlement of a live hold, the smaller of what is owed and what the
  payer has.
\<close>

theorem settlement_is_due:
  assumes "hold_validate he act ov block txs balance = Inr ()" "tx \<in> set txs" "is_settle tx"
  shows "\<exists>i h s. i \<in> set (live ov) \<and> load_hold ov i = Some h \<and> \<not> hd_paid h \<and> s \<in> set (settlements ov h (lb_timestamp block))
    \<and> lt_from tx = se_from s \<and> lt_to tx = se_to s \<and> lt_amount tx = min (se_owed s) (balance (se_from s))"
proof -
  let ?due = "settle_txs he act ov (lb_height block) (lb_timestamp block) balance"
  obtain e where e: "map_of (expected_payments ?due) (lt_hash tx) = Some e" "lt_from e = lt_from tx" "lt_to e = lt_to tx" "lt_amount e = lt_amount tx"
    using validate_settles(2) [OF assms] by (auto simp: check_payment_def split: if_splits option.splits)
  have "e \<in> set ?due" using map_of_SomeD [OF e(1)] expected_payments_set [of ?due] by force
  then show ?thesis
  proof (rule settle_txs_due)
    fix i h n s assume a: "i \<in> set (live ov)" "load_hold ov i = Some h" "\<not> hd_paid h" "s \<in> set (settlements ov h (lb_timestamp block))"
      "e = settle_tx he (lb_height block) (lb_timestamp block) i n s (min (se_owed s) (balance (se_from s)))"
    from a(5) e have "lt_from tx = se_from s" "lt_to tx = se_to s" "lt_amount tx = min (se_owed s) (balance (se_from s))"
      by (simp_all add: settle_tx_def)
    with a show ?thesis by blast
  qed
qed

text \<open>A settlement names a hold that is stored and not paid.\<close>

lemma settle_unpaid:
  assumes "hold_validate he act ov block txs balance = Inr ()" "tx \<in> set txs" "is_settle tx"
  obtains h where "load_hold ov (settle_hold tx) = Some h" "\<not> hd_paid h"
proof -
  let ?due = "settle_txs he act ov (lb_height block) (lb_timestamp block) balance"
  let ?m = "expected_payments ?due" and ?i = "settle_hold tx"
  have "length (filter (\<lambda>t. settle_hold t = ?i) (filter is_settle txs)) = payments_for ?i (map snd ?m)"
    using validate_settles(3) [OF assms] assms(2,3) by (auto simp: check_complete_def list_all_iff split: if_splits)
  moreover have "tx \<in> set (filter (\<lambda>t. settle_hold t = ?i) (filter is_settle txs))" using assms(2,3) by simp
  ultimately have "0 < payments_for ?i (map snd ?m)" by (metis length_pos_if_in_set)
  then obtain e where "e \<in> snd ` set ?m" "case settle_parts e of None \<Rightarrow> False | Some (j, _) \<Rightarrow> j = ?i"
    by (auto simp: payments_for_def filter_empty_conv)
  then obtain n where e: "e \<in> snd ` set ?m" "settle_parts e = Some (?i, n)" by (auto split: option.splits)
  have "e \<in> set ?due" using e(1) expected_payments_set by blast
  then show thesis
  proof (rule settle_txs_due)
    fix i h k s assume a: "load_hold ov i = Some h" "\<not> hd_paid h"
      "e = settle_tx he (lb_height block) (lb_timestamp block) i k s (min (se_owed s) (balance (se_from s)))"
    have "?i = i" using e(2) unfolding a(3) by (rule settle_tx_parts)
    with a that show thesis by simp
  qed
qed

lemma step_keeps_paid:
  assumes "store_ok ov" "load_hold ov i = Some h"
  obtains h' where "load_hold (hold_step he e ov) i = Some h'" "hd_paid h \<Longrightarrow> hd_paid h'"
proof (cases rule: hold_step_cases [of he e ov])
  case same
  with assms(2) that show thesis by simp
next
  case (paid j)
  then have "load_hold (hold_step he e ov) i = Some (if j = i then h\<lparr>hd_paid := True\<rparr> else h)"
    using assms by (simp add: mark_paid_writes)
  then show thesis by (rule that) simp
next
  case (cert block staked tx c g g')
  with assms store_okD [OF assms(1) cert(3)] that show thesis by (cases "hd_id g = i") (simp_all add: rewrites_holdD)
next
  case (request block tx j g)
  with assms have "j \<noteq> i" by auto
  with request assms that show thesis by (simp add: rewrites_holdD)
next
  case (vote block tx node b g w ends)
  with assms(2) that show thesis by (simp add: cast_hold_vote_writes)
next
  case (appeal block tx j g g')
  with assms store_okD [OF assms(1) appeal(3)] that show thesis by (cases "hd_id g = i") (simp_all add: rewrites_holdD)
next
  case (return block tx j g g')
  with assms store_okD [OF assms(1) return(3)] that show thesis by (cases "hd_id g = i") (simp_all add: rewrites_holdD)
qed

lemma steps_keep_paid:
  assumes "store_ok ov" "load_hold ov i = Some h"
  shows "\<exists>h'. load_hold (fold (hold_step he) es ov) i = Some h' \<and> (hd_paid h \<or> Ev_Paid i \<in> set es \<longrightarrow> hd_paid h')"
  using assms
proof (induction es arbitrary: ov h)
  case (Cons e es)
  obtain h1 where h1: "load_hold (hold_step he e ov) i = Some h1" "hd_paid h \<Longrightarrow> hd_paid h1"
    by (rule step_keeps_paid [OF Cons.prems, of he e]) (rule that)
  have "hd_paid h1" if "e = Ev_Paid i" using h1(1) Cons.prems that by (auto simp: mark_paid_writes)
  with Cons.IH [OF store_ok_step [OF Cons.prems(1)] h1(1)] h1(2) show ?case by auto
qed simp

lemma block_keeps_paid:
  assumes "store_ok ov" "load_hold ov i = Some h"
  shows "\<exists>h'. load_hold (hold_apply_block he act block txs staked ov) i = Some h' \<and>
    (hd_paid h \<or> rule_active act (lb_height block) \<and> i \<in> set (paid_ids txs) \<longrightarrow> hd_paid h')"
  using steps_keep_paid [OF assms, of he "block_events block txs staked"] assms(2)
  by (auto simp: hold_apply_block_def apply_effects_steps block_events_def)

lemma hold_blocks_append:
  "hold_blocks he act (as @ bs) ov = Option.bind (hold_blocks he act as ov) (hold_blocks he act bs)"
  by (induction as arbitrary: ov) (auto split: sum.split)

lemma hold_blocks_ok: "hold_blocks he act cs ov = Some ov' \<Longrightarrow> store_ok ov \<Longrightarrow> store_ok ov'"
proof (induction cs arbitrary: ov)
  case (Cons c cs)
  note step = hold_blocks_Cons [OF Cons.prems(1)]
  from Cons.IH [OF step(4) store_ok_run [OF Cons.prems(2) step(2,3)]] show ?case .
qed simp

lemma run_keeps_paid:
  assumes "store_ok ov" "load_hold ov i = Some h" "foreign (cs_before c)" "foreign (cs_after c)"
  shows "\<exists>h'. load_hold (run_step he act c ov) i = Some h' \<and>
    (hd_paid h \<or> rule_active act (lb_height (cs_block c)) \<and> i \<in> set (paid_ids (cs_txs c)) \<longrightarrow> hd_paid h')"
  unfolding run_step_def write_others_frame(1) [OF assms(4)]
  by (rule block_keeps_paid) (use assms in \<open>simp_all add: store_ok_others write_others_frame\<close>)

text \<open>A paid hold is not settled by any block of a chain.\<close>

lemma paid_not_settled:
  assumes "hold_blocks he act cs ov = Some ov'" "store_ok ov" "load_hold ov i = Some h" "hd_paid h"
    and "d \<in> set cs" "tx \<in> set (cs_txs d)" "is_settle tx"
  shows "settle_hold tx \<noteq> i"
  using assms
proof (induction cs arbitrary: ov h)
  case (Cons c cs)
  note step = hold_blocks_Cons [OF Cons.prems(1)]
  show ?case
  proof (cases "d = c")
    case True
    show ?thesis by (rule settle_unpaid [OF step(1), of tx]) (use Cons.prems True in auto)
  next
    case False
    obtain h1 where h1: "load_hold (run_step he act c ov) i = Some h1" "hd_paid h1"
      using run_keeps_paid [OF Cons.prems(2,3) step(2,3)] Cons.prems(4) by metis
    from False Cons.prems(5) have "d \<in> set cs" by simp
    from Cons.IH [OF step(4) store_ok_run [OF Cons.prems(2) step(2,3)] h1 this Cons.prems(6,7)] show ?thesis .
  qed
qed simp

text \<open>
  C10. A hold is paid out in one block: when a block of a chain of valid blocks settles a hold, no
  later block of the chain settles it again.
\<close>

theorem paid_in_one_block:
  assumes "hold_blocks he act (bs @ c # cs) ov = Some ov'" "store_ok ov" "tx \<in> set (cs_txs c)" "is_settle tx"
    and "d \<in> set cs" "tx' \<in> set (cs_txs d)" "is_settle tx'"
  shows "settle_hold tx' \<noteq> settle_hold tx"
proof -
  obtain ov0 where ov0: "hold_blocks he act bs ov = Some ov0" "hold_blocks he act (c # cs) ov0 = Some ov'"
    using assms(1) by (auto simp: hold_blocks_append bind_eq_Some_conv simp del: hold_blocks.simps)
  have ok: "store_ok ov0" by (rule hold_blocks_ok [OF ov0(1) assms(2)])
  note step = hold_blocks_Cons [OF ov0(2)]
  obtain h where h: "load_hold ov0 (settle_hold tx) = Some h" by (rule settle_unpaid [OF step(1) assms(3,4)])
  have "settle_parts tx \<noteq> None"
    using validate_settles(2) [OF step(1) assms(3,4)] by (auto simp: check_payment_def settle_is_well_formed_def split: if_splits option.splits)
  then have "settle_hold tx \<in> set (paid_ids (cs_txs c))"
    using assms(3,4) by (force simp: paid_ids_def settle_hold_def map_filter_def)
  then obtain h1 where h1: "load_hold (run_step he act c ov0) (settle_hold tx) = Some h1" "hd_paid h1"
    using run_keeps_paid [OF ok h step(2,3)] validate_settles(1) [OF step(1) assms(3,4)] by metis
  show ?thesis by (rule paid_not_settled [OF step(4) store_ok_run [OF ok step(2,3)] h1 assms(5-7)])
qed

subsection \<open>Two rejected holds\<close>

text \<open>Two holds that were voted down; the first block pays the bond of one, the second that of the other.\<close>

definition payout_env :: hold_env where
  "payout_env = demo_env\<lparr>he_blake3 := (\<lambda>s. [if s ! 23 = CHR ''1'' then 1 else 0]), he_hex := (\<lambda>b. if b = [1] then ''1'' else ''0'')\<rparr>"

definition other_id :: string where "other_id = ''hold1111111111111111''"

definition rejected_hold :: "string \<Rightarrow> hold" where
  "rejected_hold i = (new_hold i demo_sender demo_request demo_block [''a'', ''b'', ''c'', ''d''])\<lparr>hd_held_at := 1000, hd_amounts := [(demo_thief, 50)]\<rparr>"

definition against :: hold_tally where
  "against = \<lparr>ty_stake_yes = 0, ty_stake_no = 1, ty_stake_voters = 3, ty_node_yes = 0, ty_node_no = 1, ty_node_voters = 3\<rparr>"

definition payout_store :: overlay where
  "payout_store = ov_put LIVE_KEY (St_Ids [demo_id, other_id])
     (ov_put (tally_key demo_id PHASE_CONFIRM) (St_Tally against) (ov_put (tally_key other_id PHASE_CONFIRM) (St_Tally against)
     (ov_put (hold_key demo_id) (St_Hold (rejected_hold demo_id)) (ov_put (hold_key other_id) (St_Hold (rejected_hold other_id)) demo_pool))))"

definition bond_due :: settlement where
  "bond_due = \<lparr>se_from = demo_sender, se_to = demo_thief, se_owed = 100000000\<rparr>"

definition payout :: "u64 \<Rightarrow> string \<Rightarrow> ledger_tx" where
  "payout height i = settle_tx payout_env height 300000 i 0 bond_due 100000000"

definition payout_step :: "u64 \<Rightarrow> string \<Rightarrow> chain_step" where
  "payout_step height i = \<lparr>cs_block = \<lparr>lb_height = height, lb_timestamp = 300000\<rparr>, cs_txs = [payout height i], cs_staked = 0,
     cs_balance = demo_balance, cs_before = [], cs_after = []\<rparr>"

lemma payout_ids: "demo_id \<noteq> other_id" "length demo_id = 20" "length other_id = 20"
  by (simp_all add: demo_id_def other_id_def)

lemma payout_load:
  "load_hold payout_store j = (if j = demo_id \<or> j = other_id then Some (rejected_hold j) else None)"
  "tally_of payout_store demo_id PHASE_CONFIRM = against" "tally_of payout_store other_id PHASE_CONFIRM = against"
  "live payout_store = [demo_id, other_id]"
  using payout_ids
  by (auto simp: payout_store_def load_hold_def tally_of_def live_def load_ids_def hold_keys demo_pool_empty)

lemma rejected_due:
  assumes "tally_of ov i PHASE_CONFIRM = against"
  shows "settlements ov (rejected_hold i) 300000 = [bond_due]" "settlements ov ((rejected_hold i)\<lparr>hd_paid := True\<rparr>) 300000 = []"
proof -
  have "outcome_of against (rejected_hold i) = Fail"
    by (simp add: outcome_of_def against_def rejected_hold_def new_hold_def MIN_VOTERS_def MIN_STAKE_PERCENT_def MIN_NODE_PERCENT_def sat_add_def Let_def)
  with assms have "phase_of ov (rejected_hold i) 300000 = Rejected"
    by (simp add: phase_of_def rejected_hold_def new_hold_def vote_end_def i64_sat_add_def VOTE_SECS_def i64_max_def i64_min_def Let_def)
  then show "settlements ov (rejected_hold i) 300000 = [bond_due]"
    by (simp add: settlements_def) (simp add: rejected_hold_def new_hold_def bond_due_def demo_reads)
qed (simp add: settlements_def)

lemma payout_amount: "min (se_owed bond_due) (demo_balance (se_from bond_due)) = 100000000"
  by (simp add: bond_due_def demo_balance_def min_def)

lemma payout_hash: "lt_hash (payout n demo_id) = ''0x0''" "lt_hash (payout n other_id) = ''0x1''"
  by (simp_all add: payout_def settle_tx_def settle_hash_def to_hex_def payout_env_def SETTLE_DOMAIN_def demo_id_def other_id_def)

lemma payout_parts: "settle_parts (payout n i) = Some (i, 0)"
proof -
  have d: "decimal 0 = ''0''" "is_digit CHR ''0''" by code_simp+
  have "parse_usize (decimal 0) = Some 0" by (simp add: d parse_usize_def Let_def)
  then show ?thesis by (simp add: payout_def settle_parts_of)
qed

lemma payout_fields: "is_settle (payout n i)" "lt_from (payout n i) = demo_sender" "lt_to (payout n i) = demo_thief" "lt_amount (payout n i) = 100000000"
  "\<not> is_hold_op (payout n i)" "\<not> is_cert_tx (payout n i)"
  by (simp_all add: payout_def settle_tx_def is_settle_def bond_due_def is_hold_op_def USER_TYPES_def is_cert_tx_def TX_SETTLE_def TX_CERT_def
        TX_REQUEST_def TX_VOTE_def TX_NODE_VOTE_def TX_APPEAL_def TX_RETURN_def)

lemma payout_wf: "settle_is_well_formed payout_env (payout n i)"
  by (simp add: settle_is_well_formed_def payout_parts payout_fields) (simp add: payout_def settle_tx_def bond_due_def)

lemma payout_validates:
  assumes "settle_txs payout_env (Some 0) ov n 300000 demo_balance \<in> {[payout n demo_id, payout n other_id], [payout n other_id]}"
    "payout n i \<in> set (settle_txs payout_env (Some 0) ov n 300000 demo_balance)" "i \<in> {demo_id, other_id}"
  shows "hold_validate payout_env (Some 0) ov \<lparr>lb_height = n, lb_timestamp = 300000\<rparr> [payout n i] demo_balance = Inr ()"
proof -
  have "judge payout_env ov demo_balance (payout n i) (planner_new n 300000) = (planner_new n 300000, Fit_Yes)"
    by (simp add: judge_def payout_fields)
  moreover have "payout n demo_id \<noteq> payout n other_id" using payout_hash [of n] by auto
  ultimately show ?thesis using assms payout_ids(1)
    by (auto simp: hold_validate_def fit_of_def rule_active_def payout_fields expected_payments_def check_payment_def payout_wf payout_hash
          check_complete_def payments_for_def payout_parts settle_hold_def Let_def)
qed

lemma payout_due: "settle_txs payout_env (Some 0) payout_store n 300000 demo_balance = [payout n demo_id, payout n other_id]"
  by (simp add: settle_txs_def rule_active_def payout_load hold_payments_def rejected_due payout_amount map_filter_simps payout_def)

theorem settlement_is_due_witness:
  "\<exists>i h s. i \<in> set (live payout_store) \<and> load_hold payout_store i = Some h \<and> \<not> hd_paid h \<and> s \<in> set (settlements payout_store h 300000)
    \<and> demo_sender = se_from s \<and> demo_thief = se_to s \<and> 100000000 = min (se_owed s) (demo_balance (se_from s))"
proof -
  have "hold_validate payout_env (Some 0) payout_store \<lparr>lb_height = 20, lb_timestamp = 300000\<rparr> [payout 20 demo_id] demo_balance = Inr ()"
    by (rule payout_validates) (simp_all add: payout_due)
  from settlement_is_due [OF this, of "payout 20 demo_id"] show ?thesis by (simp add: payout_fields)
qed

lemma payout_ok: "store_ok payout_store"
  by (auto simp: store_ok_def payout_load rejected_hold_def new_hold_def split: if_splits)

lemma payout_blocks: "\<exists>ov. hold_blocks payout_env (Some 0) ([] @ payout_step 20 demo_id # [payout_step 21 other_id]) payout_store = Some ov"
proof -
  let ?ov = "mark_paid demo_id payout_store"
  have first: "hold_validate payout_env (Some 0) payout_store \<lparr>lb_height = 20, lb_timestamp = 300000\<rparr> [payout 20 demo_id] demo_balance = Inr ()"
    by (rule payout_validates) (simp_all add: payout_due)
  have ov: "hold_apply_block payout_env (Some 0) \<lparr>lb_height = 20, lb_timestamp = 300000\<rparr> [payout 20 demo_id] 0 payout_store = ?ov"
    by (simp add: hold_apply_block_def rule_active_def apply_effects_def paid_ids_def payout_fields payout_parts map_filter_simps)
  have l: "live ?ov = [demo_id, other_id]" "tally_of ?ov i PHASE_CONFIRM = tally_of payout_store i PHASE_CONFIRM" for i
    using payout_load(4) by (simp_all add: mark_paid_writes [OF payout_ok]) (simp add: mark_paid_def payout_load live_def load_ids_def hold_keys)
  have "settle_txs payout_env (Some 0) ?ov n 300000 demo_balance = [payout n other_id]" for n
    using payout_ids(1)
    by (simp add: settle_txs_def rule_active_def l hold_payments_def mark_paid_writes [OF payout_ok] payout_load rejected_due payout_amount map_filter_simps payout_def)
  then have "hold_validate payout_env (Some 0) ?ov \<lparr>lb_height = 21, lb_timestamp = 300000\<rparr> [payout 21 other_id] demo_balance = Inr ()"
    by (intro payout_validates) simp_all
  then show ?thesis by (simp add: payout_step_def first ov foreign_def run_step_def)
qed

theorem paid_in_one_block_witness:
  "settle_hold (payout 21 other_id) \<noteq> settle_hold (payout 20 demo_id)"
proof -
  obtain ov where "hold_blocks payout_env (Some 0) ([] @ payout_step 20 demo_id # [payout_step 21 other_id]) payout_store = Some ov"
    using payout_blocks by blast
  then show ?thesis
    by (rule paid_in_one_block [OF _ payout_ok, where d = "payout_step 21 other_id"]) (simp_all add: payout_step_def payout_fields)
qed

end
