(* ===== verification/Hold_Trace.thy ===== *)
theory Hold_Trace
  imports Hold_Plan
begin

section \<open>Tracing stolen coins\<close>

text \<open>
  \<open>trace\<close> of \<^verbatim>\<open>hold_chain.rs\<close>: which addresses hold coins of a theft, found by following the listed
  transactions through the history, and that it never finds more than was stolen.
\<close>


subsection \<open>The history\<close>

record trace_event =
  ev_height :: u64
  ev_pos :: u32
  ev_hash :: string
  ev_from :: string
  ev_to :: string
  ev_amount :: u64
  ev_fee :: u64
  ev_unstake :: bool

text \<open>\<open>dedup_by\<close> drops an event with the hash of the event kept before it.\<close>

fun dedup_after :: "string \<Rightarrow> trace_event list \<Rightarrow> trace_event list" where
  "dedup_after k [] = []"
| "dedup_after k (e # es) = (if ev_hash e = k then dedup_after k es else e # dedup_after (ev_hash e) es)"

fun dedup_events :: "trace_event list \<Rightarrow> trace_event list" where
  "dedup_events [] = []"
| "dedup_events (e # es) = e # dedup_after (ev_hash e) es"

definition ordered_events :: "trace_event list \<Rightarrow> trace_event list" where
  "ordered_events events = dedup_events (sort_key (\<lambda>e. (ev_height e, ev_pos e, ev_hash e)) events)"

subsection \<open>The trace\<close>

definition tracked_addrs :: "string \<Rightarrow> string set \<Rightarrow> (string \<Rightarrow> bool) \<Rightarrow> trace_event list \<Rightarrow> string list" where
  "tracked_addrs victim listed stops ordered =
     sort (remdups (map ev_to (filter (\<lambda>e. ev_hash e \<in> listed \<and> \<not> stops (ev_to e) \<and> ev_to e \<noteq> victim) ordered)))"

definition adjust :: "string \<Rightarrow> int \<Rightarrow> (string \<rightharpoonup> int) \<Rightarrow> (string \<rightharpoonup> int)" where
  "adjust a d m = (case m a of None \<Rightarrow> m | Some b \<Rightarrow> m(a \<mapsto> b + d))"

text \<open>One event undone. The sums are taken in \<open>i128\<close>, which no history of \<open>u64\<close> amounts overflows.\<close>

definition undo_event :: "trace_event \<Rightarrow> (string \<rightharpoonup> int) \<Rightarrow> (string \<rightharpoonup> int)" where
  "undo_event e m =
     (let m1 = (if ev_unstake e then m else adjust (ev_to e) (- uint (ev_amount e)) m);
          m2 = adjust (ev_from e) (if ev_unstake e then uint (ev_fee e) else uint (ev_amount e) + uint (ev_fee e)) m1
      in if ev_unstake e then adjust (ev_from e) (- uint (ev_amount e)) m2 else m2)"

definition traced_of :: "(string \<rightharpoonup> u64) \<Rightarrow> string \<Rightarrow> u64" where
  "traced_of m a = (case m a of None \<Rightarrow> 0 | Some t \<Rightarrow> t)"

text \<open>What an event takes out of a tracked sender, and what it carries of the traced coins.\<close>

definition trace_send ::
  "string set \<Rightarrow> string set \<Rightarrow> trace_event \<Rightarrow> (string \<rightharpoonup> u64) \<Rightarrow> (string \<rightharpoonup> u64) \<Rightarrow> (string \<rightharpoonup> u64) \<times> (string \<rightharpoonup> u64) \<times> u64" where
  "trace_send theft listed e bal traced =
     (if ev_hash e \<in> theft then (bal, traced, ev_amount e)
      else case bal (ev_from e) of
        None \<Rightarrow> (bal, traced, 0)
      | Some b \<Rightarrow>
          let out = (if ev_unstake e then ev_fee e else sat_add (ev_amount e) (ev_fee e));
              t = traced_of traced (ev_from e);
              new_bal = sat_sub b out;
              carried = (if ev_hash e \<in> listed then min (ev_amount e) t else 0);
              left = (if ev_hash e \<in> listed then t - carried else sat_sub t (sat_sub out (sat_sub b t)))
          in (bal(ev_from e \<mapsto> if ev_unstake e then sat_add new_bal (ev_amount e) else new_bal),
              traced(ev_from e \<mapsto> min left new_bal), carried))"

definition trace_receive ::
  "string set \<Rightarrow> trace_event \<Rightarrow> (string \<rightharpoonup> u64) \<times> (string \<rightharpoonup> u64) \<times> u64 \<Rightarrow> (string \<rightharpoonup> u64) \<times> (string \<rightharpoonup> u64)" where
  "trace_receive listed e = (\<lambda>(bal, traced, carried).
     case bal (ev_to e) of
       None \<Rightarrow> (bal, traced)
     | Some b \<Rightarrow>
         let b' = (if ev_unstake e then b else sat_add b (ev_amount e))
         in (bal(ev_to e \<mapsto> b'),
             if ev_hash e \<in> listed \<and> 0 < carried then traced(ev_to e \<mapsto> min (sat_add (traced_of traced (ev_to e)) carried) b') else traced))"

definition trace_step ::
  "string set \<Rightarrow> string set \<Rightarrow> trace_event \<Rightarrow> (string \<rightharpoonup> u64) \<times> (string \<rightharpoonup> u64) \<Rightarrow> (string \<rightharpoonup> u64) \<times> (string \<rightharpoonup> u64)" where
  "trace_step theft listed e = (\<lambda>(bal, traced). trace_receive listed e (trace_send theft listed e bal traced))"

definition trace :: "string \<Rightarrow> string list \<Rightarrow> string list \<Rightarrow> trace_event list \<Rightarrow> (string \<Rightarrow> u64) \<Rightarrow> (string \<Rightarrow> bool) \<Rightarrow> rule_error + (string \<times> u64) list" where
  "trace victim theft hops events now_balance stops =
     (let listed = set (theft @ hops); ordered = ordered_events events in
      if \<not> list_all (\<lambda>k. k \<in> ev_hash ` set ordered) (theft @ hops) then Inl ''listed transaction is not in the history''
      else if \<not> list_all (\<lambda>e. ev_hash e \<in> set theft \<longrightarrow> ev_from e = victim) ordered then Inl ''theft transaction does not leave the victim''
      else case dropWhile (\<lambda>e. ev_hash e \<notin> set theft) ordered of
        [] \<Rightarrow> Inl ''no theft transaction in the history''
      | e # es \<Rightarrow>
          let tracked = tracked_addrs victim listed stops ordered;
              balance = foldr undo_event (e # es) (map_of (map (\<lambda>a. (a, uint (now_balance a))) tracked));
              bal = (\<lambda>a. map_option (\<lambda>b. word_of_int (max 0 b)) (balance a));
              (_, traced) = fold (trace_step (set theft) listed) (e # es) (bal, map_of (map (\<lambda>a. (a, 0)) tracked))
          in Inr (take MAX_HELD (sort (filter (\<lambda>(_, t). 0 < t) (map (\<lambda>a. (a, min (traced_of traced a) (now_balance a))) tracked)))))"

subsection \<open>What is traced was stolen\<close>

definition stolen :: "string set \<Rightarrow> trace_event list \<Rightarrow> nat" where
  "stolen theft es = (\<Sum>e \<leftarrow> filter (\<lambda>e. ev_hash e \<in> theft) es. unat (ev_amount e))"

definition traced_sum :: "string set \<Rightarrow> (string \<rightharpoonup> u64) \<Rightarrow> nat" where
  "traced_sum A m = (\<Sum>a \<in> A. unat (traced_of m a))"

lemma traced_of_upd [simp]: "traced_of (m(a \<mapsto> t)) b = (if a = b then t else traced_of m b)"
  by (simp add: traced_of_def)

lemma traced_sum_upd:
  assumes "finite A"
  shows "traced_sum A (m(a \<mapsto> t)) + (if a \<in> A then unat (traced_of m a) else 0) = traced_sum A m + (if a \<in> A then unat t else 0)"
proof (cases "a \<in> A")
  case True
  have "(\<Sum>b \<in> A - {a}. unat (traced_of (m(a \<mapsto> t)) b)) = (\<Sum>b \<in> A - {a}. unat (traced_of m b))" by (rule sum.cong) auto
  with True show ?thesis by (simp add: traced_sum_def sum.remove [OF assms])
next
  case False
  then have "traced_sum A (m(a \<mapsto> t)) = traced_sum A m" unfolding traced_sum_def by (intro sum.cong) auto
  with False show ?thesis by simp
qed

lemma trace_send_sum:
  assumes "finite A" "trace_send theft listed e bal traced = (bal', traced', carried)" "ev_hash e \<notin> theft"
    "dom bal \<subseteq> A"
  shows "traced_sum A traced' + unat carried \<le> traced_sum A traced" "dom bal' = dom bal"
proof -
  have "traced_sum A traced' + unat carried \<le> traced_sum A traced \<and> dom bal' = dom bal"
  proof (cases "bal (ev_from e)")
    case None
    with assms(2,3) show ?thesis by (auto simp: trace_send_def)
  next
    case (Some b)
    define t where "t = traced_of traced (ev_from e)"
    define out where "out = (if ev_unstake e then ev_fee e else sat_add (ev_amount e) (ev_fee e))"
    define l where "l = (if ev_hash e \<in> listed then t - (if ev_hash e \<in> listed then min (ev_amount e) t else 0) else sat_sub t (sat_sub out (sat_sub b t)))"
    have c: "carried = (if ev_hash e \<in> listed then min (ev_amount e) t else 0)"
      and tr: "traced' = traced(ev_from e \<mapsto> min l (sat_sub b out))"
      and b: "bal' = bal(ev_from e \<mapsto> if ev_unstake e then sat_add (sat_sub b out) (ev_amount e) else sat_sub b out)"
      unfolding t_def out_def l_def
      using assms(2) [unfolded trace_send_def if_not_P [OF assms(3)] Some option.case Let_def] unfolding prod.inject by blast+
    have d: "dom bal' = dom bal" using Some b by (simp only: dom_fun_upd option.distinct if_False) (simp add: insert_absorb domI)
    have ct: "carried \<le> t" by (simp add: c)
    have "unat l + unat carried \<le> unat t"
    proof (cases "ev_hash e \<in> listed")
      case True
      then have "l = t - carried" by (simp add: l_def c)
      with ct show ?thesis by (simp only: unat_sub) (simp add: word_le_nat_alt)
    next
      case False
      then have "carried = 0" using c by simp
      moreover have "unat (sat_sub t x) \<le> unat t" for x by (simp add: sat_sub_def unat_sub word_le_nat_alt)
      ultimately show ?thesis using False by (simp add: l_def)
    qed
    moreover have "unat (min l (sat_sub b out)) \<le> unat l" by (simp add: min_def word_le_nat_alt)
    moreover have "ev_from e \<in> A" using Some assms(4) by auto
    ultimately show ?thesis using traced_sum_upd [OF assms(1), of traced "ev_from e" "min l (sat_sub b out)"] tr d by (simp add: t_def)
  qed
  then show "traced_sum A traced' + unat carried \<le> traced_sum A traced" "dom bal' = dom bal" by simp_all
qed

lemma trace_receive_sum:
  assumes "finite A" "trace_receive listed e (bal, traced, carried) = (bal', traced')"
  shows "traced_sum A traced' \<le> traced_sum A traced + unat carried" "dom bal' = dom bal"
proof -
  have sat: "unat (min (sat_add x carried) y) \<le> unat x + unat carried" for x y
  proof -
    have "unat (min (sat_add x carried) y) \<le> unat (sat_add x carried)" by (simp add: min_def word_le_nat_alt)
    also have "\<dots> \<le> unat x + unat carried" by (simp add: unat_sat_add)
    finally show ?thesis .
  qed
  have "traced_sum A traced' \<le> traced_sum A traced + unat carried \<and> dom bal' = dom bal"
  proof (cases "bal (ev_to e)")
    case None
    with assms(2) show ?thesis by (auto simp: trace_receive_def)
  next
    case (Some b)
    define v where "v = min (sat_add (traced_of traced (ev_to e)) carried) (if ev_unstake e then b else sat_add b (ev_amount e))"
    have "traced' = traced(ev_to e \<mapsto> v) \<or> traced' = traced" "dom bal' = dom bal"
      using assms(2) Some by (auto simp: trace_receive_def Let_def v_def split: if_splits)
    moreover have "unat v \<le> unat (traced_of traced (ev_to e)) + unat carried" unfolding v_def by (rule sat)
    ultimately show ?thesis using traced_sum_upd [OF assms(1), of traced "ev_to e" v] by (auto split: if_splits)
  qed
  then show "traced_sum A traced' \<le> traced_sum A traced + unat carried" "dom bal' = dom bal" by simp_all
qed

lemma trace_steps_sum:
  assumes "finite A" "fold (trace_step theft listed) es (bal, traced) = (bal', traced')" "dom bal \<subseteq> A"
  shows "traced_sum A traced' \<le> traced_sum A traced + stolen theft es"
  using assms(2,3)
proof (induction es arbitrary: bal traced)
  case (Cons e es)
  obtain b1 t1 c where s: "trace_send theft listed e bal traced = (b1, t1, c)" by (metis prod_cases3)
  obtain b2 t2 where r: "trace_receive listed e (b1, t1, c) = (b2, t2)" by (metis surj_pair)
  have rest: "fold (trace_step theft listed) es (b2, t2) = (bal', traced')" using Cons.prems(1) s r by (simp add: trace_step_def [of _ _ e])
  have send: "traced_sum A t1 + unat c \<le> traced_sum A traced + (if ev_hash e \<in> theft then unat (ev_amount e) else 0) \<and> dom b1 = dom bal"
  proof (cases "ev_hash e \<in> theft")
    case True
    with s show ?thesis by (auto simp: trace_send_def)
  next
    case False
    with trace_send_sum [OF assms(1) s False Cons.prems(2)] show ?thesis by simp
  qed
  have "dom b2 \<subseteq> A" using send trace_receive_sum(2) [OF assms(1) r] Cons.prems(2) by simp
  from Cons.IH [OF rest this] send trace_receive_sum(1) [OF assms(1) r] show ?case
    by (cases "ev_hash e \<in> theft") (simp_all add: stolen_def)
qed (simp add: stolen_def)

lemma undo_dom: "dom (undo_event e m) = dom m"
  by (auto simp: undo_event_def adjust_def Let_def split: option.splits if_splits)

lemma undo_all_dom: "dom (foldr undo_event es m) = dom m"
  by (induction es) (simp_all add: undo_dom)

lemma stolen_drop: "stolen theft (dropWhile (\<lambda>e. ev_hash e \<notin> theft) es) = stolen theft es"
  by (induction es) (simp_all add: stolen_def)

lemma set_tracked:
  "set (tracked_addrs victim listed stops es) = {ev_to e | e. e \<in> set es \<and> ev_hash e \<in> listed \<and> \<not> stops (ev_to e) \<and> ev_to e \<noteq> victim}"
  "distinct (tracked_addrs victim listed stops es)"
  by (auto simp: tracked_addrs_def)

lemma traced_sum_start: "traced_sum B (map_of (map (\<lambda>a. (a, 0)) A)) = 0"
proof -
  have "traced_of (map_of (map (\<lambda>a. (a, 0)) A)) b = 0" for b by (induction A) (auto simp: traced_of_def)
  then show ?thesis by (simp add: traced_sum_def)
qed

lemma dom_tracked: "dom (map_of (map (\<lambda>a. (a, g a)) A)) = set A"
  by (simp add: dom_map_of_conv_image_fst image_image)

lemma dom_map_option: "dom (\<lambda>a. map_option f (m a)) = dom m"
  by (auto simp: dom_def)

text \<open>The result of a trace: the positive entries of a map of traced coins over the tracked addresses.\<close>

lemma trace_result:
  assumes "trace victim theft hops events now_balance stops = Inr held"
  defines "A \<equiv> tracked_addrs victim (set (theft @ hops)) stops (ordered_events events)"
  obtains traced where "held = take MAX_HELD (sort (filter (\<lambda>(_, t). 0 < t) (map (\<lambda>a. (a, min (traced_of traced a) (now_balance a))) A)))"
    "traced_sum (set A) traced \<le> stolen (set theft) (ordered_events events)"
proof -
  let ?es = "dropWhile (\<lambda>e. ev_hash e \<notin> set theft) (ordered_events events)"
  let ?bal = "\<lambda>a. map_option (\<lambda>b. word_of_int (max 0 b) :: u64) (foldr undo_event ?es (map_of (map (\<lambda>a. (a, uint (now_balance a))) A)) a)"
  obtain bal traced where f: "fold (trace_step (set theft) (set (theft @ hops))) ?es (?bal, map_of (map (\<lambda>a. (a, 0)) A)) = (bal, traced)"
    by (rule prod.exhaust)
  have listed: "\<not> \<not> list_all (\<lambda>k. k \<in> ev_hash ` set (ordered_events events)) (theft @ hops)"
  proof
    assume n: "\<not> list_all (\<lambda>k. k \<in> ev_hash ` set (ordered_events events)) (theft @ hops)"
    show False using assms(1) [unfolded trace_def Let_def if_P [OF n]] by simp
  qed
  note body = assms(1) [unfolded trace_def Let_def if_not_P [OF listed]]
  have leaves: "\<not> \<not> list_all (\<lambda>e. ev_hash e \<in> set theft \<longrightarrow> ev_from e = victim) (ordered_events events)"
  proof
    assume n: "\<not> list_all (\<lambda>e. ev_hash e \<in> set theft \<longrightarrow> ev_from e = victim) (ordered_events events)"
    show False using body [unfolded if_P [OF n]] by simp
  qed
  note body = body [unfolded if_not_P [OF leaves], folded A_def]
  obtain e es where es: "?es = e # es"
  proof (cases ?es)
    case Nil
    show thesis using body [unfolded Nil list.case] by simp
  qed
  have "held = take MAX_HELD (sort (filter (\<lambda>(_, t). 0 < t) (map (\<lambda>a. (a, min (traced_of traced a) (now_balance a))) A)))"
    using body [unfolded es list.case, unfolded f [unfolded es] prod.case] by (simp only: sum.inject)
  moreover have "dom ?bal = set A" by (simp only: dom_map_option undo_all_dom dom_tracked)
  then have "traced_sum (set A) traced \<le> stolen (set theft) (ordered_events events)"
    using trace_steps_sum [OF _ f, of "set A"] by (simp only: stolen_drop traced_sum_start order_refl finite_set add_0)
  ultimately show thesis by (rule that)
qed

lemma ordered_subset: "set (ordered_events events) \<subseteq> set events"
proof -
  have "set (dedup_after k es) \<subseteq> set es" for k es by (induction k es rule: dedup_after.induct) auto
  then have "set (dedup_events es) \<subseteq> set es" for es by (cases es) auto
  from this [of "sort_key (\<lambda>e. (ev_height e, ev_pos e, ev_hash e)) events"] show ?thesis by (simp add: ordered_events_def)
qed

text \<open>
  C23. A trace holds nothing but stolen coins: what it finds over all addresses is at most what the
  theft transactions took, on each address at most what is there now; no address is the victim or
  one the trace stops at, each received a listed transaction. And a result that is not empty and
  names valid addresses is one that a certificate for the request may carry.
\<close>

theorem trace_bounded:
  assumes "trace victim theft hops events now_balance stops = Inr held" "rq_victim (hd_request h) = victim"
  shows "(\<Sum>(a, n) \<leftarrow> held. unat n) \<le> stolen (set theft) (ordered_events events)
    \<and> (\<forall>(a, n) \<in> set held. n \<le> now_balance a \<and> a \<noteq> victim \<and> \<not> stops a \<and> (\<exists>e \<in> set events. ev_to e = a \<and> ev_hash e \<in> set (theft @ hops)))
    \<and> (held \<noteq> [] \<and> list_all (valid_addr \<circ> fst) held \<longrightarrow> check_amounts h held = Inr ())"
proof -
  let ?A = "tracked_addrs victim (set (theft @ hops)) stops (ordered_events events)"
  obtain traced where held: "held = take MAX_HELD (sort (filter (\<lambda>(_, t). 0 < t) (map (\<lambda>a. (a, min (traced_of traced a) (now_balance a))) ?A)))"
    and sum: "traced_sum (set ?A) traced \<le> stolen (set theft) (ordered_events events)" by (rule trace_result [OF assms(1)])
  let ?f = "\<lambda>a. (a, min (traced_of traced a) (now_balance a))"
  have dist: "distinct held" unfolding held
    by (intro distinct_take) (simp add: distinct_map set_tracked(2) inj_on_def)
  have set: "set held \<subseteq> ?f ` set ?A" and pos: "list_all (\<lambda>x. 0 < snd x) held"
    unfolding held by (auto simp: list_all_iff dest!: in_set_takeD)
  have "(\<Sum>(a, n) \<leftarrow> held. unat n) = (\<Sum>x \<in> set held. unat (snd x))"
    using dist by (simp add: sum_list_distinct_conv_sum_set case_prod_beta)
  also have "\<dots> \<le> (\<Sum>x \<in> ?f ` set ?A. unat (snd x))" by (rule sum_mono2 [OF _ set]) simp_all
  also have "\<dots> = (\<Sum>a \<in> set ?A. unat (min (traced_of traced a) (now_balance a)))"
    by (subst sum.reindex) (simp_all add: inj_on_def)
  also have "\<dots> \<le> traced_sum (set ?A) traced"
    unfolding traced_sum_def by (rule sum_mono) (simp add: min_def word_le_nat_alt)
  finally have 1: "(\<Sum>(a, n) \<leftarrow> held. unat n) \<le> stolen (set theft) (ordered_events events)" using sum by simp
  have 2: "0 < n \<and> n \<le> now_balance a \<and> a \<in> set ?A" if "(a, n) \<in> set held" for a n
    using set pos that by (auto simp: list_all_iff)
  have "inj_on fst (set held)" by (rule inj_on_subset [OF _ set]) (auto simp: inj_on_def)
  with dist have form: "distinct (map fst held)" "length held \<le> MAX_HELD" by (simp_all add: distinct_map) (simp add: held)
  have 3: "check_amounts h held = Inr ()" if "held \<noteq> []" "list_all (valid_addr \<circ> fst) held"
  proof -
    have "list_all (\<lambda>(a, n). valid_addr a \<and> a \<noteq> rq_victim (hd_request h) \<and> n \<noteq> 0) held"
      using that(2) 2 assms(2) by (fastforce simp: list_all_iff set_tracked(1))
    then show ?thesis using that(1) form by (simp add: check_amounts_def)
  qed
  from 1 2 3 show ?thesis using ordered_subset [of events] by (fastforce simp: set_tracked(1))
qed

text \<open>A theft of 100 coins of which 30 were passed on.\<close>

definition demo_fence :: string where "demo_fence = ''egot1fence00000000000000000000''"

definition moved :: "u64 \<Rightarrow> string \<Rightarrow> string \<Rightarrow> string \<Rightarrow> u64 \<Rightarrow> trace_event" where
  "moved n k a b x = \<lparr>ev_height = n, ev_pos = 0, ev_hash = k, ev_from = a, ev_to = b, ev_amount = x, ev_fee = 0, ev_unstake = False\<rparr>"

definition demo_theft :: "trace_event list" where
  "demo_theft = [moved 2 ''k2'' demo_thief demo_fence 30, moved 1 ''k1'' demo_sender demo_thief 100]"

definition demo_now :: "string \<Rightarrow> u64" where
  "demo_now a = (if a = demo_thief then 70 else if a = demo_fence then 30 else 0)"

lemma demo_addrs: "demo_thief \<noteq> demo_fence" "demo_sender \<noteq> demo_thief" "demo_sender \<noteq> demo_fence" "\<not> demo_thief \<le> demo_fence" "demo_fence \<le> demo_thief"
  by code_simp+

lemma demo_ordered: "ordered_events demo_theft = [moved 1 ''k1'' demo_sender demo_thief 100, moved 2 ''k2'' demo_thief demo_fence 30]"
  by (simp add: ordered_events_def demo_theft_def moved_def)

lemma demo_trace: "trace demo_sender [''k1''] [''k2''] demo_theft demo_now (\<lambda>_. False) = Inr [(demo_fence, 30), (demo_thief, 70)]"
proof -
  have tracked: "tracked_addrs demo_sender {''k1'', ''k2''} (\<lambda>_. False) [moved 1 ''k1'' demo_sender demo_thief 100, moved 2 ''k2'' demo_thief demo_fence 30] = [demo_fence, demo_thief]"
    using demo_addrs by (simp add: tracked_addrs_def moved_def)
  show ?thesis
    using demo_addrs
    by (simp add: trace_def demo_ordered tracked Let_def)
       (simp add: moved_def undo_event_def adjust_def demo_now_def trace_step_def trace_send_def trace_receive_def
          traced_of_def sat_add_def sat_sub_def MAX_HELD_def less_eq_prod_def)
qed

theorem trace_bounded_witness:
  "trace demo_sender [''k1''] [''k2''] demo_theft demo_now (\<lambda>_. False) = Inr [(demo_fence, 30), (demo_thief, 70)] \<and>
   check_amounts (new_hold demo_sender demo_sender demo_request demo_block []) [(demo_fence, 30), (demo_thief, 70)] = Inr () \<and>
   unat (30 :: u64) + unat (70 :: u64) \<le> stolen {''k1''} (ordered_events demo_theft)"
proof -
  have "rq_victim (hd_request (new_hold demo_sender demo_sender demo_request demo_block [])) = demo_sender"
    by (simp add: new_hold_def demo_request_def)
  moreover have "valid_addr demo_fence" "valid_addr demo_thief" by code_simp+
  ultimately show ?thesis using trace_bounded [OF demo_trace] demo_trace by simp
qed

end
