(* ===== verification/Dao_Chain.thy ===== *)
theory Dao_Chain
  imports Chain_Store F64
begin

section \<open>Governance\<close>

text \<open>
  The rules of \<^verbatim>\<open>ego-desktop/src-tauri/src/dao_chain.rs\<close>: which transactions are well formed, the
  operations on proposals, votes and reports, what they lock, the validation and application of a
  block, and the results of a vote. The clock and the height of the chain are arguments.
\<close>

subsection \<open>What other packages provide\<close>

text \<open>The BLAKE3 hash, hexadecimal text and the JSON reader.\<close>

record dao_env =
  de_blake3 :: "string \<Rightarrow> bytes"
  de_hex :: "bytes \<Rightarrow> string"
  de_read_propose :: "string \<Rightarrow> propose_body option"
  de_read_vote :: "string \<Rightarrow> dao_vote_body option"
  de_read_know :: "string \<Rightarrow> know_body option"
  de_read_report :: "string \<Rightarrow> report_body option"
  de_read_reveal :: "string \<Rightarrow> reveal_body option"
  de_read_withdraw :: "string \<Rightarrow> withdraw_body option"

subsection \<open>Activation and identifiers\<close>

definition dao_rule_active :: "u64 \<Rightarrow> bool" where
  "dao_rule_active height = (case DAO_ACTIVATION_HEIGHT of None \<Rightarrow> False | Some h \<Rightarrow> h \<le> height)"

definition tally_active :: "u64 \<Rightarrow> bool" where
  "tally_active height = (case KNOW_TALLY_FROM of None \<Rightarrow> False | Some h \<Rightarrow> h \<le> height)"

definition is_dao_tx :: "ledger_tx \<Rightarrow> bool" where
  "is_dao_tx tx \<longleftrightarrow> lt_type tx \<in> set DAO_TYPES"

definition dao_hash :: "dao_env \<Rightarrow> string \<Rightarrow> string" where
  "dao_hash de s = de_hex de (de_blake3 de s)"

definition dao_body_hash :: "dao_env \<Rightarrow> string \<Rightarrow> string" where
  "dao_body_hash de call_args = dao_hash de (DAO_BODY_DOMAIN @ call_args)"

definition dao_memo_for :: "dao_env \<Rightarrow> string \<Rightarrow> string \<Rightarrow> string option" where
  "dao_memo_for de tx_type call_args =
     (if tx_type \<notin> set DAO_TYPES then None
      else case strip_prefix ''dao_'' tx_type of
        None \<Rightarrow> None
      | Some op \<Rightarrow> Some (''dao:'' @ op @ '':'' @ dao_body_hash de call_args))"

definition proposal_id :: "dao_env \<Rightarrow> string \<Rightarrow> string" where
  "proposal_id de tx_hash = ''dao'' @ take 16 (dao_hash de (DAO_ID_DOMAIN @ tx_hash))"

text \<open>Bytes as characters.\<close>

definition text_of :: "u8 list \<Rightarrow> string" where
  "text_of = map (\<lambda>b. char_of (unat b))"

definition answers_commit :: "dao_env \<Rightarrow> string \<Rightarrow> u8 list \<Rightarrow> string" where
  "answers_commit de salt answers = dao_hash de (ANSWERS_DOMAIN @ salt @ '':'' @ text_of answers)"

definition vote_commit :: "dao_env \<Rightarrow> string \<Rightarrow> string \<Rightarrow> string \<Rightarrow> u8 list \<Rightarrow> string" where
  "vote_commit de pid voter salt answers =
     dao_hash de (VOTE_ANSWERS_DOMAIN @ pid @ '':'' @ voter @ '':'' @ salt @ '':'' @ text_of answers)"

subsection \<open>Well-formed transactions\<close>

definition is_lower_hex :: "char \<Rightarrow> bool" where
  "is_lower_hex c \<longleftrightarrow> is_digit c \<or> (CHR ''a'' \<le> c \<and> c \<le> CHR ''f'')"

definition is_hex64 :: "string \<Rightarrow> bool" where
  "is_hex64 s \<longleftrightarrow> length s = 64 \<and> list_all is_lower_hex s"

definition is_proposal_id :: "string \<Rightarrow> bool" where
  "is_proposal_id s \<longleftrightarrow> length s = 19 \<and> starts_with s ''dao'' \<and> list_all is_lower_hex (drop 3 s)"

definition text_ok :: "string \<Rightarrow> nat \<Rightarrow> bool" where
  "text_ok s max_len \<longleftrightarrow> \<not> trims_to_nothing s \<and> length s \<le> max_len"

fun check_questions :: "dao_question list \<Rightarrow> rule_error + unit" where
  "check_questions [] = Inr ()"
| "check_questions (q # qs) =
     (if \<not> text_ok (qn_question q) MAX_QUESTION_BYTES then Inl ''question needs text''
      else if length (qn_options q) < 2 \<or> MAX_QUESTION_OPTIONS < length (qn_options q) then Inl ''question needs 2 to 4 answers''
      else if list_ex (\<lambda>s. \<not> text_ok s MAX_OPTION_BYTES) (qn_options q) then Inl ''every answer needs text''
      else check_questions qs)"

definition check_propose :: "propose_body \<Rightarrow> rule_error + unit" where
  "check_propose b =
     (if \<not> text_ok (pb_title b) MAX_TITLE_BYTES then Inl ''a title is needed''
      else if MAX_DESCRIPTION_BYTES < length (pb_description b) then Inl ''the description is longer than 4000 bytes''
      else if pb_kind b \<notin> set KINDS then Inl ''unknown type''
      else if length (pb_options b) < 2 \<or> MAX_OPTIONS < length (pb_options b) then Inl ''a proposal needs 2 to 10 options''
      else if list_ex (\<lambda>s. \<not> text_ok s MAX_OPTION_BYTES) (pb_options b) then Inl ''every option needs text''
      else if pb_duration_days b < MIN_DAYS \<or> MAX_DAYS < pb_duration_days b then Inl ''voting lasts 1 to 30 days''
      else if MAX_QUESTIONS < length (pb_questions b) then Inl ''a knowledge test has at most 10 questions''
      else rbind (check_questions (pb_questions b)) (\<lambda>_.
        if pb_questions b = [] \<and> pb_answers_commit b \<noteq> [] then Inl ''a proposal without questions commits to no answers''
        else if pb_questions b \<noteq> [] \<and> \<not> is_hex64 (pb_answers_commit b) then Inl ''a knowledge test must commit to its answers''
        else Inr ()))"

definition answers_shape_ok :: "dao_question list \<Rightarrow> u8 list \<Rightarrow> bool" where
  "answers_shape_ok questions answers \<longleftrightarrow>
     length answers = length questions \<and> list_all (\<lambda>(q, a). unat a < length (qn_options q)) (zip questions answers)"

definition unreadable :: rule_error where "unreadable = ''the body is not readable''"

definition dao_well_formed :: "dao_env \<Rightarrow> ledger_tx \<Rightarrow> rule_error + unit" where
  "dao_well_formed de tx =
     (if \<not> is_dao_tx tx then Inl ''not a DAO transaction''
      else if lt_from tx = [] \<or> lt_to tx \<noteq> lt_from tx \<or> lt_amount tx \<noteq> 0 then Inl ''a DAO transaction is a zero-amount transaction to the sender itself''
      else if DAO_MAX_BODY_BYTES < length (lt_call_args tx) then Inl ''the body is longer than 16384 bytes''
      else if lt_memo tx \<noteq> dao_memo_for de (lt_type tx) (lt_call_args tx) then Inl ''the memo does not commit to the body''
      else if lt_type tx = DAO_PROPOSE then rbind (readable unreadable (de_read_propose de (lt_call_args tx))) check_propose
      else if lt_type tx = DAO_VOTE then
        rbind (readable unreadable (de_read_vote de (lt_call_args tx))) (\<lambda>b.
          if \<not> is_proposal_id (dv_id b) \<or> MAX_OPTIONS \<le> unat (dv_option b) then Inl ''the vote names no proposal or option'' else Inr ())
      else if lt_type tx = DAO_KNOW then
        rbind (readable unreadable (de_read_know de (lt_call_args tx))) (\<lambda>b.
          if \<not> is_proposal_id (kb_id b) \<or> MAX_OPTIONS \<le> unat (kb_option b) then Inl ''the vote names no proposal or option''
          else if \<not> is_hex64 (kb_commit b) then Inl ''a knowledge vote commits to its answers'' else Inr ())
      else if lt_type tx = DAO_REPORT then
        rbind (readable unreadable (de_read_report de (lt_call_args tx))) (\<lambda>b.
          if rp_target b = [] \<or> 128 < length (rp_target b) \<or> rp_target b = lt_from tx then Inl ''a report names someone else'' else Inr ())
      else if lt_type tx = DAO_REVEAL \<or> lt_type tx = DAO_KNOW_REVEAL then
        rbind (readable unreadable (de_read_reveal de (lt_call_args tx))) (\<lambda>b.
          if \<not> is_proposal_id (rv_id b) \<or> \<not> is_hex64 (rv_salt b) \<or> rv_answers b = [] \<or> MAX_QUESTIONS < length (rv_answers b)
          then Inl ''the reveal names no proposal, salt or answers'' else Inr ())
      else
        rbind (readable unreadable (de_read_withdraw de (lt_call_args tx))) (\<lambda>b.
          if \<not> is_proposal_id (wb_id b) then Inl ''the withdrawal names no proposal'' else Inr ()))"

subsection \<open>Keys and stored values\<close>

definition dao_key :: "string \<Rightarrow> string" where "dao_key parts = ''dao:'' @ parts"
definition p_key :: "string \<Rightarrow> string" where "p_key pid = dao_key (''p:'' @ pid)"

text \<open>A number in decimal, padded with zeros to twenty digits.\<close>

definition decimal20 :: "nat \<Rightarrow> string" where
  "decimal20 n = replicate (20 - length (decimal n)) CHR ''0'' @ decimal n"

definition idx_key :: "i64 \<Rightarrow> string \<Rightarrow> string" where
  "idx_key created_at pid = dao_key (''i:'' @ decimal20 (unat (- 1 - (word_of_int (max created_at 0) :: u64))) @ '':'' @ pid)"

definition dao_tally_key :: "string \<Rightarrow> string" where "dao_tally_key pid = dao_key (''st:'' @ pid)"
definition stake_count_key :: "string \<Rightarrow> string" where "stake_count_key pid = dao_key (''sc:'' @ pid)"
definition stake_vote_key :: "string \<Rightarrow> string \<Rightarrow> string" where "stake_vote_key pid voter = dao_key (''sv:'' @ pid @ '':'' @ voter)"
definition know_prefix :: "string \<Rightarrow> string" where "know_prefix pid = dao_key (''kv:'' @ pid @ '':'')"
definition know_vote_key :: "string \<Rightarrow> string \<Rightarrow> string" where "know_vote_key pid voter = dao_key (''kv:'' @ pid @ '':'' @ voter)"
definition know_count_key :: "string \<Rightarrow> string" where "know_count_key pid = dao_key (''kc:'' @ pid)"
definition know_tally_key :: "string \<Rightarrow> string" where "know_tally_key pid = dao_key (''kt:'' @ pid)"
definition created_key :: "string \<Rightarrow> string" where "created_key creator = dao_key (''pc:'' @ creator)"
definition dao_lock_key :: "string \<Rightarrow> string" where "dao_lock_key addr = dao_key (''lock:'' @ addr)"
definition report_key :: "string \<Rightarrow> string" where "report_key target = dao_key (''rt:'' @ target)"

definition right_answers :: "dao_question list \<Rightarrow> u8 list \<Rightarrow> u8 list \<Rightarrow> u64" where
  "right_answers questions answer_key answers =
     (if questions = [] \<or> \<not> answers_shape_ok questions answers then 0
      else of_nat (length (filter (\<lambda>(a, b). a = b) (zip answer_key answers))))"

definition load_proposal :: "overlay \<Rightarrow> string \<Rightarrow> dao_proposal option" where
  "load_proposal ov pid = (case ov_get ov (p_key pid) of Some (St_Proposal p) \<Rightarrow> Some p | _ \<Rightarrow> None)"

definition load_stake_vote :: "overlay \<Rightarrow> string \<Rightarrow> string \<Rightarrow> stake_vote option" where
  "load_stake_vote ov pid voter = (case ov_get ov (stake_vote_key pid voter) of Some (St_Stake_Vote v) \<Rightarrow> Some v | _ \<Rightarrow> None)"

definition load_know_vote :: "overlay \<Rightarrow> string \<Rightarrow> string \<Rightarrow> know_vote option" where
  "load_know_vote ov pid voter = (case ov_get ov (know_vote_key pid voter) of Some (St_Know_Vote v) \<Rightarrow> Some v | _ \<Rightarrow> None)"

definition load_tallies :: "overlay \<Rightarrow> string \<Rightarrow> u64 list option" where
  "load_tallies ov k = (case ov_get ov k of Some (St_Tallies ts) \<Rightarrow> Some ts | _ \<Rightarrow> None)"

text \<open>\<open>Vec::resize\<close> with zeros.\<close>

definition resized :: "nat \<Rightarrow> u64 list \<Rightarrow> u64 list" where
  "resized n ts = take n ts @ replicate (n - length ts) 0"

definition locked_until :: "overlay \<Rightarrow> string \<Rightarrow> i64" where
  "locked_until ov addr = sint (load_u64 ov (dao_lock_key addr))"

definition created_in_window :: "overlay \<Rightarrow> string \<Rightarrow> i64 \<Rightarrow> i64 list" where
  "created_in_window ov creator now =
     filter (\<lambda>t. i64_wrap (now - WINDOW_SECS) < t) (case ov_get ov (created_key creator) of Some (St_Times ts) \<Rightarrow> ts | _ \<Rightarrow> [])"

definition open_proposal :: "overlay \<Rightarrow> string \<Rightarrow> i64 \<Rightarrow> rule_error + dao_proposal" where
  "open_proposal ov pid now =
     rbind (readable ''no such proposal'' (load_proposal ov pid)) (\<lambda>p.
     if pr_withdrawn p then Inl ''the proposal was withdrawn''
     else if pr_ends_at p \<le> now then Inl ''voting has ended''
     else Inr p)"

definition active_reports :: "overlay \<Rightarrow> string \<Rightarrow> i64 \<Rightarrow> dao_report list" where
  "active_reports ov target now =
     filter (\<lambda>r. i64_wrap (now - REPORT_SECS) < re_at r) (case ov_get ov (report_key target) of Some (St_Reports rs) \<Rightarrow> rs | _ \<Rightarrow> [])"

definition banned :: "dao_report list \<Rightarrow> u64 \<Rightarrow> bool" where
  "banned reports network_stake \<longleftrightarrow>
     MIN_REPORTERS \<le> length reports \<and> 0 < network_stake
     \<and> unat network_stake * DAO_MIN_STAKE_PERCENT \<le> (\<Sum>r \<leftarrow> reports. unat (re_weight r)) * 100"

record ban_status =
  bs_target :: string
  bs_vote_count :: nat
  bs_threshold :: nat
  bs_banned :: bool
  bs_my_vote :: bool

definition ban_status_of :: "overlay \<Rightarrow> string \<Rightarrow> string option \<Rightarrow> i64 \<Rightarrow> u64 \<Rightarrow> ban_status" where
  "ban_status_of ov target viewer now network_stake =
     (let reports = active_reports ov target now in
      \<lparr>bs_target = target, bs_vote_count = length reports, bs_threshold = MIN_REPORTERS, bs_banned = banned reports network_stake,
       bs_my_vote = (case viewer of None \<Rightarrow> False | Some v \<Rightarrow> list_ex (\<lambda>r. re_reporter r = v) reports)\<rparr>)"

subsection \<open>The operations\<close>

text \<open>
  Every operation returns its errors before the first write, so an error stands for the overlay
  as it was. A lock is only ever moved to a later time.
\<close>

definition lock_stake :: "string \<Rightarrow> i64 \<Rightarrow> overlay \<Rightarrow> overlay" where
  "lock_stake addr until ov = (if locked_until ov addr < until then ov_put (dao_lock_key addr) (St_U64 (word_of_int until)) ov else ov)"

definition dao_report_op :: "dao_env \<Rightarrow> ledger_block \<Rightarrow> ledger_tx \<Rightarrow> overlay \<Rightarrow> rule_error + overlay" where
  "dao_report_op de block tx ov =
     rbind (readable unreadable (de_read_report de (lt_call_args tx))) (\<lambda>b.
     let weight = stake_of ov (lt_from tx); reports = active_reports ov (rp_target b) (lb_timestamp block) in
     if weight = 0 then Inl ''only staked EGOC can report''
     else if list_ex (\<lambda>r. re_reporter r = lt_from tx) reports then Inl ''already reported''
     else let rs = reports @ [\<lparr>re_reporter = lt_from tx, re_weight = weight, re_at = lb_timestamp block\<rparr>] in
       Inr (lock_stake (lt_from tx) (i64_wrap (lb_timestamp block + REPORT_SECS))
             (ov_put (report_key (rp_target b)) (St_Reports (drop (length rs - MAX_REPORTS) rs)) ov)))"

definition new_proposal :: "dao_env \<Rightarrow> ledger_block \<Rightarrow> ledger_tx \<Rightarrow> propose_body \<Rightarrow> dao_proposal" where
  "new_proposal de block tx b = \<lparr>pr_id = proposal_id de (lt_hash tx), pr_title = pb_title b, pr_description = pb_description b,
     pr_kind = pb_kind b, pr_options = pb_options b, pr_creator = lt_from tx, pr_created_at = lb_timestamp block,
     pr_ends_at = i64_wrap (lb_timestamp block + uint (pb_duration_days b) * DAY_SECS), pr_height = lb_height block,
     pr_questions = pb_questions b, pr_answers_commit = pb_answers_commit b, pr_answers = None, pr_withdrawn = False, pr_revealed_at = None\<rparr>"

definition dao_propose :: "dao_env \<Rightarrow> ledger_block \<Rightarrow> ledger_tx \<Rightarrow> u64 \<Rightarrow> overlay \<Rightarrow> rule_error + overlay" where
  "dao_propose de block tx network_stake ov =
     rbind (readable unreadable (de_read_propose de (lt_call_args tx))) (\<lambda>b.
     let pid = proposal_id de (lt_hash tx); times = created_in_window ov (lt_from tx) (lb_timestamp block); p = new_proposal de block tx b in
     if ov_get ov (p_key pid) \<noteq> None then Inl ''a proposal with this id exists''
     else if banned (active_reports ov (lt_from tx) (lb_timestamp block)) network_stake then Inl ''the community reported this address; it cannot propose for now''
     else if PROPOSALS_PER_WINDOW \<le> length times then Inl ''at most 5 proposals in 30 days''
     else Inr (ov_put (p_key pid) (St_Proposal p) (ov_put (idx_key (pr_created_at p) pid) St_Empty
            (ov_put (dao_tally_key pid) (St_Tallies (replicate (length (pr_options p)) 0))
            (ov_put (created_key (lt_from tx)) (St_Times (times @ [lb_timestamp block])) ov)))))"

text \<open>The writes of a stake vote: count and tally with an earlier vote taken back, the vote, the lock.\<close>

definition cast_stake_vote :: "dao_proposal \<Rightarrow> string \<Rightarrow> u32 \<Rightarrow> u64 \<Rightarrow> overlay \<Rightarrow> overlay" where
  "cast_stake_vote p voter opt weight ov =
     (let n = length (pr_options p);
          tallies = resized n (case load_tallies ov (dao_tally_key (pr_id p)) of None \<Rightarrow> replicate n 0 | Some ts \<Rightarrow> ts);
          prev = load_stake_vote ov (pr_id p) voter;
          ov1 = (case prev of
                   Some _ \<Rightarrow> ov
                 | None \<Rightarrow> ov_put (stake_count_key (pr_id p)) (St_U64 (load_u64 ov (stake_count_key (pr_id p)) + 1)) ov);
          back = (case prev of
                    Some v \<Rightarrow> if unat (sv_option v) < n
                              then tallies[unat (sv_option v) := sat_sub (tallies ! unat (sv_option v)) (sv_weight v)] else tallies
                  | None \<Rightarrow> tallies);
          counted = back[unat opt := sat_add (back ! unat opt) weight]
      in lock_stake voter (pr_ends_at p)
           (ov_put (stake_vote_key (pr_id p) voter) (St_Stake_Vote \<lparr>sv_option = opt, sv_weight = weight\<rparr>)
           (ov_put (dao_tally_key (pr_id p)) (St_Tallies counted) ov1)))"

definition dao_stake_vote :: "dao_env \<Rightarrow> ledger_block \<Rightarrow> ledger_tx \<Rightarrow> overlay \<Rightarrow> rule_error + overlay" where
  "dao_stake_vote de block tx ov =
     rbind (readable unreadable (de_read_vote de (lt_call_args tx))) (\<lambda>b.
     rbind (open_proposal ov (dv_id b) (lb_timestamp block)) (\<lambda>p.
     if length (pr_options p) \<le> unat (dv_option b) then Inl ''no such option''
     else if stake_of ov (lt_from tx) = 0 then Inl ''only staked EGOC votes''
     else Inr (cast_stake_vote p (lt_from tx) (dv_option b) (stake_of ov (lt_from tx)) ov)))"

definition dao_knowledge_vote :: "dao_env \<Rightarrow> ledger_block \<Rightarrow> ledger_tx \<Rightarrow> overlay \<Rightarrow> rule_error + overlay" where
  "dao_knowledge_vote de block tx ov =
     rbind (readable unreadable (de_read_know de (lt_call_args tx))) (\<lambda>b.
     rbind (open_proposal ov (kb_id b) (lb_timestamp block)) (\<lambda>p.
     if pr_questions p = [] then Inl ''the proposal has no knowledge test''
     else if length (pr_options p) \<le> unat (kb_option b) then Inl ''the vote does not fit the proposal''
     else let ov1 = (if ov_get ov (know_vote_key (pr_id p) (lt_from tx)) = None
                     then ov_put (know_count_key (pr_id p)) (St_U64 (load_u64 ov (know_count_key (pr_id p)) + 1)) ov else ov)
       in Inr (ov_put (know_vote_key (pr_id p) (lt_from tx)) (St_Know_Vote \<lparr>kv_option = kb_option b, kv_commit = kb_commit b, kv_answers = None\<rparr>) ov1)))"

text \<open>The end of the time in which voters reveal.\<close>

definition reveal_closes :: "dao_proposal \<Rightarrow> rule_error + i64" where
  "reveal_closes p =
     (if \<not> tally_active (pr_height p) then Inr (i64_wrap (pr_ends_at p + REVEAL_WINDOW_SECS))
      else case pr_revealed_at p of
        Some t \<Rightarrow> Inr (i64_wrap (t + REVEAL_WINDOW_SECS))
      | None \<Rightarrow> Inl ''voters reveal after the creator has revealed the correct answers'')"

definition add_right :: "dao_proposal \<Rightarrow> u32 \<Rightarrow> u8 list \<Rightarrow> overlay \<Rightarrow> overlay" where
  "add_right p opt answers ov =
     (let tally = resized (length (pr_options p)) (case load_tallies ov (know_tally_key (pr_id p)) of None \<Rightarrow> [] | Some ts \<Rightarrow> ts);
          right = right_answers (pr_questions p) (case pr_answers p of None \<Rightarrow> [] | Some k \<Rightarrow> k) answers
      in ov_put (know_tally_key (pr_id p))
           (St_Tallies (if unat opt < length tally then tally[unat opt := tally ! unat opt + right] else tally)) ov)"

definition dao_know_reveal :: "dao_env \<Rightarrow> ledger_block \<Rightarrow> ledger_tx \<Rightarrow> overlay \<Rightarrow> rule_error + overlay" where
  "dao_know_reveal de block tx ov =
     rbind (readable unreadable (de_read_reveal de (lt_call_args tx))) (\<lambda>b.
     rbind (readable ''no such proposal'' (load_proposal ov (rv_id b))) (\<lambda>p.
     rbind (readable ''no knowledge vote to reveal'' (load_know_vote ov (pr_id p) (lt_from tx))) (\<lambda>v.
     if kv_answers v \<noteq> None then Inl ''already revealed''
     else rbind (reveal_closes p) (\<lambda>closes.
     if lb_timestamp block < pr_ends_at p \<or> closes \<le> lb_timestamp block then Inl ''answers are revealed in the 7 days after the correct answers are out''
     else if \<not> answers_shape_ok (pr_questions p) (rv_answers b) \<or> vote_commit de (pr_id p) (lt_from tx) (rv_salt b) (rv_answers b) \<noteq> kv_commit v
     then Inl ''the answers do not match the vote''
     else let ov1 = (if tally_active (pr_height p) then add_right p (kv_option v) (rv_answers b) ov else ov)
       in Inr (ov_put (know_vote_key (pr_id p) (lt_from tx)) (St_Know_Vote (v\<lparr>kv_answers := Some (rv_answers b)\<rparr>)) ov1)))))"

definition dao_reveal :: "dao_env \<Rightarrow> ledger_block \<Rightarrow> ledger_tx \<Rightarrow> overlay \<Rightarrow> rule_error + overlay" where
  "dao_reveal de block tx ov =
     rbind (readable unreadable (de_read_reveal de (lt_call_args tx))) (\<lambda>b.
     rbind (readable ''no such proposal'' (load_proposal ov (rv_id b))) (\<lambda>p.
     if pr_creator p \<noteq> lt_from tx then Inl ''only the creator reveals the answers''
     else if pr_questions p = [] \<or> pr_answers p \<noteq> None then Inl ''there is nothing to reveal''
     else if lb_timestamp block < pr_ends_at p \<or> i64_wrap (pr_ends_at p + REVEAL_WINDOW_SECS) \<le> lb_timestamp block
     then Inl ''answers are revealed in the 7 days after voting ends''
     else if \<not> answers_shape_ok (pr_questions p) (rv_answers b) \<or> answers_commit de (rv_salt b) (rv_answers b) \<noteq> pr_answers_commit p
     then Inl ''the answers do not match the commitment''
     else let p1 = p\<lparr>pr_answers := Some (rv_answers b)\<rparr>;
              p2 = (if tally_active (pr_height p) then p1\<lparr>pr_revealed_at := Some (lb_timestamp block)\<rparr> else p1)
       in Inr (ov_put (p_key (pr_id p)) (St_Proposal p2) ov)))"

definition dao_withdraw :: "dao_env \<Rightarrow> ledger_block \<Rightarrow> ledger_tx \<Rightarrow> overlay \<Rightarrow> rule_error + overlay" where
  "dao_withdraw de block tx ov =
     rbind (readable unreadable (de_read_withdraw de (lt_call_args tx))) (\<lambda>b.
     rbind (open_proposal ov (wb_id b) (lb_timestamp block)) (\<lambda>p.
     if pr_creator p \<noteq> lt_from tx then Inl ''only the creator withdraws a proposal''
     else Inr (ov_put (p_key (pr_id p)) (St_Proposal (p\<lparr>pr_withdrawn := True\<rparr>)) ov)))"

definition dao_apply_tx :: "dao_env \<Rightarrow> ledger_block \<Rightarrow> u64 \<Rightarrow> ledger_tx \<Rightarrow> overlay \<Rightarrow> rule_error + overlay" where
  "dao_apply_tx de block network_stake tx ov =
     rbind (dao_well_formed de tx) (\<lambda>_.
     if lt_type tx = DAO_PROPOSE then dao_propose de block tx network_stake ov
     else if lt_type tx = DAO_VOTE then dao_stake_vote de block tx ov
     else if lt_type tx = DAO_KNOW then dao_knowledge_vote de block tx ov
     else if lt_type tx = DAO_REVEAL then dao_reveal de block tx ov
     else if lt_type tx = DAO_KNOW_REVEAL then dao_know_reveal de block tx ov
     else if lt_type tx = DAO_REPORT then dao_report_op de block tx ov
     else dao_withdraw de block tx ov)"

subsection \<open>Blocks\<close>

definition locks_stake :: "ledger_tx \<Rightarrow> bool" where
  "locks_stake tx \<longleftrightarrow> lt_type tx = DAO_VOTE \<or> lt_type tx = DAO_REPORT"

definition dao_step :: "dao_env \<Rightarrow> ledger_block \<Rightarrow> u64 \<Rightarrow> ledger_tx \<Rightarrow> overlay \<Rightarrow> overlay" where
  "dao_step de block network_stake tx ov = (case dao_apply_tx de block network_stake tx ov of Inl _ \<Rightarrow> ov | Inr ov' \<Rightarrow> ov')"

definition dao_apply_block :: "dao_env \<Rightarrow> ledger_block \<Rightarrow> ledger_tx list \<Rightarrow> u64 \<Rightarrow> overlay \<Rightarrow> overlay" where
  "dao_apply_block de block txs network_stake ov =
     (if \<not> dao_rule_active (lb_height block) then ov else fold (dao_step de block network_stake) (filter is_dao_tx txs) ov)"

fun check_dao_txs :: "dao_env \<Rightarrow> bool \<Rightarrow> ledger_tx list \<Rightarrow> rule_error + unit" where
  "check_dao_txs de active [] = Inr ()"
| "check_dao_txs de active (tx # txs) =
     (if \<not> active then Inl ''refused: DAO transactions are not active''
      else rbind (dao_well_formed de tx) (\<lambda>_. check_dao_txs de active txs))"

fun check_unstakes :: "overlay \<Rightarrow> i64 \<Rightarrow> string set \<Rightarrow> ledger_tx list \<Rightarrow> rule_error + unit" where
  "check_unstakes ov now voters [] = Inr ()"
| "check_unstakes ov now voters (tx # txs) =
     (if lt_from tx \<in> voters then Inl ''unstake refused: votes or reports with this stake in the same block''
      else if now < locked_until ov (lt_from tx) then Inl ''unstake refused: voted with this stake and it stays locked''
      else check_unstakes ov now voters txs)"

definition dao_validate :: "dao_env \<Rightarrow> overlay \<Rightarrow> ledger_block \<Rightarrow> ledger_tx list \<Rightarrow> rule_error + unit" where
  "dao_validate de ov block txs =
     (let active = dao_rule_active (lb_height block); dao = filter is_dao_tx txs in
      rbind (check_dao_txs de active dao) (\<lambda>_.
      if \<not> active then Inr ()
      else check_unstakes ov (lb_timestamp block) (lt_from ` set (filter locks_stake dao)) (filter is_unstake_tx txs)))"

definition proposal_fit :: "dao_env \<Rightarrow> overlay \<Rightarrow> ledger_tx \<Rightarrow> u64 \<Rightarrow> i64 \<Rightarrow> string set \<Rightarrow> fit" where
  "proposal_fit de ov tx height timestamp unstakers =
     (let locked_stake = (if dao_rule_active height \<and> is_unstake_tx tx \<and> timestamp < locked_until ov (lt_from tx)
                          then Fit_Later ''the stake is locked by a DAO vote'' else Fit_Yes) in
      if is_dao_tx tx then
        (if \<not> dao_rule_active height then Fit_Later ''DAO transactions start at block''
         else case dao_well_formed de tx of
           Inl e \<Rightarrow> Fit_Never e
         | Inr _ \<Rightarrow> if locks_stake tx \<and> lt_from tx \<in> unstakers then Fit_Later ''the sender unstakes in this block'' else locked_stake)
      else locked_stake)"

text \<open>Admission to the pool: the height of the chain, the committed overlay and the clock are arguments.\<close>

definition dao_admit :: "dao_env \<Rightarrow> u64 \<Rightarrow> overlay \<Rightarrow> i64 \<Rightarrow> ledger_tx \<Rightarrow> rule_error + unit" where
  "dao_admit de tip ov now tx =
     (let active = dao_rule_active (sat_add tip 1) in
      rbind (if is_dao_tx tx then if \<not> active then Inl ''refused: DAO transactions are not active yet'' else dao_well_formed de tx else Inr ()) (\<lambda>_.
      if is_unstake_tx tx \<and> active \<and> now < locked_until ov (lt_from tx) then Inl ''your stake is locked by a DAO vote'' else Inr ()))"

subsection \<open>Results\<close>

definition dao_status :: "dao_proposal \<Rightarrow> i64 \<Rightarrow> string" where
  "dao_status p now = (if pr_withdrawn p then ''withdrawn'' else if now < pr_ends_at p then ''active'' else ''expired'')"

definition dao_score :: "dao_question list \<Rightarrow> u8 list \<Rightarrow> u8 list \<Rightarrow> f64" where
  "dao_score questions answer_key answers =
     (if questions = [] \<or> \<not> answers_shape_ok questions answers then Fin 0
      else fdiv (f_of_nat (length (filter (\<lambda>(a, b). a = b) (zip answer_key answers)))) (f_of_nat (length questions)))"

definition knowledge_votes :: "overlay \<Rightarrow> string \<Rightarrow> know_vote list" where
  "knowledge_votes ov pid =
     List.map_filter (\<lambda>k. case ov_get ov k of Some (St_Know_Vote v) \<Rightarrow> Some v | _ \<Rightarrow> None)
       (committed_keys ov (know_prefix pid) KNOWLEDGE_SCAN_LIMIT)"

definition DAO_BASE_KNOWLEDGE_POWER :: f64 where "DAO_BASE_KNOWLEDGE_POWER = Fin 10"

record dao_option_result =
  or_option :: string
  or_stake_power :: f64
  or_knowledge_power :: f64
  or_combined_power :: f64

record dao_results =
  rs_proposal_id :: string
  rs_title :: string
  rs_options :: "dao_option_result list"
  rs_winning_option_index :: "nat option"
  rs_total_stake_voters :: nat
  rs_total_knowledge_voters :: nat
  rs_total_staked_in_votes :: u64
  rs_quorum_reached :: bool
  rs_status :: string

text \<open>The power of the knowledge votes for each option: from the tally, or from the revealed votes before there was one.\<close>

definition add_score :: "dao_proposal \<Rightarrow> u8 list \<Rightarrow> know_vote \<Rightarrow> f64 list \<Rightarrow> f64 list" where
  "add_score p answer_key v slots =
     (case kv_answers v of
        None \<Rightarrow> slots
      | Some answers \<Rightarrow>
          if unat (kv_option v) < length slots
          then slots[unat (kv_option v) := fadd (slots ! unat (kv_option v))
                 (fmul (dao_score (pr_questions p) answer_key answers) DAO_BASE_KNOWLEDGE_POWER)]
          else slots)"

definition knowledge_power :: "overlay \<Rightarrow> dao_proposal \<Rightarrow> f64 list" where
  "knowledge_power ov p =
     (let n = length (pr_options p) in
      if tally_active (pr_height p) then
        (let tally = (case load_tallies ov (know_tally_key (pr_id p)) of None \<Rightarrow> [] | Some ts \<Rightarrow> ts);
             per = fdiv DAO_BASE_KNOWLEDGE_POWER (f_of_nat (max (length (pr_questions p)) 1))
         in map (\<lambda>i. if i < length tally then fmul (f_of_nat (unat (tally ! i))) per else Fin 0) [0..<n])
      else case pr_answers p of
        None \<Rightarrow> replicate n (Fin 0)
      | Some k \<Rightarrow> fold (add_score p k) (knowledge_votes ov (pr_id p)) (replicate n (Fin 0)))"

text \<open>\<open>max_by\<close>: of two options that compare equal the later one is kept.\<close>

fun best_option :: "nat \<Rightarrow> f64 \<Rightarrow> nat \<Rightarrow> f64 list \<Rightarrow> nat \<times> f64" where
  "best_option i x j [] = (i, x)"
| "best_option i x j (y # ys) = (if flt y x then best_option i x (Suc j) ys else best_option j y (Suc j) ys)"

definition winning_option :: "f64 list \<Rightarrow> nat option" where
  "winning_option powers =
     (case powers of
        [] \<Rightarrow> None
      | y # ys \<Rightarrow> let (i, x) = best_option 0 y 1 ys in if flt (Fin 0) x then Some i else None)"

definition dao_results_of :: "overlay \<Rightarrow> dao_proposal \<Rightarrow> i64 \<Rightarrow> u64 \<Rightarrow> dao_results" where
  "dao_results_of ov p now network_stake =
     (let n = length (pr_options p);
          stake_by_opt = resized n (case load_tallies ov (dao_tally_key (pr_id p)) of None \<Rightarrow> replicate n 0 | Some ts \<Rightarrow> ts);
          total_stake = sum_list stake_by_opt;
          stake_voters = load_u64 ov (stake_count_key (pr_id p));
          know_by_opt = knowledge_power ov p;
          total_knowledge = fold (\<lambda>x s. fadd s x) know_by_opt (Fin 0);
          sp = (\<lambda>i. if 0 < total_stake then fdiv (f_of_nat (unat (stake_by_opt ! i))) (f_of_nat (unat total_stake)) else Fin 0);
          kp = (\<lambda>i. if flt (Fin 0) total_knowledge then fdiv (know_by_opt ! i) total_knowledge else Fin 0);
          cp = (\<lambda>i. if 0 < total_stake \<and> flt (Fin 0) total_knowledge then fdiv (fadd (sp i) (kp i)) (Fin 2)
                    else if 0 < total_stake then sp i
                    else if flt (Fin 0) total_knowledge then kp i else Fin 0);
          options = map (\<lambda>i. \<lparr>or_option = pr_options p ! i, or_stake_power = sp i, or_knowledge_power = kp i, or_combined_power = cp i\<rparr>) [0..<n]
      in \<lparr>rs_proposal_id = pr_id p, rs_title = pr_title p, rs_options = options,
          rs_winning_option_index = winning_option (map or_combined_power options),
          rs_total_stake_voters = unat stake_voters,
          rs_total_knowledge_voters = unat (load_u64 ov (know_count_key (pr_id p))),
          rs_total_staked_in_votes = total_stake,
          rs_quorum_reached = (MIN_STAKE_VOTERS \<le> stake_voters \<and> unat network_stake * DAO_MIN_STAKE_PERCENT \<le> unat total_stake * 100),
          rs_status = dao_status p now\<rparr>)"

end
