(* ===== verification/Dao_Effects.thy ===== *)
theory Dao_Effects
  imports Dao_Chain
begin

section \<open>What governance transactions do\<close>

text \<open>
  The keys of the governance entries, what a write leaves of every view on the overlay, and the
  seven effects a transaction can have.
\<close>


subsection \<open>Keys and views\<close>

lemmas dao_keys = dao_key_def p_key_def idx_key_def dao_tally_key_def stake_count_key_def stake_vote_key_def know_prefix_def know_vote_key_def
  know_count_key_def know_tally_key_def created_key_def dao_lock_key_def report_key_def

lemma dao_key_under [simp]:
  "starts_with (p_key i) ''dao:''" "starts_with (idx_key t i) ''dao:''" "starts_with (dao_tally_key i) ''dao:''"
  "starts_with (stake_count_key i) ''dao:''" "starts_with (stake_vote_key i a) ''dao:''" "starts_with (know_vote_key i a) ''dao:''"
  "starts_with (know_count_key i) ''dao:''" "starts_with (know_tally_key i) ''dao:''" "starts_with (created_key a) ''dao:''"
  "starts_with (dao_lock_key a) ''dao:''" "starts_with (report_key a) ''dao:''"
  by (simp_all add: dao_keys starts_with_def)

lemma stake_vote_key_inj: "length i = length j \<Longrightarrow> stake_vote_key i a = stake_vote_key j b \<longleftrightarrow> i = j \<and> a = b"
  by (auto simp: dao_keys)

lemma know_vote_key_inj: "length i = length j \<Longrightarrow> know_vote_key i a = know_vote_key j b \<longleftrightarrow> i = j \<and> a = b"
  by (auto simp: dao_keys)

text \<open>What each write leaves of the proposals, the votes, the tallies and the locks.\<close>

lemma load_proposal_put [simp]:
  "load_proposal (ov_put (p_key i) (St_Proposal p) ov) j = (if i = j then Some p else load_proposal ov j)"
  "load_proposal (ov_put (idx_key t i) v ov) j = load_proposal ov j" "load_proposal (ov_put (dao_tally_key i) v ov) j = load_proposal ov j"
  "load_proposal (ov_put (stake_count_key i) v ov) j = load_proposal ov j" "load_proposal (ov_put (stake_vote_key i a) v ov) j = load_proposal ov j"
  "load_proposal (ov_put (know_vote_key i a) v ov) j = load_proposal ov j" "load_proposal (ov_put (know_count_key i) v ov) j = load_proposal ov j"
  "load_proposal (ov_put (know_tally_key i) v ov) j = load_proposal ov j" "load_proposal (ov_put (created_key a) v ov) j = load_proposal ov j"
  "load_proposal (ov_put (dao_lock_key a) v ov) j = load_proposal ov j" "load_proposal (ov_put (report_key a) v ov) j = load_proposal ov j"
  by (simp_all add: load_proposal_def dao_keys)

lemma load_stake_vote_put [simp]:
  "load_stake_vote (ov_put (p_key i) v ov) j b = load_stake_vote ov j b"
  "load_stake_vote (ov_put (idx_key t i) v ov) j b = load_stake_vote ov j b" "load_stake_vote (ov_put (dao_tally_key i) v ov) j b = load_stake_vote ov j b"
  "load_stake_vote (ov_put (stake_count_key i) v ov) j b = load_stake_vote ov j b"
  "load_stake_vote (ov_put (know_vote_key i a) v ov) j b = load_stake_vote ov j b" "load_stake_vote (ov_put (know_count_key i) v ov) j b = load_stake_vote ov j b"
  "load_stake_vote (ov_put (know_tally_key i) v ov) j b = load_stake_vote ov j b" "load_stake_vote (ov_put (created_key a) v ov) j b = load_stake_vote ov j b"
  "load_stake_vote (ov_put (dao_lock_key a) v ov) j b = load_stake_vote ov j b" "load_stake_vote (ov_put (report_key a) v ov) j b = load_stake_vote ov j b"
  by (simp_all add: load_stake_vote_def dao_keys)

lemma load_stake_vote_put_same:
  "length i = length j \<Longrightarrow> load_stake_vote (ov_put (stake_vote_key i a) (St_Stake_Vote v) ov) j b = (if i = j \<and> a = b then Some v else load_stake_vote ov j b)"
  by (simp add: load_stake_vote_def stake_vote_key_inj)

lemma load_know_vote_put [simp]:
  "load_know_vote (ov_put (p_key i) v ov) j b = load_know_vote ov j b"
  "load_know_vote (ov_put (idx_key t i) v ov) j b = load_know_vote ov j b" "load_know_vote (ov_put (dao_tally_key i) v ov) j b = load_know_vote ov j b"
  "load_know_vote (ov_put (stake_count_key i) v ov) j b = load_know_vote ov j b" "load_know_vote (ov_put (stake_vote_key i a) v ov) j b = load_know_vote ov j b"
  "load_know_vote (ov_put (know_count_key i) v ov) j b = load_know_vote ov j b"
  "load_know_vote (ov_put (know_tally_key i) v ov) j b = load_know_vote ov j b" "load_know_vote (ov_put (created_key a) v ov) j b = load_know_vote ov j b"
  "load_know_vote (ov_put (dao_lock_key a) v ov) j b = load_know_vote ov j b" "load_know_vote (ov_put (report_key a) v ov) j b = load_know_vote ov j b"
  by (simp_all add: load_know_vote_def dao_keys)

lemma load_know_vote_put_same:
  "length i = length j \<Longrightarrow> load_know_vote (ov_put (know_vote_key i a) (St_Know_Vote v) ov) j b = (if i = j \<and> a = b then Some v else load_know_vote ov j b)"
  by (simp add: load_know_vote_def know_vote_key_inj)

lemma locked_until_put [simp]:
  "locked_until (ov_put (p_key i) v ov) b = locked_until ov b"
  "locked_until (ov_put (idx_key t i) v ov) b = locked_until ov b" "locked_until (ov_put (dao_tally_key i) v ov) b = locked_until ov b"
  "locked_until (ov_put (stake_count_key i) v ov) b = locked_until ov b" "locked_until (ov_put (stake_vote_key i a) v ov) b = locked_until ov b"
  "locked_until (ov_put (know_vote_key i a) v ov) b = locked_until ov b" "locked_until (ov_put (know_count_key i) v ov) b = locked_until ov b"
  "locked_until (ov_put (know_tally_key i) v ov) b = locked_until ov b" "locked_until (ov_put (created_key a) v ov) b = locked_until ov b"
  "locked_until (ov_put (report_key a) v ov) b = locked_until ov b"
  by (simp_all add: locked_until_def load_u64_def dao_keys)

text \<open>The stake tally and the count of voters of a proposal.\<close>

definition stake_tally :: "overlay \<Rightarrow> string \<Rightarrow> u64 list option \<times> u64" where
  "stake_tally ov i = (load_tallies ov (dao_tally_key i), load_u64 ov (stake_count_key i))"

lemma stake_tally_put [simp]:
  "stake_tally (ov_put (p_key i) v ov) j = stake_tally ov j"
  "stake_tally (ov_put (idx_key t i) v ov) j = stake_tally ov j"
  "stake_tally (ov_put (stake_vote_key i a) v ov) j = stake_tally ov j"
  "stake_tally (ov_put (know_vote_key i a) v ov) j = stake_tally ov j" "stake_tally (ov_put (know_count_key i) v ov) j = stake_tally ov j"
  "stake_tally (ov_put (know_tally_key i) v ov) j = stake_tally ov j" "stake_tally (ov_put (created_key a) v ov) j = stake_tally ov j"
  "stake_tally (ov_put (dao_lock_key a) v ov) j = stake_tally ov j" "stake_tally (ov_put (report_key a) v ov) j = stake_tally ov j"
  "stake_tally (ov_put (dao_tally_key i) (St_Tallies ts) ov) j = (if i = j then (Some ts, snd (stake_tally ov j)) else stake_tally ov j)"
  "stake_tally (ov_put (stake_count_key i) (St_U64 n) ov) j = (if i = j then (fst (stake_tally ov j), n) else stake_tally ov j)"
  by (simp_all add: stake_tally_def load_tallies_def load_u64_def dao_keys)

lemma lock_stake_views [simp]:
  "load_proposal (lock_stake a t ov) j = load_proposal ov j" "load_stake_vote (lock_stake a t ov) j b = load_stake_vote ov j b"
  "load_know_vote (lock_stake a t ov) j b = load_know_vote ov j b" "stake_tally (lock_stake a t ov) j = stake_tally ov j"
  by (simp_all add: lock_stake_def)

lemma sint_wrap: "sint (word_of_int n :: u64) = i64_wrap n"
  by (simp add: int_word_sint i64_wrap_def)

lemma locked_until_lock:
  assumes "- (2 ^ 63) \<le> t" "t < 2 ^ 63"
  shows "locked_until (lock_stake a t ov) b = (if a = b then max t (locked_until ov b) else locked_until ov b)"
  using assms by (auto simp: lock_stake_def locked_until_def load_u64_def dao_keys sint_wrap)

lemma i64_wrap_range: "- (2 ^ 63) \<le> i64_wrap n" "i64_wrap n < 2 ^ 63"
proof -
  have "0 \<le> (n + 2 ^ 63) mod 2 ^ 64" "(n + 2 ^ 63) mod 2 ^ 64 < 2 ^ 64" by simp_all
  then show "- (2 ^ 63) \<le> i64_wrap n" "i64_wrap n < 2 ^ 63" by (simp_all add: i64_wrap_def)
qed

subsection \<open>What each operation does\<close>

text \<open>A transaction that has an effect: its kind, its body, what it found and what it wrote.\<close>

lemma dao_report_effect:
  assumes "dao_report_op de block tx ov = Inr ov'"
  shows "\<exists>a rs. ov' = lock_stake (lt_from tx) (i64_wrap (lb_timestamp block + REPORT_SECS)) (ov_put (report_key a) (St_Reports rs) ov)"
  using assms by (auto simp: dao_report_op_def Let_def split: if_splits)

lemma dao_propose_effect:
  assumes "dao_propose de block tx stake ov = Inr ov'"
  shows "\<exists>b. let pid = proposal_id de (lt_hash tx); p = new_proposal de block tx b; times = created_in_window ov (lt_from tx) (lb_timestamp block) in
    de_read_propose de (lt_call_args tx) = Some b \<and> ov_get ov (p_key pid) = None \<and> length times < PROPOSALS_PER_WINDOW \<and>
    ov' = ov_put (p_key pid) (St_Proposal p) (ov_put (idx_key (pr_created_at p) pid) St_Empty
            (ov_put (dao_tally_key pid) (St_Tallies (replicate (length (pr_options p)) 0))
            (ov_put (created_key (lt_from tx)) (St_Times (times @ [lb_timestamp block])) ov)))"
  using assms by (auto simp: dao_propose_def Let_def split: if_splits)

lemma open_proposal_Inr: "open_proposal ov i now = Inr p \<longleftrightarrow> load_proposal ov i = Some p \<and> \<not> pr_withdrawn p \<and> now < pr_ends_at p"
  by (cases "load_proposal ov i") (auto simp: open_proposal_def readable_def)

lemma dao_stake_vote_effect:
  assumes "dao_stake_vote de block tx ov = Inr ov'" "dao_well_formed de tx = Inr ()" "lt_type tx = DAO_VOTE"
  shows "\<exists>i p opt. length i = 19 \<and> load_proposal ov i = Some p \<and> lb_timestamp block < pr_ends_at p \<and> unat opt < length (pr_options p) \<and>
    stake_of ov (lt_from tx) \<noteq> 0 \<and> ov' = cast_stake_vote p (lt_from tx) opt (stake_of ov (lt_from tx)) ov"
proof -
  obtain b p where b: "de_read_vote de (lt_call_args tx) = Some b" "open_proposal ov (dv_id b) (lb_timestamp block) = Inr p"
    "\<not> length (pr_options p) \<le> unat (dv_option b)" "stake_of ov (lt_from tx) \<noteq> 0"
    "ov' = cast_stake_vote p (lt_from tx) (dv_option b) (stake_of ov (lt_from tx)) ov"
    using assms(1) by (auto simp: dao_stake_vote_def split: if_splits)
  have "is_proposal_id (dv_id b)"
    using assms(2,3) b(1) by (auto simp: dao_well_formed_def DAO_VOTE_def DAO_PROPOSE_def split: if_splits)
  with b show ?thesis
    by (intro exI [of _ "dv_id b"] exI [of _ p] exI [of _ "dv_option b"]) (auto simp: open_proposal_Inr is_proposal_id_def)
qed

lemma dao_knowledge_vote_effect:
  assumes "dao_knowledge_vote de block tx ov = Inr ov'" "dao_well_formed de tx = Inr ()" "lt_type tx = DAO_KNOW"
  shows "\<exists>i p v n. length i = 19 \<and> load_proposal ov i = Some p \<and> lb_timestamp block < pr_ends_at p \<and> kv_answers v = None \<and>
    unat (kv_option v) < length (pr_options p) \<and>
    (ov' = ov_put (know_vote_key (pr_id p) (lt_from tx)) (St_Know_Vote v) ov \<or>
     ov' = ov_put (know_vote_key (pr_id p) (lt_from tx)) (St_Know_Vote v) (ov_put (know_count_key (pr_id p)) n ov))"
proof -
  obtain b p where b: "de_read_know de (lt_call_args tx) = Some b" "open_proposal ov (kb_id b) (lb_timestamp block) = Inr p"
    "\<not> length (pr_options p) \<le> unat (kb_option b)"
    "ov' = ov_put (know_vote_key (pr_id p) (lt_from tx)) (St_Know_Vote \<lparr>kv_option = kb_option b, kv_commit = kb_commit b, kv_answers = None\<rparr>)
       (if ov_get ov (know_vote_key (pr_id p) (lt_from tx)) = None
        then ov_put (know_count_key (pr_id p)) (St_U64 (load_u64 ov (know_count_key (pr_id p)) + 1)) ov else ov)"
    using assms(1) by (auto simp: dao_knowledge_vote_def Let_def split: if_splits)
  have "is_proposal_id (kb_id b)"
    using assms(2,3) b(1) by (auto simp: dao_well_formed_def DAO_VOTE_def DAO_PROPOSE_def DAO_KNOW_def split: if_splits)
  with b(2) have "length (kb_id b) = 19" "load_proposal ov (kb_id b) = Some p" "lb_timestamp block < pr_ends_at p"
    by (auto simp: open_proposal_Inr is_proposal_id_def)
  with b(3,4) show ?thesis
    by (intro exI [of _ "kb_id b"] exI [of _ p] exI [of _ "\<lparr>kv_option = kb_option b, kv_commit = kb_commit b, kv_answers = None\<rparr>"]
      exI [of _ "St_U64 (load_u64 ov (know_count_key (pr_id p)) + 1)"]) (auto split: if_splits)
qed

lemma reveal_body_id:
  assumes "dao_well_formed de tx = Inr ()" "lt_type tx = DAO_REVEAL \<or> lt_type tx = DAO_KNOW_REVEAL" "de_read_reveal de (lt_call_args tx) = Some b"
  shows "length (rv_id b) = 19"
proof -
  have "is_proposal_id (rv_id b)"
    using assms by (auto simp: dao_well_formed_def DAO_VOTE_def DAO_PROPOSE_def DAO_KNOW_def DAO_REPORT_def DAO_REVEAL_def DAO_KNOW_REVEAL_def split: if_splits)
  then show ?thesis by (simp add: is_proposal_id_def)
qed

lemma dao_know_reveal_effect:
  assumes "dao_know_reveal de block tx ov = Inr ov'" "dao_well_formed de tx = Inr ()" "lt_type tx = DAO_KNOW_REVEAL"
  shows "\<exists>i p v salt ans. length i = 19 \<and> load_proposal ov i = Some p \<and> load_know_vote ov (pr_id p) (lt_from tx) = Some v \<and>
    kv_answers v = None \<and> pr_ends_at p \<le> lb_timestamp block \<and> (tally_active (pr_height p) \<longrightarrow> pr_revealed_at p \<noteq> None) \<and>
    answers_shape_ok (pr_questions p) ans \<and> vote_commit de (pr_id p) (lt_from tx) salt ans = kv_commit v \<and>
    ov' = ov_put (know_vote_key (pr_id p) (lt_from tx)) (St_Know_Vote (v\<lparr>kv_answers := Some ans\<rparr>))
            (if tally_active (pr_height p) then add_right p (kv_option v) ans ov else ov)"
proof -
  obtain b where b: "de_read_reveal de (lt_call_args tx) = Some b" using assms(1) by (auto simp: dao_know_reveal_def)
  obtain p v where p: "load_proposal ov (rv_id b) = Some p" "load_know_vote ov (pr_id p) (lt_from tx) = Some v"
    using assms(1) b by (auto simp: dao_know_reveal_def)
  note body = assms(1) [unfolded dao_know_reveal_def b p readable_def option.case rbind.simps Let_def]
  have v: "kv_answers v = None" using body by (rule_tac ccontr) (simp add: p readable_def)
  obtain closes where c: "reveal_closes p = Inr closes"
    using body v by (cases "reveal_closes p") (simp_all add: p readable_def)
  have "pr_ends_at p \<le> lb_timestamp block" "answers_shape_ok (pr_questions p) (rv_answers b)"
    "vote_commit de (pr_id p) (lt_from tx) (rv_salt b) (rv_answers b) = kv_commit v"
    "ov' = ov_put (know_vote_key (pr_id p) (lt_from tx)) (St_Know_Vote (v\<lparr>kv_answers := Some (rv_answers b)\<rparr>))
            (if tally_active (pr_height p) then add_right p (kv_option v) (rv_answers b) ov else ov)"
    using body v c by (simp_all add: p readable_def not_less split: if_split_asm)
  moreover have "tally_active (pr_height p) \<longrightarrow> pr_revealed_at p \<noteq> None" using c by (auto simp: reveal_closes_def split: if_splits option.splits)
  moreover have "length (rv_id b) = 19" using reveal_body_id [OF assms(2) _ b] assms(3) by simp
  ultimately show ?thesis using p v by blast
qed

lemma dao_reveal_effect:
  assumes "dao_reveal de block tx ov = Inr ov'" "dao_well_formed de tx = Inr ()" "lt_type tx = DAO_REVEAL"
  shows "\<exists>i p p' ans. length i = 19 \<and> load_proposal ov i = Some p \<and> pr_answers p = None \<and> pr_ends_at p \<le> lb_timestamp block \<and>
    answers_shape_ok (pr_questions p) ans \<and> (\<exists>salt. answers_commit de salt ans = pr_answers_commit p) \<and>
    p' = p\<lparr>pr_answers := Some ans, pr_revealed_at := (if tally_active (pr_height p) then Some (lb_timestamp block) else pr_revealed_at p)\<rparr> \<and>
    ov' = ov_put (p_key (pr_id p)) (St_Proposal p') ov"
proof -
  obtain b where b: "de_read_reveal de (lt_call_args tx) = Some b" using assms(1) by (auto simp: dao_reveal_def)
  obtain p where p: "load_proposal ov (rv_id b) = Some p" using assms(1) b by (auto simp: dao_reveal_def)
  note body = assms(1) [unfolded dao_reveal_def b p readable_def option.case rbind.simps Let_def]
  have "pr_answers p = None" "pr_ends_at p \<le> lb_timestamp block" "answers_shape_ok (pr_questions p) (rv_answers b)"
    "answers_commit de (rv_salt b) (rv_answers b) = pr_answers_commit p"
    "ov' = ov_put (p_key (pr_id p)) (St_Proposal (p\<lparr>pr_answers := Some (rv_answers b),
       pr_revealed_at := (if tally_active (pr_height p) then Some (lb_timestamp block) else pr_revealed_at p)\<rparr>)) ov"
    using body by (simp_all add: p not_less split: if_split_asm)
  moreover have "length (rv_id b) = 19" using reveal_body_id [OF assms(2) _ b] assms(3) by simp
  ultimately show ?thesis using p by blast
qed

lemma dao_withdraw_effect:
  assumes "dao_withdraw de block tx ov = Inr ov'" "dao_well_formed de tx = Inr ()" "lt_type tx \<notin> {DAO_PROPOSE, DAO_VOTE, DAO_KNOW, DAO_REPORT, DAO_REVEAL, DAO_KNOW_REVEAL}"
  shows "\<exists>i p. length i = 19 \<and> load_proposal ov i = Some p \<and> ov' = ov_put (p_key (pr_id p)) (St_Proposal (p\<lparr>pr_withdrawn := True\<rparr>)) ov"
proof -
  obtain b p where b: "de_read_withdraw de (lt_call_args tx) = Some b" "open_proposal ov (wb_id b) (lb_timestamp block) = Inr p"
    "ov' = ov_put (p_key (pr_id p)) (St_Proposal (p\<lparr>pr_withdrawn := True\<rparr>)) ov"
    using assms(1) by (auto simp: dao_withdraw_def split: if_splits)
  have "is_proposal_id (wb_id b)" using assms(2,3) b(1) by (auto simp: dao_well_formed_def split: if_splits)
  with b show ?thesis by (auto simp: open_proposal_Inr is_proposal_id_def)
qed

text \<open>A transaction leaves the overlay as it is or has one of seven effects.\<close>

lemma dao_step_cases:
  obtains (same) "dao_step de block stake tx ov = ov"
  | (propose) b where "ov_get ov (p_key (proposal_id de (lt_hash tx))) = None"
      "length (created_in_window ov (lt_from tx) (lb_timestamp block)) < PROPOSALS_PER_WINDOW"
      "dao_step de block stake tx ov =
         ov_put (p_key (proposal_id de (lt_hash tx))) (St_Proposal (new_proposal de block tx b))
        (ov_put (idx_key (lb_timestamp block) (proposal_id de (lt_hash tx))) St_Empty
        (ov_put (dao_tally_key (proposal_id de (lt_hash tx))) (St_Tallies (replicate (length (pb_options b)) 0))
        (ov_put (created_key (lt_from tx)) (St_Times (created_in_window ov (lt_from tx) (lb_timestamp block) @ [lb_timestamp block])) ov)))"
  | (vote) i p opt where "length i = 19" "load_proposal ov i = Some p" "lb_timestamp block < pr_ends_at p" "unat opt < length (pr_options p)"
      "stake_of ov (lt_from tx) \<noteq> 0" "dao_step de block stake tx ov = cast_stake_vote p (lt_from tx) opt (stake_of ov (lt_from tx)) ov"
  | (know) i p v ov1 where "length i = 19" "load_proposal ov i = Some p" "lb_timestamp block < pr_ends_at p" "kv_answers v = None"
      "unat (kv_option v) < length (pr_options p)" "dao_step de block stake tx ov = ov_put (know_vote_key (pr_id p) (lt_from tx)) (St_Know_Vote v) ov1"
      "ov1 = ov \<or> (\<exists>n. ov1 = ov_put (know_count_key (pr_id p)) n ov)"
  | (know_reveal) i p v salt ans where "length i = 19" "load_proposal ov i = Some p" "load_know_vote ov (pr_id p) (lt_from tx) = Some v"
      "kv_answers v = None" "pr_ends_at p \<le> lb_timestamp block" "tally_active (pr_height p) \<longrightarrow> pr_revealed_at p \<noteq> None"
      "answers_shape_ok (pr_questions p) ans" "vote_commit de (pr_id p) (lt_from tx) salt ans = kv_commit v"
      "dao_step de block stake tx ov = ov_put (know_vote_key (pr_id p) (lt_from tx)) (St_Know_Vote (v\<lparr>kv_answers := Some ans\<rparr>))
            (if tally_active (pr_height p) then add_right p (kv_option v) ans ov else ov)"
  | (reveal) i p p' ans where "length i = 19" "load_proposal ov i = Some p" "pr_answers p = None" "pr_ends_at p \<le> lb_timestamp block"
      "answers_shape_ok (pr_questions p) ans" "\<exists>salt. answers_commit de salt ans = pr_answers_commit p"
      "p' = p\<lparr>pr_answers := Some ans, pr_revealed_at := (if tally_active (pr_height p) then Some (lb_timestamp block) else pr_revealed_at p)\<rparr>"
      "dao_step de block stake tx ov = ov_put (p_key (pr_id p)) (St_Proposal p') ov"
  | (report) a rs where "dao_step de block stake tx ov =
        lock_stake (lt_from tx) (i64_wrap (lb_timestamp block + REPORT_SECS)) (ov_put (report_key a) (St_Reports rs) ov)"
  | (withdraw) i p where "length i = 19" "load_proposal ov i = Some p"
      "dao_step de block stake tx ov = ov_put (p_key (pr_id p)) (St_Proposal (p\<lparr>pr_withdrawn := True\<rparr>)) ov"
proof (cases "dao_apply_tx de block stake tx ov")
  case (Inl e)
  then show thesis by (intro same) (simp add: dao_step_def)
next
  case (Inr ov')
  then have s: "dao_step de block stake tx ov = ov'" by (simp add: dao_step_def)
  have wf: "dao_well_formed de tx = Inr ()" using Inr by (auto simp: dao_apply_tx_def)
  note body = Inr [unfolded dao_apply_tx_def wf rbind.simps]
  show thesis
  proof (cases "lt_type tx = DAO_PROPOSE")
    case True
    from dao_propose_effect [OF body [unfolded if_P [OF True]]] s show thesis
      by (auto simp: Let_def new_proposal_def intro!: propose)
  next
    case n1: False
    note body = body [unfolded if_not_P [OF n1]]
    show thesis
    proof (cases "lt_type tx = DAO_VOTE")
      case True
      from dao_stake_vote_effect [OF body [unfolded if_P [OF True]] wf True] s show thesis by (auto intro: vote)
    next
      case n2: False
      note body = body [unfolded if_not_P [OF n2]]
      show thesis
      proof (cases "lt_type tx = DAO_KNOW")
        case True
        from dao_knowledge_vote_effect [OF body [unfolded if_P [OF True]] wf True] s show thesis by (auto intro: know)
      next
        case n3: False
        note body = body [unfolded if_not_P [OF n3]]
        show thesis
        proof (cases "lt_type tx = DAO_REVEAL")
          case True
          from dao_reveal_effect [OF body [unfolded if_P [OF True]] wf True] s show thesis by (blast intro: reveal)
        next
          case n4: False
          note body = body [unfolded if_not_P [OF n4]]
          show thesis
          proof (cases "lt_type tx = DAO_KNOW_REVEAL")
            case True
            from dao_know_reveal_effect [OF body [unfolded if_P [OF True]] wf True] s show thesis by (blast intro: know_reveal)
          next
            case n5: False
            note body = body [unfolded if_not_P [OF n5]]
            show thesis
            proof (cases "lt_type tx = DAO_REPORT")
              case True
              from dao_report_effect [OF body [unfolded if_P [OF True]]] s show thesis by (auto intro: report)
            next
              case n6: False
              from dao_withdraw_effect [OF body [unfolded if_not_P [OF n6]] wf] n1 n2 n3 n4 n5 n6 s show thesis by (blast intro: withdraw)
            qed
          qed
        qed
      qed
    qed
  qed
qed

end
