(* ===== verification/Dao_Votes.thy ===== *)
theory Dao_Votes
  imports Dao_Effects
begin

section \<open>Stake votes on a proposal\<close>

text \<open>
  Sequences of governance transactions with writes of other rules between them. Stake that voted is
  locked until the vote ends, the tally of a proposal is the sum of the votes recorded on it, and
  an ended vote is final.
\<close>

subsection \<open>Reachable overlays\<close>

text \<open>
  The overlays that governance reaches from one without entries of its own, by transactions at times
  that do not go back and by writes of other rules; \<open>P\<close> is asked of every overlay on the way.
\<close>

inductive dao_reach :: "dao_env \<Rightarrow> (overlay \<Rightarrow> bool) \<Rightarrow> i64 \<Rightarrow> overlay \<Rightarrow> bool" for de P where
  start: "dao_reach de P t ov" if "\<And>k. starts_with k ''dao:'' \<Longrightarrow> ov_get ov k = None" "P ov"
| tx: "dao_reach de P (lb_timestamp block) (dao_step de block stake tx ov)"
    if "dao_reach de P t ov" "t \<le> lb_timestamp block" "P (dao_step de block stake tx ov)"
| other: "dao_reach de P t (fold ov_write ws ov)"
    if "dao_reach de P t ov" "list_all (\<lambda>w. \<not> starts_with (fst w) ''dao:'') ws" "P (fold ov_write ws ov)"

lemma other_frame:
  assumes "list_all (\<lambda>w. \<not> starts_with (fst w) ''dao:'') ws"
  shows "load_proposal (fold ov_write ws ov) i = load_proposal ov i" "load_stake_vote (fold ov_write ws ov) i a = load_stake_vote ov i a"
    "load_know_vote (fold ov_write ws ov) i a = load_know_vote ov i a" "locked_until (fold ov_write ws ov) a = locked_until ov a"
    "stake_tally (fold ov_write ws ov) i = stake_tally ov i" "load_tallies (fold ov_write ws ov) (know_tally_key i) = load_tallies ov (know_tally_key i)"
    "created_in_window (fold ov_write ws ov) a t = created_in_window ov a t" "ov_get (fold ov_write ws ov) (created_key a) = ov_get ov (created_key a)"
proof -
  have g: "ov_get (fold ov_write ws ov) k = ov_get ov k" if "starts_with k ''dao:''" for k
    by (rule store.batch_outside [where P = "\<lambda>k. starts_with k ''dao:''"]) (use assms that in simp_all)
  show "load_proposal (fold ov_write ws ov) i = load_proposal ov i" "load_stake_vote (fold ov_write ws ov) i a = load_stake_vote ov i a"
    "load_know_vote (fold ov_write ws ov) i a = load_know_vote ov i a" "locked_until (fold ov_write ws ov) a = locked_until ov a"
    "stake_tally (fold ov_write ws ov) i = stake_tally ov i" "load_tallies (fold ov_write ws ov) (know_tally_key i) = load_tallies ov (know_tally_key i)"
    "created_in_window (fold ov_write ws ov) a t = created_in_window ov a t" "ov_get (fold ov_write ws ov) (created_key a) = ov_get ov (created_key a)"
    by (simp_all add: g load_proposal_def load_stake_vote_def load_know_vote_def locked_until_def load_u64_def stake_tally_def load_tallies_def created_in_window_def)
qed

lemma start_views:
  assumes "\<And>k. starts_with k ''dao:'' \<Longrightarrow> ov_get ov k = None"
  shows "load_proposal ov i = None" "load_stake_vote ov i a = None" "load_know_vote ov i a = None" "ov_get ov (created_key a) = None"
  by (simp_all add: assms load_proposal_def load_stake_vote_def load_know_vote_def)

text \<open>The writes of a stake vote, seen through the views.\<close>

lemma cast_views:
  assumes "pr_id p = i" "length i = 19"
  shows "load_proposal (cast_stake_vote p a opt w ov) j = load_proposal ov j"
    "length j = 19 \<Longrightarrow> load_stake_vote (cast_stake_vote p a opt w ov) j b = (if j = i \<and> b = a then Some \<lparr>sv_option = opt, sv_weight = w\<rparr> else load_stake_vote ov j b)"
    "load_know_vote (cast_stake_vote p a opt w ov) j b = load_know_vote ov j b"
  using assms by (auto simp: cast_stake_vote_def Let_def load_stake_vote_put_same split: option.split)

lemma cast_lock:
  assumes "- (2 ^ 63) \<le> pr_ends_at p" "pr_ends_at p < 2 ^ 63"
  shows "locked_until (cast_stake_vote p a opt w ov) b = (if a = b then max (pr_ends_at p) (locked_until ov b) else locked_until ov b)"
  using assms by (simp add: cast_stake_vote_def Let_def locked_until_lock split: option.split)

lemma add_right_views [simp]:
  "load_proposal (add_right p opt ans ov) j = load_proposal ov j" "load_stake_vote (add_right p opt ans ov) j b = load_stake_vote ov j b"
  "load_know_vote (add_right p opt ans ov) j b = load_know_vote ov j b" "locked_until (add_right p opt ans ov) b = locked_until ov b"
  "stake_tally (add_right p opt ans ov) j = stake_tally ov j"
  by (simp_all add: add_right_def Let_def)

subsection \<open>Every proposal is stored under its identifier, every vote locks its stake\<close>

definition proposals_kept :: "overlay \<Rightarrow> bool" where
  "proposals_kept ov \<longleftrightarrow> (\<forall>i p. load_proposal ov i = Some p \<longrightarrow> pr_id p = i \<and> - (2 ^ 63) \<le> pr_ends_at p \<and> pr_ends_at p < 2 ^ 63)"

lemma proposals_keptD: "proposals_kept ov \<Longrightarrow> load_proposal ov i = Some p \<Longrightarrow> pr_id p = i \<and> - (2 ^ 63) \<le> pr_ends_at p \<and> pr_ends_at p < 2 ^ 63"
  by (auto simp: proposals_kept_def)

text \<open>A step keeps every proposal but for its answers, the time of their reveal and whether it is withdrawn.\<close>

definition terms :: "dao_proposal \<Rightarrow> string \<times> string list \<times> i64 \<times> u64 \<times> dao_question list" where
  "terms p = (pr_id p, pr_options p, pr_ends_at p, pr_height p, pr_questions p)"

lemma new_proposal_ok:
  "pr_id (new_proposal de block tx b) = proposal_id de (lt_hash tx)"
  "- (2 ^ 63) \<le> pr_ends_at (new_proposal de block tx b)" "pr_ends_at (new_proposal de block tx b) < 2 ^ 63"
  using i64_wrap_range by (simp_all add: new_proposal_def)

lemma not_stored: "ov_get ov (p_key i) = None \<Longrightarrow> load_proposal ov i = None"
  by (simp add: load_proposal_def)

lemma step_proposals:
  assumes "proposals_kept ov"
  shows "proposals_kept (dao_step de block stake tx ov)"
    "load_proposal ov j = Some q \<Longrightarrow> \<exists>q'. load_proposal (dao_step de block stake tx ov) j = Some q' \<and> terms q' = terms q"
proof -
  have "proposals_kept (dao_step de block stake tx ov) \<and> (\<forall>j q. load_proposal ov j = Some q \<longrightarrow>
    (\<exists>q'. load_proposal (dao_step de block stake tx ov) j = Some q' \<and> terms q' = terms q))"
  proof (cases rule: dao_step_cases [of de block stake tx ov])
    case (propose b)
    from not_stored [OF propose(1)] show ?thesis unfolding propose(3)
      using assms new_proposal_ok [of de block tx b] by (auto simp: proposals_kept_def)
  next
    case (vote i p opt)
    then show ?thesis using assms cast_views(1) proposals_keptD [OF assms vote(2)] by (auto simp: proposals_kept_def)
  next
    case (know i p v ov1)
    then show ?thesis using assms by (auto simp: proposals_kept_def)
  next
    case (know_reveal i p v salt ans)
    then show ?thesis using assms by (auto simp: proposals_kept_def)
  next
    case (reveal i p p' ans)
    then show ?thesis using assms proposals_keptD [OF assms reveal(2)] by (auto simp: proposals_kept_def terms_def)
  next
    case (report a rs)
    then show ?thesis using assms by (auto simp: proposals_kept_def)
  next
    case (withdraw i p)
    then show ?thesis using assms proposals_keptD [OF assms withdraw(2)] by (auto simp: proposals_kept_def terms_def)
  qed (use assms in auto)
  then show "proposals_kept (dao_step de block stake tx ov)"
    "load_proposal ov j = Some q \<Longrightarrow> \<exists>q'. load_proposal (dao_step de block stake tx ov) j = Some q' \<and> terms q' = terms q" by blast+
qed

lemma reach_proposals: "dao_reach de P t ov \<Longrightarrow> proposals_kept ov"
proof (induction rule: dao_reach.induct)
  case (tx t ov block stake tx)
  then show ?case by (simp add: step_proposals(1))
qed (auto simp: proposals_kept_def start_views other_frame)

text \<open>A lock never ends earlier.\<close>

lemma step_lock:
  assumes "proposals_kept ov"
  shows "locked_until ov a \<le> locked_until (dao_step de block stake tx ov) a"
proof (cases rule: dao_step_cases [of de block stake tx ov])
  case (vote i p opt)
  then show ?thesis using proposals_keptD [OF assms vote(2)] by (simp add: cast_lock)
next
  case (report b rs)
  then show ?thesis using i64_wrap_range by (simp add: locked_until_lock)
qed auto

definition votes_locked :: "overlay \<Rightarrow> bool" where
  "votes_locked ov \<longleftrightarrow> (\<forall>i a. length i = 19 \<longrightarrow> load_stake_vote ov i a \<noteq> None \<longrightarrow>
     (\<exists>p. load_proposal ov i = Some p \<and> pr_ends_at p \<le> locked_until ov a))"

lemma step_stake_votes:
  assumes "proposals_kept ov" "length j = 19"
  shows "load_stake_vote (dao_step de block stake tx ov) j a = load_stake_vote ov j a \<or>
    (\<exists>p opt. a = lt_from tx \<and> load_proposal ov j = Some p \<and> lb_timestamp block < pr_ends_at p \<and> unat opt < length (pr_options p) \<and>
      dao_step de block stake tx ov = cast_stake_vote p a opt (stake_of ov a) ov)"
proof (cases rule: dao_step_cases [of de block stake tx ov])
  case (vote i p opt)
  then show ?thesis using proposals_keptD [OF assms(1) vote(2)] cast_views(2) assms(2) by (cases "i = j \<and> a = lt_from tx") auto
qed auto

lemma step_votes_locked:
  assumes "proposals_kept ov" "votes_locked ov"
  shows "votes_locked (dao_step de block stake tx ov)"
  unfolding votes_locked_def
proof (intro allI impI)
  fix i a assume i: "length i = 19" and v: "load_stake_vote (dao_step de block stake tx ov) i a \<noteq> None"
  have "\<exists>p. load_proposal ov i = Some p \<and> pr_ends_at p \<le> locked_until (dao_step de block stake tx ov) a"
    using step_stake_votes [OF assms(1) i, of de block stake tx a]
  proof (elim disjE exE conjE)
    assume "load_stake_vote (dao_step de block stake tx ov) i a = load_stake_vote ov i a"
    with v i assms(2) obtain p where "load_proposal ov i = Some p" "pr_ends_at p \<le> locked_until ov a" by (auto simp: votes_locked_def)
    with step_lock [OF assms(1)] order_trans show ?thesis by blast
  next
    fix p opt assume c: "load_proposal ov i = Some p" "dao_step de block stake tx ov = cast_stake_vote p a opt (stake_of ov a) ov"
    with proposals_keptD [OF assms(1) c(1)] show ?thesis by (auto simp: cast_lock)
  qed
  with step_proposals(2) [OF assms(1)] show "\<exists>p. load_proposal (dao_step de block stake tx ov) i = Some p \<and> pr_ends_at p \<le> locked_until (dao_step de block stake tx ov) a"
    by (fastforce simp: terms_def)
qed

lemma reach_votes_locked: "dao_reach de P t ov \<Longrightarrow> votes_locked ov"
proof (induction rule: dao_reach.induct)
  case (tx t ov block stake tx)
  then show ?case using step_votes_locked reach_proposals by blast
qed (auto simp: votes_locked_def start_views other_frame)

lemma check_unstakes_all:
  "check_unstakes ov now voters txs = Inr () \<Longrightarrow> tx \<in> set txs \<Longrightarrow> lt_from tx \<notin> voters \<and> locked_until ov (lt_from tx) \<le> now"
  by (induction txs) (auto split: if_splits)

text \<open>
  C12. Stake that voted stays staked until the vote is over: in every overlay governance reaches, a
  block that validates at a time before the end of a proposal holds no unstake of anyone with a
  recorded vote on it, and none of anyone who votes or reports in that block.
\<close>

theorem voted_stake_stays:
  assumes "dao_reach de P t ov" "dao_validate de ov block txs = Inr ()" "dao_rule_active (lb_height block)"
    and "tx \<in> set txs" "is_unstake_tx tx"
  shows "(\<forall>i p. length i = 19 \<and> load_proposal ov i = Some p \<and> lb_timestamp block < pr_ends_at p \<longrightarrow> load_stake_vote ov i (lt_from tx) = None)
    \<and> (\<forall>tx' \<in> set txs. is_dao_tx tx' \<and> locks_stake tx' \<longrightarrow> lt_from tx' \<noteq> lt_from tx)"
proof -
  have "check_unstakes ov (lb_timestamp block) (lt_from ` set (filter locks_stake (filter is_dao_tx txs))) (filter is_unstake_tx txs) = Inr ()"
    using assms(2,3) by (auto simp: dao_validate_def Let_def)
  from check_unstakes_all [OF this, of tx] assms(4,5)
  have c: "lt_from tx \<notin> lt_from ` set (filter locks_stake (filter is_dao_tx txs))" "locked_until ov (lt_from tx) \<le> lb_timestamp block" by auto
  have "load_stake_vote ov i (lt_from tx) = None" if "length i = 19" "load_proposal ov i = Some p" "lb_timestamp block < pr_ends_at p" for i p
    using reach_votes_locked [OF assms(1)] that c(2) by (force simp: votes_locked_def)
  moreover have "lt_from tx' \<noteq> lt_from tx" if "tx' \<in> set txs" "is_dao_tx tx'" "locks_stake tx'" for tx'
    using c(1) that by (auto simp: image_iff)
  ultimately show ?thesis by blast
qed

subsection \<open>The tally is the sum of the recorded votes\<close>

definition voters :: "overlay \<Rightarrow> string \<Rightarrow> string set" where
  "voters ov i = {a. load_stake_vote ov i a \<noteq> None}"

definition weight_for :: "nat \<Rightarrow> stake_vote option \<Rightarrow> nat" where
  "weight_for k v = (case v of None \<Rightarrow> 0 | Some v \<Rightarrow> if unat (sv_option v) = k then unat (sv_weight v) else 0)"

definition votes_for :: "overlay \<Rightarrow> string \<Rightarrow> nat \<Rightarrow> nat" where
  "votes_for ov i k = (\<Sum>a \<in> voters ov i. weight_for k (load_stake_vote ov i a))"

text \<open>The votes for each option fit into 64 bits.\<close>

definition votes_fit :: "overlay \<Rightarrow> bool" where
  "votes_fit ov \<longleftrightarrow> (\<forall>i k. length i = 19 \<longrightarrow> votes_for ov i k < 2 ^ 64)"

definition tallied :: "overlay \<Rightarrow> string \<Rightarrow> dao_proposal \<Rightarrow> bool" where
  "tallied ov i p \<longleftrightarrow> finite (voters ov i) \<and>
     (\<exists>ts. stake_tally ov i = (Some ts, of_nat (card (voters ov i))) \<and> length ts = length (pr_options p) \<and>
       (\<forall>k < length ts. unat (ts ! k) = votes_for ov i k))"

lemma votes_for_revote:
  assumes "finite (voters ov i)" "\<And>b. load_stake_vote ov' i b = (if b = a then Some v else load_stake_vote ov i b)"
  shows "voters ov' i = insert a (voters ov i)"
    "votes_for ov' i k + weight_for k (load_stake_vote ov i a) = votes_for ov i k + weight_for k (Some v)"
proof -
  show v: "voters ov' i = insert a (voters ov i)" using assms(2) by (auto simp: voters_def)
  have rest: "(\<Sum>b \<in> voters ov i - {a}. weight_for k (load_stake_vote ov' i b)) = (\<Sum>b \<in> voters ov i - {a}. weight_for k (load_stake_vote ov i b))"
    by (rule sum.cong) (simp_all add: assms(2))
  have new: "votes_for ov' i k = weight_for k (Some v) + (\<Sum>b \<in> voters ov i - {a}. weight_for k (load_stake_vote ov' i b))"
    unfolding votes_for_def v by (subst sum.insert_remove [OF assms(1)]) (simp add: assms(2))
  have old: "votes_for ov i k = weight_for k (load_stake_vote ov i a) + (\<Sum>b \<in> voters ov i - {a}. weight_for k (load_stake_vote ov i b))"
  proof (cases "a \<in> voters ov i")
    case True
    then show ?thesis unfolding votes_for_def by (rule sum.remove [OF assms(1)])
  next
    case False
    then show ?thesis by (simp add: votes_for_def voters_def weight_for_def)
  qed
  show "votes_for ov' i k + weight_for k (load_stake_vote ov i a) = votes_for ov i k + weight_for k (Some v)"
    using new old rest by simp
qed

lemma resized_id [simp]: "length ts = n \<Longrightarrow> resized n ts = ts"
  by (simp add: resized_def)

text \<open>The tally and the count that a vote writes: the earlier vote taken back, the new one added.\<close>

definition take_back :: "stake_vote option \<Rightarrow> u64 list \<Rightarrow> u64 list" where
  "take_back prev ts = (case prev of
     Some v \<Rightarrow> if unat (sv_option v) < length ts then ts[unat (sv_option v) := sat_sub (ts ! unat (sv_option v)) (sv_weight v)] else ts
   | None \<Rightarrow> ts)"

definition add_vote :: "u32 \<Rightarrow> u64 \<Rightarrow> u64 list \<Rightarrow> u64 list" where
  "add_vote opt w ts = ts[unat opt := sat_add (ts ! unat opt) w]"

lemma vote_lengths [simp]: "length (take_back prev ts) = length ts" "length (add_vote opt w ts) = length ts"
  by (simp_all add: take_back_def add_vote_def split: option.split)

lemma cast_tally:
  assumes "stake_tally ov i = (Some ts, c)" "length ts = length (pr_options p)" "pr_id p = i"
  shows "stake_tally (cast_stake_vote p a opt w ov) j =
    (if j = i then (Some (add_vote opt w (take_back (load_stake_vote ov i a) ts)), if load_stake_vote ov i a = None then c + 1 else c) else stake_tally ov j)"
proof -
  have "load_tallies ov (dao_tally_key i) = Some ts" "load_u64 ov (stake_count_key i) = c" using assms(1) by (simp_all add: stake_tally_def)
  then show ?thesis using assms(1,2) unfolding take_back_def add_vote_def assms(3) [symmetric]
    by (cases "load_stake_vote ov (pr_id p) a") (simp_all add: cast_stake_vote_def Let_def)
qed

lemma cast_exact:
  assumes "\<And>k. k < length ts \<Longrightarrow> unat (ts ! k) = f k" "unat opt < length ts"
    and "\<And>k. g k + weight_for k prev = f k + weight_for k (Some \<lparr>sv_option = opt, sv_weight = w\<rparr>)" "\<And>k. g k < 2 ^ 64"
    and "\<And>k. weight_for k prev \<le> f k" "k < length ts"
  shows "unat (add_vote opt w (take_back prev ts) ! k) = g k"
proof -
  have b: "unat (take_back prev ts ! j) = f j - weight_for j prev" if "j < length ts" for j
    using assms(1) [OF that] that by (auto simp: take_back_def weight_for_def nth_list_update unat_sat_sub split: option.split)
  show ?thesis
  proof (cases "unat opt = k")
    case True
    have "unat (take_back prev ts ! k) + unat w = g k" using assms(3) [of k] assms(5) [of k] b [OF assms(6)] True by (simp add: weight_for_def)
    with assms(4) [of k] True assms(2) show ?thesis by (simp add: add_vote_def unat_sat_add)
  next
    case False
    with assms(3) [of k] assms(5) [of k] b [OF assms(6)] assms(6) show ?thesis by (simp add: weight_for_def add_vote_def)
  qed
qed

lemma votes_for_ge: "finite (voters ov i) \<Longrightarrow> weight_for k (load_stake_vote ov i a) \<le> votes_for ov i k"
  unfolding votes_for_def by (cases "a \<in> voters ov i") (auto simp: voters_def weight_for_def intro!: member_le_sum)

lemma tallied_same:
  assumes "tallied ov i p" "\<And>a. load_stake_vote ov' i a = load_stake_vote ov i a" "stake_tally ov' i = stake_tally ov i" "terms q = terms p"
  shows "tallied ov' i q"
proof -
  have "voters ov' i = voters ov i" "\<And>k. votes_for ov' i k = votes_for ov i k" using assms(2) by (simp_all add: voters_def votes_for_def)
  then show ?thesis using assms(1,3,4) by (simp add: tallied_def terms_def)
qed

lemma tallied_cast:
  assumes t: "tallied ov i p" and i: "length i = 19" "pr_id p = i" and o: "unat opt < length (pr_options p)"
    and fit: "votes_fit (cast_stake_vote p a opt w ov)" and q: "terms q = terms p"
  shows "tallied (cast_stake_vote p a opt w ov) i q"
proof -
  let ?ov = "cast_stake_vote p a opt w ov"
  obtain ts where fin: "finite (voters ov i)" and ts: "stake_tally ov i = (Some ts, of_nat (card (voters ov i)))" "length ts = length (pr_options p)"
    "\<And>k. k < length ts \<Longrightarrow> unat (ts ! k) = votes_for ov i k" using t by (auto simp: tallied_def)
  have load: "load_stake_vote ?ov i b = (if b = a then Some \<lparr>sv_option = opt, sv_weight = w\<rparr> else load_stake_vote ov i b)" for b
    using cast_views(2) [OF i(2,1) i(1)] by simp
  note re = votes_for_revote [OF fin load]
  note tally = cast_tally [OF ts(1,2) i(2), of a opt w i]
  have count: "(if load_stake_vote ov i a = None then of_nat (card (voters ov i)) + 1 else of_nat (card (voters ov i))) = (of_nat (card (voters ?ov i)) :: u64)"
    unfolding re(1) using fin by (auto simp: voters_def card_insert_if)
  have ge: "\<And>k. weight_for k (load_stake_vote ov i a) \<le> votes_for ov i k" using votes_for_ge [OF fin] by blast
  have g: "\<And>k. votes_for ?ov i k < 2 ^ 64" using fit i(1) by (simp add: votes_fit_def)
  have opt: "unat opt < length ts" using o ts(2) by simp
  note exact = cast_exact [OF ts(3) opt re(2) g ge]
  show ?thesis unfolding tallied_def re(1)
    using fin tally count [unfolded re(1)] exact ts(2) q by (simp add: terms_def)
qed

definition all_tallied :: "overlay \<Rightarrow> bool" where
  "all_tallied ov \<longleftrightarrow> (\<forall>i p. length i = 19 \<longrightarrow> load_proposal ov i = Some p \<longrightarrow> tallied ov i p)"

lemma tallied_other_cast:
  assumes "tallied ov i p" "length i = 19" "load_proposal ov j = Some r" "pr_id r = j" "length j = 19" "i \<noteq> j" "terms q = terms p" "tallied ov j r"
  shows "tallied (cast_stake_vote r a opt w ov) i q"
proof (rule tallied_same [OF assms(1) _ _ assms(7)])
  obtain ts c where "stake_tally ov j = (Some ts, c)" "length ts = length (pr_options r)" using assms(8) by (auto simp: tallied_def)
  from cast_tally [OF this assms(4), of a opt w i] assms(6) show "stake_tally (cast_stake_vote r a opt w ov) i = stake_tally ov i" by simp
qed (use cast_views(2) [OF assms(4,5,2)] assms(6) in simp)

lemma fresh_votes:
  assumes "votes_locked ov" "length i = 19" "load_proposal ov i = None"
  shows "load_stake_vote ov i a = None"
  using assms by (cases "load_stake_vote ov i a") (auto simp: votes_locked_def)

text \<open>The count of a proposal that does not exist is zero.\<close>

definition no_counts :: "overlay \<Rightarrow> bool" where
  "no_counts ov \<longleftrightarrow> (\<forall>i. load_proposal ov i = None \<longrightarrow> snd (stake_tally ov i) = 0)"

lemma cast_tally_other: "j \<noteq> pr_id p \<Longrightarrow> stake_tally (cast_stake_vote p a opt w ov) j = stake_tally ov j"
  by (simp add: cast_stake_vote_def Let_def split: option.split)

lemma step_no_counts:
  assumes "proposals_kept ov" "no_counts ov"
  shows "no_counts (dao_step de block stake tx ov)"
  unfolding no_counts_def
proof (intro allI impI)
  fix j assume "load_proposal (dao_step de block stake tx ov) j = None"
  then have n: "load_proposal ov j = None" using step_proposals(2) [OF assms(1), of j _ de block stake tx] by (cases "load_proposal ov j") auto
  have "snd (stake_tally (dao_step de block stake tx ov) j) = snd (stake_tally ov j)"
  proof (cases rule: dao_step_cases [of de block stake tx ov])
    case (vote i p opt)
    have "j \<noteq> pr_id p" using proposals_keptD [OF assms(1) vote(2)] vote(2) n by auto
    then show ?thesis unfolding vote(6) by (simp add: cast_tally_other)
  qed auto
  with n assms(2) show "snd (stake_tally (dao_step de block stake tx ov) j) = 0" by (simp add: no_counts_def)
qed

lemma reach_no_counts: "dao_reach de P t ov \<Longrightarrow> no_counts ov"
proof (induction rule: dao_reach.induct)
  case (start ov t)
  then show ?case by (simp add: no_counts_def stake_tally_def load_u64_def)
next
  case (tx t ov block stake tx)
  then show ?case using step_no_counts reach_proposals by blast
qed (auto simp: no_counts_def other_frame)

lemma step_creates:
  assumes "proposals_kept ov" "load_proposal ov j = None" "load_proposal (dao_step de block stake tx ov) j = Some q"
  shows "\<exists>b. proposal_id de (lt_hash tx) = j \<and> q = new_proposal de block tx b \<and>
    stake_tally (dao_step de block stake tx ov) j = (Some (replicate (length (pb_options b)) 0), snd (stake_tally ov j)) \<and>
    (\<forall>a. load_stake_vote (dao_step de block stake tx ov) j a = load_stake_vote ov j a)"
proof (cases rule: dao_step_cases [of de block stake tx ov])
  case (propose b)
  with assms(2,3) have "proposal_id de (lt_hash tx) = j" "q = new_proposal de block tx b" by (auto split: if_splits)
  with propose(3) show ?thesis by auto
next
  case (vote i p opt)
  then show ?thesis using assms proposals_keptD [OF assms(1) vote(2)] cast_views(1) by auto
next
  case (know i p v ov1)
  then show ?thesis using assms(2,3) by auto
next
  case (reveal i p p' ans)
  then show ?thesis using assms(2,3) proposals_keptD [OF assms(1) reveal(2)] by (auto split: if_splits)
next
  case (withdraw i p)
  then show ?thesis using assms(2,3) proposals_keptD [OF assms(1) withdraw(2)] by (auto split: if_splits)
qed (use assms(2,3) in \<open>simp_all split: if_splits\<close>)

lemma step_tallied:
  assumes ok: "proposals_kept ov" "votes_locked ov" "no_counts ov" "all_tallied ov" and fit: "votes_fit (dao_step de block stake tx ov)"
  shows "all_tallied (dao_step de block stake tx ov)"
  unfolding all_tallied_def
proof (intro allI impI)
  fix j q assume j: "length j = 19" and q: "load_proposal (dao_step de block stake tx ov) j = Some q"
  show "tallied (dao_step de block stake tx ov) j q"
  proof (cases "load_proposal ov j")
    case (Some p)
    then have t: "tallied ov j p" using ok(4) j by (simp add: all_tallied_def)
    have e: "terms q = terms p" using step_proposals(2) [OF ok(1) Some, of de block stake tx] q by auto
    show ?thesis
    proof (cases rule: dao_step_cases [of de block stake tx ov])
      case (propose b)
      with not_stored [OF propose(1)] Some have "j \<noteq> proposal_id de (lt_hash tx)" by auto
      then show ?thesis unfolding propose(3) by (intro tallied_same [OF t _ _ e]) simp_all
    next
      case (vote i r opt)
      have r: "pr_id r = i" using proposals_keptD [OF ok(1) vote(2)] by simp
      show ?thesis
      proof (cases "i = j")
        case True
        with vote Some t r j e fit show ?thesis by (auto intro: tallied_cast)
      next
        case False
        have "tallied ov i r" using ok(4) vote(1,2) by (simp add: all_tallied_def)
        from tallied_other_cast [OF t j vote(2) r vote(1) _ e this] False show ?thesis unfolding vote(6) by simp
      qed
    next
      case (know i r v ov1)
      then show ?thesis by (intro tallied_same [OF t _ _ e]) auto
    qed (use tallied_same [OF t _ _ e] in simp_all)
  next
    case None
    obtain b where new: "proposal_id de (lt_hash tx) = j" "q = new_proposal de block tx b"
      "stake_tally (dao_step de block stake tx ov) j = (Some (replicate (length (pb_options b)) 0), snd (stake_tally ov j))"
      "\<And>a. load_stake_vote (dao_step de block stake tx ov) j a = load_stake_vote ov j a"
      using q None step_creates [OF ok(1)] by blast
    have "voters (dao_step de block stake tx ov) j = {}" using new(4) fresh_votes [OF ok(2) j None] by (simp add: voters_def)
    with new(2,3) None ok(3) show ?thesis by (simp add: tallied_def votes_for_def no_counts_def new_proposal_def)
  qed
qed

lemma reach_tallied: "dao_reach de votes_fit t ov \<Longrightarrow> all_tallied ov"
proof (induction rule: dao_reach.induct)
  case (tx t ov block stake tx)
  then show ?case using step_tallied reach_proposals reach_votes_locked reach_no_counts by blast
next
  case (other t ov ws)
  show ?case unfolding all_tallied_def
  proof (intro allI impI)
    fix i p assume "length i = 19" "load_proposal (fold ov_write ws ov) i = Some p"
    then have "tallied ov i p" using other by (simp add: all_tallied_def other_frame)
    then show "tallied (fold ov_write ws ov) i p" by (rule tallied_same) (simp_all add: other_frame [OF other(2)])
  qed
qed (auto simp: all_tallied_def start_views)

text \<open>
  C13. The tally of a proposal is the sum of the votes recorded on it: in every overlay governance
  reaches with the votes for each option below \<open>2 ^ 64\<close>, the tally has one entry per option, each is
  the stake of those whose latest vote is for that option, and the count is the number of voters.
\<close>

theorem dao_votes_counted:
  assumes "dao_reach de votes_fit t ov" "length i = 19" "load_proposal ov i = Some p"
  shows "finite (voters ov i) \<and> (\<exists>ts. stake_tally ov i = (Some ts, of_nat (card (voters ov i))) \<and> length ts = length (pr_options p) \<and>
    (\<forall>k < length ts. unat (ts ! k) = votes_for ov i k))"
  using reach_tallied [OF assms(1)] assms(2,3) by (simp add: all_tallied_def tallied_def)

subsection \<open>An ended vote is final\<close>

lemma step_ended:
  assumes "proposals_kept ov" "load_proposal ov j = Some q" "length j = 19" "pr_ends_at q \<le> lb_timestamp block"
  shows "stake_tally (dao_step de block stake tx ov) j = stake_tally ov j"
    "load_stake_vote (dao_step de block stake tx ov) j a = load_stake_vote ov j a"
proof -
  show "load_stake_vote (dao_step de block stake tx ov) j a = load_stake_vote ov j a"
    using step_stake_votes [OF assms(1,3), of de block stake tx a] assms(2,4) by auto
  show "stake_tally (dao_step de block stake tx ov) j = stake_tally ov j"
  proof (cases rule: dao_step_cases [of de block stake tx ov])
    case (propose b)
    then show ?thesis using not_stored [OF propose(1)] assms(2) by auto
  next
    case (vote i p opt)
    then have "j \<noteq> pr_id p" using proposals_keptD [OF assms(1) vote(2)] assms(2,4) by auto
    then show ?thesis unfolding vote(6) by (simp add: cast_tally_other)
  qed auto
qed

definition vote_over :: "string \<Rightarrow> i64 \<Rightarrow> overlay \<Rightarrow> overlay \<Rightarrow> bool" where
  "vote_over j e ov ov' \<longleftrightarrow> proposals_kept ov' \<and> (\<exists>q. load_proposal ov' j = Some q \<and> pr_ends_at q = e) \<and>
     stake_tally ov' j = stake_tally ov j \<and> (\<forall>a. load_stake_vote ov' j a = load_stake_vote ov j a)"

lemma vote_over_step:
  assumes "vote_over j e ov ov'" "length j = 19" "e \<le> lb_timestamp block"
  shows "vote_over j e ov (dao_step de block stake tx ov')"
proof -
  obtain q where q: "proposals_kept ov'" "load_proposal ov' j = Some q" "pr_ends_at q = e" using assms(1) by (auto simp: vote_over_def)
  with step_ended [OF q(1,2) assms(2)] step_proposals [OF q(1)] assms(1,3) show ?thesis
    by (fastforce simp: vote_over_def terms_def)
qed

lemma vote_over_block:
  assumes "vote_over j e ov ov'" "length j = 19" "e \<le> lb_timestamp block"
  shows "vote_over j e ov (dao_apply_block de block txs stake ov')"
proof -
  have "vote_over j e ov ov' \<Longrightarrow> vote_over j e ov (fold (dao_step de block stake) ts ov')" for ts
    by (induction ts arbitrary: ov') (simp_all add: vote_over_step assms(2,3))
  with assms(1) show ?thesis by (simp add: dao_apply_block_def)
qed

text \<open>
  C21. An ended vote is final: no block at or after the end of a proposal changes its tally, its count or
  a vote recorded on it, or makes it end at another time.
\<close>

theorem ended_vote_final:
  assumes "dao_reach de P t ov" "load_proposal ov j = Some p" "length j = 19"
    and "\<forall>(block, txs, stake) \<in> set blocks. pr_ends_at p \<le> lb_timestamp block"
  shows "let ov' = fold (\<lambda>(block, txs, stake). dao_apply_block de block txs stake) blocks ov in
    stake_tally ov' j = stake_tally ov j \<and> (\<forall>a. load_stake_vote ov' j a = load_stake_vote ov j a) \<and>
    (\<exists>q. load_proposal ov' j = Some q \<and> pr_ends_at q = pr_ends_at p)"
proof -
  have "vote_over j (pr_ends_at p) ov ov' \<Longrightarrow> vote_over j (pr_ends_at p) ov (fold (\<lambda>(block, txs, stake). dao_apply_block de block txs stake) blocks ov')" for ov'
    using assms(4) by (induction blocks arbitrary: ov') (auto simp: vote_over_block assms(3))
  from this [of ov] reach_proposals [OF assms(1)] assms(2) show ?thesis by (simp add: vote_over_def Let_def)
qed

subsection \<open>A vote that is changed\<close>

definition poll_body :: propose_body where
  "poll_body = \<lparr>pb_title = ''fees'', pb_description = [], pb_kind = ''protocol'', pb_options = [''yes'', ''no''], pb_duration_days = 3,
     pb_questions = [], pb_answers_commit = []\<rparr>"

definition poll_id :: string where "poll_id = ''dao'' @ replicate 16 CHR ''0''"

definition poll_env :: dao_env where
  "poll_env = \<lparr>de_blake3 = (\<lambda>_. []), de_hex = (\<lambda>_. replicate 64 CHR ''0''), de_read_propose = (\<lambda>_. Some poll_body),
     de_read_vote = (\<lambda>s. Some \<lparr>dv_id = poll_id, dv_option = (if s = ''no'' then 1 else 0)\<rparr>), de_read_know = (\<lambda>_. None),
     de_read_report = (\<lambda>_. None), de_read_reveal = (\<lambda>_. None), de_read_withdraw = (\<lambda>_. None)\<rparr>"

definition poll_tx :: "string \<Rightarrow> string \<Rightarrow> string \<Rightarrow> ledger_tx" where
  "poll_tx kind sender args = \<lparr>lt_hash = ''t'', lt_from = sender, lt_to = (if kind = ''unstake'' then STAKING_ADDR else sender), lt_amount = 0,
     lt_memo = dao_memo_for poll_env kind args, lt_timestamp = 0, lt_signature = [], lt_status = [], lt_block_height = None, lt_nonce = 0,
     lt_dilithium_pubkey = [], lt_dilithium_signature = [], lt_type = kind, lt_fee = 0, lt_priority_fee = 0, lt_call_args = args,
     lt_version = 2, lt_chain_id = 1, lt_vault_cosig = []\<rparr>"

definition poll_block :: "i64 \<Rightarrow> ledger_block" where "poll_block t = \<lparr>lb_height = 70000, lb_timestamp = t\<rparr>"

definition poll_start :: overlay where
  "poll_start = \<lparr>ov_base = [(''stake:ann'', St_U64 5), (''stake:bob'', St_U64 7)], ov_map = (\<lambda>_. None)\<rparr>"

definition poll_open :: overlay where "poll_open = dao_step poll_env (poll_block 1000) 12 (poll_tx DAO_PROPOSE ''bob'' []) poll_start"
definition poll_yes :: overlay where "poll_yes = dao_step poll_env (poll_block 2000) 12 (poll_tx DAO_VOTE ''ann'' ''yes'') poll_open"
definition poll_no :: overlay where "poll_no = dao_step poll_env (poll_block 3000) 12 (poll_tx DAO_VOTE ''ann'' ''no'') poll_yes"

definition poll :: dao_proposal where "poll = new_proposal poll_env (poll_block 1000) (poll_tx DAO_PROPOSE ''bob'' []) poll_body"

lemma poll_fields: "pr_id poll = poll_id" "pr_options poll = [''yes'', ''no'']" "pr_ends_at poll = 260200" "pr_withdrawn poll = False"
  "length poll_id = 19" "proposal_id poll_env h = poll_id"
  by (simp_all add: poll_def new_proposal_def poll_body_def poll_block_def poll_id_def proposal_id_def dao_hash_def poll_env_def i64_wrap_def DAY_SECS_def)

lemma poll_well_formed:
  "dao_well_formed poll_env (poll_tx DAO_PROPOSE ''bob'' []) = Inr ()"
  "dao_well_formed poll_env (poll_tx DAO_VOTE ''ann'' ''yes'') = Inr ()" "dao_well_formed poll_env (poll_tx DAO_VOTE ''ann'' ''no'') = Inr ()"
  by code_simp+

lemma poll_start_get: "starts_with k ''dao:'' \<Longrightarrow> ov_get poll_start k = None"
  by (auto simp: ov_get_def poll_start_def starts_with_def)

lemma poll_tx_fields [simp]: "lt_type (poll_tx kind a args) = kind" "lt_from (poll_tx kind a args) = a" "lt_call_args (poll_tx kind a args) = args"
  "lb_timestamp (poll_block t) = t" "lb_height (poll_block t) = 70000"
  by (simp_all add: poll_tx_def poll_block_def)

lemma poll_open_is:
  "poll_open = ov_put (p_key poll_id) (St_Proposal poll) (ov_put (idx_key 1000 poll_id) St_Empty
     (ov_put (dao_tally_key poll_id) (St_Tallies [0, 0]) (ov_put (created_key ''bob'') (St_Times [1000]) poll_start)))"
proof -
  have "created_in_window poll_start ''bob'' 1000 = []" "active_reports poll_start ''bob'' 1000 = []"
    by (simp_all add: created_in_window_def active_reports_def poll_start_get)
  moreover have "pr_created_at poll = 1000" "de_read_propose poll_env [] = Some poll_body" by (simp_all add: poll_def new_proposal_def poll_env_def)
  ultimately show ?thesis
    by (simp add: poll_open_def dao_step_def dao_apply_tx_def poll_well_formed dao_propose_def readable_def poll_fields poll_start_get
        poll_def [symmetric] banned_def MIN_REPORTERS_def PROPOSALS_PER_WINDOW_def numeral_2_eq_2)
qed

lemma poll_vote:
  assumes "load_proposal ov poll_id = Some poll" "ov_get ov ''stake:ann'' = Some (St_U64 5)" "t < 260200" "s = ''yes'' \<or> s = ''no''"
  shows "dao_step poll_env (poll_block t) 12 (poll_tx DAO_VOTE ''ann'' s) ov = cast_stake_vote poll ''ann'' (if s = ''no'' then 1 else 0) 5 ov"
proof -
  have "DAO_VOTE \<noteq> DAO_PROPOSE" by (simp add: DAO_VOTE_def DAO_PROPOSE_def)
  moreover have "dao_well_formed poll_env (poll_tx DAO_VOTE ''ann'' s) = Inr ()" using assms(4) poll_well_formed by auto
  moreover have "stake_of ov ''ann'' = 5" using assms(2) by (simp add: stake_of_def load_u64_def)
  moreover have "de_read_vote poll_env s = Some \<lparr>dv_id = poll_id, dv_option = (if s = ''no'' then 1 else 0)\<rparr>" by (simp add: poll_env_def)
  ultimately show ?thesis using assms(1,3)
    by (simp add: dao_step_def dao_apply_tx_def dao_stake_vote_def readable_def open_proposal_def poll_fields)
qed

lemma cast_stake: "\<not> starts_with k ''dao:'' \<Longrightarrow> ov_get (cast_stake_vote p a opt w ov) k = ov_get ov k"
  by (auto simp: cast_stake_vote_def Let_def lock_stake_def split: option.split)

lemma poll_open_views: "load_proposal poll_open poll_id = Some poll" "load_stake_vote poll_open i a = None"
  "ov_get poll_open ''stake:ann'' = Some (St_U64 5)"
proof -
  have "ov_get poll_start ''stake:ann'' = Some (St_U64 5)" by (simp add: ov_get_def poll_start_def)
  then show "ov_get poll_open ''stake:ann'' = Some (St_U64 5)" by (simp add: poll_open_is dao_keys)
  show "load_proposal poll_open poll_id = Some poll" "load_stake_vote poll_open i a = None"
    by (simp_all add: poll_open_is start_views poll_start_get)
qed

lemma poll_yes_is: "poll_yes = cast_stake_vote poll ''ann'' 0 5 poll_open"
  unfolding poll_yes_def using poll_open_views by (simp add: poll_vote)

lemma poll_yes_views: "load_proposal poll_yes poll_id = Some poll" "ov_get poll_yes ''stake:ann'' = Some (St_U64 5)"
  "length i = 19 \<Longrightarrow> load_stake_vote poll_yes i a = (if i = poll_id \<and> a = ''ann'' then Some \<lparr>sv_option = 0, sv_weight = 5\<rparr> else None)"
  using poll_open_views cast_views [OF poll_fields(1,5)] by (simp_all add: poll_yes_is cast_stake starts_with_def)

lemma poll_no_is: "poll_no = cast_stake_vote poll ''ann'' 1 5 poll_yes"
  unfolding poll_no_def using poll_yes_views(1,2) by (simp add: poll_vote)

lemma poll_no_views: "load_proposal poll_no poll_id = Some poll"
  "length i = 19 \<Longrightarrow> load_stake_vote poll_no i a = (if i = poll_id \<and> a = ''ann'' then Some \<lparr>sv_option = 1, sv_weight = 5\<rparr> else None)"
  using poll_yes_views cast_views [OF poll_fields(1,5)] by (simp_all add: poll_no_is)

text \<open>Overlays in which at most one address votes.\<close>

lemma one_voter_fits:
  assumes "\<And>i a. length i = 19 \<Longrightarrow> load_stake_vote ov i a = (if i = j \<and> a = b then v else None)"
  shows "votes_fit ov"
  unfolding votes_fit_def
proof (intro allI impI)
  fix i :: string and k assume i: "length i = 19"
  have "voters ov i \<subseteq> {b}" using assms [OF i] by (auto simp: voters_def split: if_splits)
  then have "voters ov i = {} \<or> voters ov i = {b}" by auto
  moreover have "weight_for k x < 2 ^ 64" for x using unsigned_less [where 'b = 64 and 'a = nat] by (auto simp: weight_for_def split: option.split)
  ultimately show "votes_for ov i k < 2 ^ 64" by (auto simp: votes_for_def)
qed

lemma poll_fits: "votes_fit poll_start" "votes_fit poll_open" "votes_fit poll_yes" "votes_fit poll_no"
proof -
  show "votes_fit poll_start" by (rule one_voter_fits [where v = None]) (simp add: start_views poll_start_get)
  show "votes_fit poll_open" by (rule one_voter_fits [where v = None]) (simp add: poll_open_views)
  show "votes_fit poll_yes" by (rule one_voter_fits) (rule poll_yes_views(3))
  show "votes_fit poll_no" by (rule one_voter_fits) (rule poll_no_views(2))
qed

lemma poll_reach: "dao_reach poll_env votes_fit 3000 poll_no"
proof -
  have "dao_reach poll_env votes_fit 0 poll_start" using poll_fits(1) by (auto intro: dao_reach.start simp: poll_start_get)
  from dao_reach.tx [OF this, of "poll_block 1000"] poll_fits(2) have "dao_reach poll_env votes_fit 1000 poll_open" by (simp add: poll_open_def)
  from dao_reach.tx [OF this, of "poll_block 2000"] poll_fits(3) have "dao_reach poll_env votes_fit 2000 poll_yes" by (simp add: poll_yes_def)
  from dao_reach.tx [OF this, of "poll_block 3000"] poll_fits(4) show ?thesis by (simp add: poll_no_def)
qed

text \<open>The stake moves from one option to the other and is counted once.\<close>

theorem dao_votes_counted_witness: "stake_tally poll_no poll_id = (Some [0, 5], 1)"
proof -
  have v: "voters poll_no poll_id = {''ann''}" by (auto simp: voters_def poll_no_views poll_fields split: if_splits)
  have w: "votes_for poll_no poll_id k = (if k = 1 then 5 else 0)" for k
    by (simp add: votes_for_def v poll_no_views(2) poll_fields weight_for_def)
  obtain ts where ts: "stake_tally poll_no poll_id = (Some ts, 1)" "length ts = 2" "\<forall>k < length ts. unat (ts ! k) = votes_for poll_no poll_id k"
    using dao_votes_counted [OF poll_reach poll_fields(5) poll_no_views(1)] by (auto simp: v poll_fields)
  have "ts ! 0 = 0" "ts ! 1 = 5" using ts(2,3) by (simp_all add: w unat_eq_zero word_unat_eq_iff)
  then have "ts = [0, 5]" using ts(2) by (auto simp: numeral_2_eq_2 length_Suc_conv)
  with ts(1) show ?thesis by simp
qed

lemma poll_lock: "locked_until poll_no ''bob'' = 0" "locked_until poll_no ''ann'' = 260200"
proof -
  have o: "locked_until poll_open a = 0" for a
    by (simp add: poll_open_is locked_until_def load_u64_def dao_keys) (simp add: poll_start_get [unfolded starts_with_def])
  show "locked_until poll_no ''bob'' = 0" "locked_until poll_no ''ann'' = 260200"
    by (simp_all add: poll_no_is poll_yes_is cast_lock poll_fields o)
qed

text \<open>The address that has not voted unstakes during the vote.\<close>

theorem voted_stake_stays_witness:
  "dao_validate poll_env poll_no (poll_block 4000) [poll_tx ''unstake'' ''bob'' []] = Inr () \<and> load_stake_vote poll_no poll_id ''bob'' = None"
proof -
  let ?tx = "poll_tx ''unstake'' ''bob'' []"
  have u: "is_unstake_tx ?tx" "\<not> is_dao_tx ?tx"
    by (simp_all add: is_unstake_tx_def poll_tx_def is_dao_tx_def DAO_TYPES_def DAO_PROPOSE_def DAO_VOTE_def DAO_KNOW_def DAO_REVEAL_def DAO_WITHDRAW_def DAO_KNOW_REVEAL_def DAO_REPORT_def)
  have v: "dao_validate poll_env poll_no (poll_block 4000) [?tx] = Inr ()" by (simp add: dao_validate_def u poll_lock)
  have a: "dao_rule_active (lb_height (poll_block 4000))" by (simp add: dao_rule_active_def DAO_ACTIVATION_HEIGHT_def)
  from voted_stake_stays [OF poll_reach v a, of ?tx] u poll_no_views(1) v show ?thesis by (auto simp: poll_fields)
qed

text \<open>A vote that comes after the end changes nothing.\<close>

theorem ended_vote_final_witness:
  "stake_tally (dao_apply_block poll_env (poll_block 300000) [poll_tx DAO_VOTE ''ann'' ''yes''] 12 poll_no) poll_id = stake_tally poll_no poll_id"
  using ended_vote_final [OF poll_reach poll_no_views(1) poll_fields(5), of "[(poll_block 300000, [poll_tx DAO_VOTE ''ann'' ''yes''], 12)]"]
  by (simp add: poll_fields Let_def)

end
