(* ===== verification/Spec2Isabelle.thy ===== *)
theory Spec2Isabelle
  imports Tendermint_Run Bft_Engine Account Escrow Sparse_Merkle Abi Hold_Pay Hold_Trace Dao_Votes
begin

text \<open>
  A verification development of the consensus, account, escrow, trie, contract-interface,
  theft-hold and governance code of the repository.

  \<^bold>\<open>The program.\<close> The repository is a blockchain node with its wallets and contracts. A block is
  agreed on by a committee of validators. Two consensus engines are in
  \<^verbatim>\<open>crates/ego-consensus-core\<close>: \<^verbatim>\<open>tendermint.rs\<close>, a state machine that decides one value per height
  by proposals, prevotes and precommits, and \<^verbatim>\<open>bft.rs\<close> with \<^verbatim>\<open>fork_choice.rs\<close>, an engine that votes
  on signed block headers, forms quorum certificates and changes views. Both use the hashes, keys
  and signature checks of \<^verbatim>\<open>crates/ego-core\<close> (\<^verbatim>\<open>types.rs\<close>, \<^verbatim>\<open>crypto.rs\<close>, \<^verbatim>\<open>error.rs\<close>). Accounts
  (\<^verbatim>\<open>account.rs\<close> of the same crate) hold balances, nonces, validator and storage-provider state.
  The state of a shard is a sparse Merkle trie (\<^verbatim>\<open>sparse_merkle.rs\<close>), whose proofs light clients
  check. Contracts are called through the binary interface of \<^verbatim>\<open>crates/ego-vm/src/abi.rs\<close>.
  \<^verbatim>\<open>contracts/p2p-solana\<close> is the escrow program for trades that are paid on Solana. Theft holds
  (\<^verbatim>\<open>ego-desktop/src-tauri/src/hold_chain.rs\<close>) are the chain rules by which stolen coins are traced,
  held on the order of a drawn committee, voted on by stakers and nodes, and returned or released.
  Governance (\<^verbatim>\<open>dao_chain.rs\<close> beside it) are the chain rules of proposals: stakers vote with their
  stake, others with answers to a knowledge test that are committed to and revealed later, and
  addresses are reported. Both keep their state in an overlay over the database (\<^verbatim>\<open>drs.rs\<close>).

  \<^bold>\<open>The theories.\<close>
  \<^item> \<^verbatim>\<open>Ego_Prelude\<close>: the integer types of Rust as words with their saturating, checked and wrapping
    operations, results as sums, hash maps as association lists, B-tree maps as sorted ones,
    byte encodings, quorum cardinalities. \<^verbatim>\<open>Codec\<close>: the interface of an encoder and decoder.
    \<^verbatim>\<open>Accounting\<close>: the interface of a component that holds value. \<^verbatim>\<open>Quorum_Voting\<close>: the interfaces
    of a quorum size and of a voting discipline with locks, and agreement from these alone.
    \<^verbatim>\<open>F64\<close>: double-precision arithmetic, exact results rounded to 53 bits.
  \<^item> \<^verbatim>\<open>Tendermint\<close>: \<open>Tendermint\<close> of \<^verbatim>\<open>tendermint.rs\<close> as the record \<open>tendermint\<close>; every method is a
    function of the same name on it that returns the new state and the actions. \<^verbatim>\<open>Tendermint_Node\<close>
    has the invariants of one node, \<^verbatim>\<open>Tendermint_Network\<close> the committee with faulty members, lossy
    and reordering delivery, crashes and restarts, and agreement; \<^verbatim>\<open>Tendermint_Props\<close> the promises
    of the handlers; \<^verbatim>\<open>Tendermint_Run\<close> a run of four members.
  \<^item> \<^verbatim>\<open>Ego_Types\<close>: hashes, addresses, public keys, signatures, errors, and \<open>verify_signature\<close>.
    \<^verbatim>\<open>Bft_Types\<close>: headers, votes, certificates and Merkle roots of \<^verbatim>\<open>bft.rs\<close>. \<^verbatim>\<open>Fork_Choice\<close>:
    \<^verbatim>\<open>fork_choice.rs\<close>. \<^verbatim>\<open>Bft_Engine\<close>: \<open>BftEngine\<close> of \<^verbatim>\<open>bft.rs\<close>.
  \<^item> \<^verbatim>\<open>Account_Types\<close> and \<^verbatim>\<open>Account\<close>: the structures and methods of \<^verbatim>\<open>account.rs\<close>.
  \<^item> \<^verbatim>\<open>Escrow\<close>: \<^verbatim>\<open>contracts/p2p-solana/src/lib.rs\<close>, all instructions, on a ledger of accounts.
  \<^item> \<^verbatim>\<open>Sparse_Merkle\<close>: \<^verbatim>\<open>sparse_merkle.rs\<close>, the trie with its maps, proofs and their verification.
  \<^item> \<^verbatim>\<open>Ego_Text\<close>: strings as bytes and the string functions of the standard library. \<^verbatim>\<open>Abi\<close>: types,
    values, encoder, decoder and selectors of \<^verbatim>\<open>abi.rs\<close>.
  \<^item> \<^verbatim>\<open>Chain_Store\<close>: the transactions and blocks of \<^verbatim>\<open>ledger.rs\<close> as the chain rules read them, the
    overlay of \<^verbatim>\<open>drs.rs\<close> and the interface of a key-value store.
  \<^item> \<^verbatim>\<open>Hold_Types\<close> and \<^verbatim>\<open>Hold_Chain\<close>: the data and every function of \<^verbatim>\<open>hold_chain.rs\<close> but the trace,
    with what it uses of \<^verbatim>\<open>state_cert.rs\<close>, \<^verbatim>\<open>bls_agg.rs\<close>, \<^verbatim>\<open>dao_chain.rs\<close>, \<^verbatim>\<open>chain_db.rs\<close>
    and \<^verbatim>\<open>ledger.rs\<close>. \<^verbatim>\<open>Hold_Plan\<close> shows what the planner of a block guards, \<^verbatim>\<open>Hold_Course\<close> the steps of
    a block and chains of blocks, \<^verbatim>\<open>Hold_Pay\<close> the payments, \<^verbatim>\<open>Hold_Trace\<close> the trace.
  \<^item> \<^verbatim>\<open>Dao_Types\<close> and \<^verbatim>\<open>Dao_Chain\<close>: the data and the functions of \<^verbatim>\<open>dao_chain.rs\<close>, with what they use of
    \<^verbatim>\<open>chain_db.rs\<close>. \<^verbatim>\<open>Dao_Effects\<close> has what each transaction writes, \<^verbatim>\<open>Dao_Votes\<close> the stake votes over
    sequences of transactions.

  \<^bold>\<open>What is shown.\<close>
  \<^item> Tendermint: two correct members never decide differently when fewer than a third are faulty,
    over any reachable state; a member never signs two values for one round and kind, restarts
    included; a decision has a quorum of precommits behind it and is final; the handlers return in
    a state where no rule applies; a completed quorum for a valid value is decided; rounds are
    skipped only after a correct member; proposers rotate; timeouts are bounded; saving and
    restoring loses no vote.
  \<^item> BFT engine: one vote per height and round; weighted quorums overlap in more than a third;
    two conflicting certificates convict more than a third; fork resolution refines the choice by
    certificate size and least hash; the voting rule; view-change quorums; leadership in
    proportion to weight; headers and Merkle roots bind their content up to a collision that is
    given; key formats are canonical; dual signatures check every part they have.
  \<^item> Accounts: funds are conserved over every sequence of operations, failed ones included; the
    storage of a provider is the sum of its sectors; pass rate and health score stay in range.
  \<^item> Escrow: a settlement pays exactly the total less the fee and the fee; only the authorised
    party moves it; it happens once; a freeze blocks a reclaim; lamports are conserved.
  \<^item> Trie: a proof that verifies states what the trie holds, unless the hash collides on two given
    paths; the trie's own proofs verify after any operations; equal roots are equal contents.
  \<^item> Contract interface: call data is accepted exactly when it is a selector and the encoding of
    well-formed values; a signature names one function.
  \<^item> Theft holds: a valid block leaves what is locked on every sender; a settlement pays what is due
    and a hold is paid in one block of a chain; a tally counts the votes that were applied, nobody
    twice; a hold that has ended stays as it ended; a trace finds at most what was stolen.
  \<^item> Governance: stake that voted is not unstaked before the vote ends; the tally of a proposal is the
    sum of the latest votes, nobody counted twice, as long as it fits into 64 bits; no block after
    the end of a vote changes its tally or a vote.
  \<^item> Where the code does less than its comments say, a theorem states what it does: votes of
    outsiders in an unweighted committee, Merkle roots of an odd number of leaves, collateral
    locked on an account that is no provider, the capacity check that wraps, a bond that the
    spending earlier in the same block leaves uncovered.

  \<^bold>\<open>Conventions.\<close> Words keep their width; \<open>+\<close> and \<open>*\<close> wrap as in the release profile. An operation
  returns its state also on an error. A reading of the clock and the iteration order of a hash map
  are parameters, so a theorem holds for each of them. Hash functions and signature schemes are
  fields of the parameter record \<open>crypto\<close>; Solana's runtime is the record \<open>runtime\<close>; what a theorem
  needs of them is a hypothesis of it. A \<open>String\<close> is the string of its UTF-8 bytes. The theft holds
  are switched on by a build constant, which is the argument \<open>act\<close>; their errors are the messages
  of the code up to the first part that names a value; an entry of the overlay is the value that
  was serialised into it; hashing, JSON, the BLS library and the drawing of the pool are fields of
  the record \<open>hold_env\<close>. Hashing and JSON of governance are fields of the record \<open>dao_env\<close>.

  \<^bold>\<open>Loops and fuel.\<close> The loop of \<open>progress\<close> in \<^verbatim>\<open>tendermint.rs\<close> is a total function: each pass that
  continues lowers, lexicographically, the rounds left to skip, the steps left in the round and
  whether the polka of the round is still to be seen. The layers of a Merkle tree halve in length.
  The other loops of the modelled code run over finite collections and are structural
  recursions. Nothing in the development runs on fuel.

  \<^bold>\<open>Not modelled.\<close> Network, database, user-interface and process code, which is I/O; the
  cryptographic packages; the virtual machines and the contracts in other languages, whose
  semantics are not in the repository; the engines of \<^verbatim>\<open>crates/ego-consensus\<close>,
  \<^verbatim>\<open>crates/ego-rollup\<close> and the chain database of \<^verbatim>\<open>ego-desktop\<close>, which keep their state in a database
  and in process-wide locks reached from asynchronous tasks; the listings of \<^verbatim>\<open>dao_chain.rs\<close> for the user interface. Of \<^verbatim>\<open>types.rs\<close> and \<^verbatim>\<open>crypto.rs\<close> the
  parts the modelled components use are modelled.
\<close>

end
